(* ===== verification/Prelude.thy ===== *)
theory Prelude
  imports Complex_Main
begin

text \<open>
  What every component shares: Python's exceptions as values, the coroutine and statement
  forms of the source (sequencing, \<open>raise\<close>, \<open>try/except\<close>, \<open>try/finally\<close>, \<open>for\<close>) as a
  state-and-error type, and the string functions the source calls (\<open>str.strip\<close>, \<open>repr\<close>,
  decimal formatting, \<open>str.startswith\<close>).

  A Python \<open>str\<close> is modelled by its UTF-8 encoding, one HOL \<open>char\<close> per byte, so \<open>s.encode()\<close> is the
  identity and \<open>len(s)\<close> is \<open>py_len\<close>, which counts the bytes that start a code point.
\<close>

named_theorems py_simps \<open>execution of the Python statement forms\<close>

section \<open>Exceptions\<close>

text \<open>
  The exception classes the source raises, catches or lets through. \<open>OtherError\<close> stands for any
  other subclass of \<open>Exception\<close> that third-party code may raise. \<open>CancelledError\<close> carries the
  stream timeout when \<open>Worker._stream\<close> raises it and nothing when a task is cancelled;
  \<open>KeyError\<close> carries its text, the \<open>repr\<close> of the key.
\<close>

datatype exn =
    ValueError string
  | JSONDecodeError string
  | ValidationError string
  | TypeError string
  | AttributeError string
  | RuntimeError string
  | TimeoutError
  | CancelledError "rat option"
  | KeyError string
  | OverflowError string
  | LockStolenError string
  | FatalError string
  | RetriableError string
  | ResponseError string
  | HTTPException int string
  | OtherError string

text \<open>\<open>except Exception\<close>: everything but \<open>asyncio.CancelledError\<close>, a \<open>BaseException\<close>.\<close>

fun is_Exception :: "exn \<Rightarrow> bool" where
  "is_Exception (CancelledError _) = False"
| "is_Exception _ = True"

text \<open>\<open>except ValueError\<close>: \<open>JSONDecodeError\<close> and pydantic's \<open>ValidationError\<close> are subclasses.\<close>

fun is_ValueError :: "exn \<Rightarrow> bool" where
  "is_ValueError (ValueError _) = True"
| "is_ValueError (JSONDecodeError _) = True"
| "is_ValueError (ValidationError _) = True"
| "is_ValueError _ = False"

lemma is_ValueError_is_Exception [simp]: "is_ValueError e \<Longrightarrow> is_Exception e"
  by (cases e) auto

text \<open>\<open>str(exc)\<close>. The texts of a timeout and of a cancellation are empty in CPython.\<close>

fun exn_str :: "exn \<Rightarrow> string" where
  "exn_str (ValueError s) = s"
| "exn_str (JSONDecodeError s) = s"
| "exn_str (ValidationError s) = s"
| "exn_str (TypeError s) = s"
| "exn_str (AttributeError s) = s"
| "exn_str (RuntimeError s) = s"
| "exn_str TimeoutError = []"
| "exn_str (CancelledError _) = []"
| "exn_str (KeyError s) = s"
| "exn_str (OverflowError s) = s"
| "exn_str (LockStolenError s) = s"
| "exn_str (FatalError s) = s"
| "exn_str (RetriableError s) = s"
| "exn_str (ResponseError s) = s"
| "exn_str (HTTPException _ s) = s"
| "exn_str (OtherError s) = s"

section \<open>Statements\<close>

text \<open>
  A block of Python that runs in state \<open>'w\<close> ends with a value or an exception, and in either
  case with the state it left behind: effects before an exception stay.
\<close>

type_synonym ('w, 'a) py = "'w \<Rightarrow> (exn + 'a) \<times> 'w"

definition py_return :: "'a \<Rightarrow> ('w, 'a) py" where
  "py_return x w = (Inr x, w)"

definition py_raise :: "exn \<Rightarrow> ('w, 'a) py" where
  "py_raise e w = (Inl e, w)"

definition py_bind :: "('w, 'a) py \<Rightarrow> ('a \<Rightarrow> ('w, 'b) py) \<Rightarrow> ('w, 'b) py" where
  "py_bind m f w = (case fst (m w) of Inl e \<Rightarrow> (Inl e, snd (m w)) | Inr x \<Rightarrow> f x (snd (m w)))"

definition py_then :: "('w, 'a) py \<Rightarrow> ('w, 'b) py \<Rightarrow> ('w, 'b) py" where
  "py_then m k = py_bind m (\<lambda>_. k)"

text \<open>\<open>try: m  except ...: h\<close>. The handler gets every exception; it re-raises what its
  \<open>except\<close> clauses do not name.\<close>

definition py_try :: "('w, 'a) py \<Rightarrow> (exn \<Rightarrow> ('w, 'a) py) \<Rightarrow> ('w, 'a) py" where
  "py_try m h w = (case fst (m w) of Inl e \<Rightarrow> h e (snd (m w)) | Inr x \<Rightarrow> (Inr x, snd (m w)))"

text \<open>\<open>try: m  finally: f\<close>. An exception of \<open>f\<close> replaces the outcome of \<open>m\<close>.\<close>

definition py_finally :: "('w, 'a) py \<Rightarrow> ('w, unit) py \<Rightarrow> ('w, 'a) py" where
  "py_finally m f w =
     (case fst (f (snd (m w))) of
        Inl e \<Rightarrow> (Inl e, snd (f (snd (m w))))
      | Inr _ \<Rightarrow> (fst (m w), snd (f (snd (m w)))))"

definition py_get :: "('w \<Rightarrow> 'a) \<Rightarrow> ('w, 'a) py" where
  "py_get f w = (Inr (f w), w)"

definition py_put :: "('w \<Rightarrow> 'w) \<Rightarrow> ('w, unit) py" where
  "py_put f w = (Inr (), f w)"

text \<open>A result computed elsewhere, raised when it is an exception.\<close>

definition py_of_sum :: "exn + 'a \<Rightarrow> ('w, 'a) py" where
  "py_of_sum r w = (r, w)"

text \<open>\<open>for x in xs: f(x)\<close>, and the list comprehension \<open>[f(x) for x in xs]\<close>.\<close>

primrec py_for :: "('a \<Rightarrow> ('w, unit) py) \<Rightarrow> 'a list \<Rightarrow> ('w, unit) py" where
  "py_for f [] = py_return ()"
| "py_for f (x # xs) = py_then (f x) (py_for f xs)"

primrec py_collect :: "('a \<Rightarrow> ('w, 'b) py) \<Rightarrow> 'a list \<Rightarrow> ('w, 'b list) py" where
  "py_collect f [] = py_return []"
| "py_collect f (x # xs) =
     py_bind (f x) (\<lambda>y. py_bind (py_collect f xs) (\<lambda>ys. py_return (y # ys)))"

lemmas py_stmts = py_return_def py_raise_def py_bind_def py_then_def py_try_def py_finally_def
  py_get_def py_put_def py_of_sum_def

declare py_stmts [py_simps]

lemma py_bind_return [simp]: "py_bind (py_return x) f = f x"
  by (rule ext) (simp add: py_simps)

lemma py_bind_return_right [simp]: "py_bind m py_return = m"
  by (rule ext) (simp add: py_simps prod_eq_iff split: sum.split)

lemma py_bind_assoc: "py_bind (py_bind m f) g = py_bind m (\<lambda>x. py_bind (f x) g)"
  by (rule ext) (simp add: py_simps split: sum.split)

lemma py_bind_raise [simp]: "py_bind (py_raise e) f = py_raise e"
  by (rule ext) (simp add: py_simps)

lemma py_then_return [simp]: "py_then (py_return x) k = k"
  by (simp add: py_then_def)

lemma py_try_return [simp]: "py_try (py_return x) h = py_return x"
  by (rule ext) (simp add: py_simps)

lemma py_try_raise [simp]: "py_try (py_raise e) h = h e"
  by (rule ext) (simp add: py_simps)

text \<open>What a block that returns on every element leaves behind: the loop folds the states.\<close>

lemma py_for_returns:
  assumes "\<And>x w. x \<in> set xs \<Longrightarrow> fst (f x w) = Inr ()"
  shows "py_for f xs w = (Inr (), fold (\<lambda>x w. snd (f x w)) xs w)"
  using assms by (induction xs arbitrary: w) (simp_all add: py_simps)

lemma py_for_append: "py_for f (xs @ ys) = py_then (py_for f xs) (py_for f ys)"
  by (induction xs) (simp_all add: py_then_def py_bind_assoc)

section \<open>Strings\<close>

definition byte :: "char \<Rightarrow> nat" where
  "byte c = of_char c"

text \<open>Text beyond ASCII is written by its UTF-8 bytes.\<close>

definition utf8 :: "nat list \<Rightarrow> string" where
  "utf8 bs = map char_of bs"

text \<open>\<open>len(s)\<close>: bytes \<open>0x80..0xBF\<close> continue a code point, the others start one.\<close>

definition py_len :: "string \<Rightarrow> nat" where
  "py_len s = length (filter (\<lambda>c. \<not> (128 \<le> byte c \<and> byte c \<le> 191)) s)"

lemma py_len_Nil [simp]: "py_len [] = 0"
  by (simp add: py_len_def)

lemma py_len_le: "py_len s \<le> length s"
  by (simp add: py_len_def)

text \<open>
  \<open>str.strip()\<close>: the code points with \<open>str.isspace()\<close>, by the length of their encoding: ASCII
  (\<open>U+0009..000D\<close>, \<open>U+001C..0020\<close>), two bytes (\<open>U+0085\<close>, \<open>U+00A0\<close>) and three bytes (\<open>U+1680\<close>,
  \<open>U+2000..200A\<close>, \<open>U+2028\<close>, \<open>U+2029\<close>, \<open>U+202F\<close>, \<open>U+205F\<close>, \<open>U+3000\<close>).
\<close>

definition ws1 :: "char \<Rightarrow> bool" where
  "ws1 a = (9 \<le> byte a \<and> byte a \<le> 13 \<or> 28 \<le> byte a \<and> byte a \<le> 32)"

definition ws2 :: "char \<Rightarrow> char \<Rightarrow> bool" where
  "ws2 a b = (byte a = 194 \<and> (byte b = 133 \<or> byte b = 160))"

definition ws3 :: "char \<Rightarrow> char \<Rightarrow> char \<Rightarrow> bool" where
  "ws3 a b c =
     (byte a = 225 \<and> byte b = 154 \<and> byte c = 128
      \<or> byte a = 226 \<and> byte b = 128 \<and>
          (128 \<le> byte c \<and> byte c \<le> 138 \<or> byte c = 168 \<or> byte c = 169 \<or> byte c = 175)
      \<or> byte a = 226 \<and> byte b = 129 \<and> byte c = 159
      \<or> byte a = 227 \<and> byte b = 128 \<and> byte c = 128)"

fun py_lstrip :: "string \<Rightarrow> string" where
  "py_lstrip (a # b # c # xs) =
     (if ws1 a then py_lstrip (b # c # xs)
      else if ws2 a b then py_lstrip (c # xs)
      else if ws3 a b c then py_lstrip xs
      else a # b # c # xs)"
| "py_lstrip [a, b] = (if ws1 a then py_lstrip [b] else if ws2 a b then [] else [a, b])"
| "py_lstrip [a] = (if ws1 a then [] else [a])"
| "py_lstrip [] = []"

text \<open>The same from the right, on the reversed bytes.\<close>

fun rstrip_rev :: "string \<Rightarrow> string" where
  "rstrip_rev (c # b # a # xs) =
     (if ws1 c then rstrip_rev (b # a # xs)
      else if ws2 b c then rstrip_rev (a # xs)
      else if ws3 a b c then rstrip_rev xs
      else c # b # a # xs)"
| "rstrip_rev [c, b] = (if ws1 c then rstrip_rev [b] else if ws2 b c then [] else [c, b])"
| "rstrip_rev [c] = (if ws1 c then [] else [c])"
| "rstrip_rev [] = []"

definition py_strip :: "string \<Rightarrow> string" where
  "py_strip s = rev (rstrip_rev (rev (py_lstrip s)))"

lemma py_strip_Nil [simp]: "py_strip [] = []"
  by (simp add: py_strip_def)

lemma length_py_lstrip: "length (py_lstrip s) \<le> length s"
  by (induction s rule: py_lstrip.induct) auto

lemma length_rstrip_rev: "length (rstrip_rev s) \<le> length s"
  by (induction s rule: rstrip_rev.induct) auto

lemma length_py_strip: "length (py_strip s) \<le> length s"
  unfolding py_strip_def
  by (metis (no_types) le_trans length_py_lstrip length_rev length_rstrip_rev)

text \<open>Decimal formatting, \<open>str(n)\<close> and \<open>f"{n}"\<close>.\<close>

fun show_nat :: "nat \<Rightarrow> string" where
  "show_nat n =
     (if n < 10 then [char_of (48 + n)] else show_nat (n div 10) @ [char_of (48 + n mod 10)])"

declare show_nat.simps [simp del]

definition show_int :: "int \<Rightarrow> string" where
  "show_int i = (if i < 0 then ''-'' @ show_nat (nat (- i)) else show_nat (nat i))"

text \<open>
  \<open>repr(s)\<close>, used in messages only: the quote is \<open>'\<close> unless the text holds \<open>'\<close> and no \<open>"\<close>;
  backslash, the quote and ASCII control characters are escaped; text beyond ASCII is kept.
\<close>

definition hex_digit :: "nat \<Rightarrow> char" where
  "hex_digit n = (if n < 10 then char_of (48 + n) else char_of (87 + n))"

definition repr_char :: "char \<Rightarrow> char \<Rightarrow> string" where
  "repr_char q c =
     (if c = q \<or> byte c = 92 then [char_of (92::nat), c]
      else if byte c = 10 then [char_of (92::nat), CHR ''n'']
      else if byte c = 13 then [char_of (92::nat), CHR ''r'']
      else if byte c = 9 then [char_of (92::nat), CHR ''t'']
      else if byte c < 32 \<or> byte c = 127
        then [char_of (92::nat), CHR ''x'', hex_digit (byte c div 16), hex_digit (byte c mod 16)]
      else [c])"

definition py_repr :: "string \<Rightarrow> string" where
  "py_repr s =
     (let q = (if char_of (39::nat) \<in> set s \<and> char_of (34::nat) \<notin> set s
               then char_of (34::nat) else char_of (39::nat))
      in q # concat (map (repr_char q) s) @ [q])"

text \<open>\<open>s.startswith(p)\<close>.\<close>

fun starts_with :: "string \<Rightarrow> string \<Rightarrow> bool" where
  "starts_with s [] = True"
| "starts_with [] (p # ps) = False"
| "starts_with (c # s) (p # ps) = (c = p \<and> starts_with s ps)"

lemma starts_with_append [simp]: "starts_with (p @ s) p"
  by (induction p) auto

lemma starts_with_iff: "starts_with s p \<longleftrightarrow> (\<exists>t. s = p @ t)"
  by (induction s p rule: starts_with.induct) auto

text \<open>Python truthiness of an optional string, \<open>x or ""\<close>.\<close>

definition or_empty :: "string option \<Rightarrow> string" where
  "or_empty x = (case x of None \<Rightarrow> [] | Some s \<Rightarrow> s)"

lemma or_empty_simps [simp]: "or_empty None = []" "or_empty (Some s) = s"
  by (simp_all add: or_empty_def)

text \<open>\<open>x or None\<close> on a string.\<close>

definition or_none :: "string \<Rightarrow> string option" where
  "or_none s = (if s = [] then None else Some s)"

lemma or_empty_or_none [simp]: "or_empty (or_none s) = s"
  by (simp add: or_none_def)

text \<open>\<open>sep.join(xs)\<close>, and \<open>repr\<close> of a list of strings.\<close>

definition newline :: string where
  "newline = [char_of (10::nat)]"

fun join :: "string \<Rightarrow> string list \<Rightarrow> string" where
  "join sep [] = []"
| "join sep [x] = x"
| "join sep (x # y # xs) = x @ sep @ join sep (y # xs)"

definition repr_strs :: "string list \<Rightarrow> string" where
  "repr_strs xs = ''['' @ join '', '' (map py_repr xs) @ '']''"

section \<open>Association lists as insertion-ordered dicts\<close>

text \<open>\<open>d[k] = v\<close>: an existing key keeps its place, a new one goes to the end.\<close>

fun dict_set :: "('k \<times> 'v) list \<Rightarrow> 'k \<Rightarrow> 'v \<Rightarrow> ('k \<times> 'v) list" where
  "dict_set [] k v = [(k, v)]"
| "dict_set ((k', v') # d) k v = (if k' = k then (k, v) # d else (k', v') # dict_set d k v)"

lemma map_of_dict_set [simp]: "map_of (dict_set d k v) = (map_of d)(k \<mapsto> v)"
  by (induction d k v rule: dict_set.induct) (auto simp: fun_eq_iff)

lemma keys_dict_set: "fst ` set (dict_set d k v) = insert k (fst ` set d)"
  by (induction d k v rule: dict_set.induct) auto

lemma distinct_dict_set: "distinct (map fst d) \<Longrightarrow> distinct (map fst (dict_set d k v))"
proof (induction d k v rule: dict_set.induct)
  case (2 k' v' d k v)
  have "fst ` set (dict_set d k v) = insert k (fst ` set d)"
    by (rule keys_dict_set)
  with 2 show ?case
    by (auto simp: image_iff)
qed simp

text \<open>\<open>{**d, **e}\<close>: the entries of \<open>e\<close> are set one after the other.\<close>

definition dict_merge :: "('k \<times> 'v) list \<Rightarrow> ('k \<times> 'v) list \<Rightarrow> ('k \<times> 'v) list" where
  "dict_merge d e = fold (\<lambda>(k, v) d. dict_set d k v) e d"

lemma map_of_dict_merge:
  assumes "distinct (map fst e)"
  shows "map_of (dict_merge d e) = map_of d ++ map_of e"
  using assms
proof (induction e arbitrary: d)
  case Nil
  then show ?case by (simp add: dict_merge_def)
next
  case (Cons p e)
  obtain k v where p: "p = (k, v)" by (cases p)
  have "map_of (dict_merge d (p # e)) = map_of (dict_merge (dict_set d k v) e)"
    by (simp add: dict_merge_def p)
  also have "\<dots> = map_of (dict_set d k v) ++ map_of e"
    using Cons by simp
  also have "\<dots> = map_of d ++ map_of (p # e)"
    using Cons.prems p
    by (auto simp: fun_eq_iff map_add_def image_iff split: option.split dest: map_of_SomeD)
  finally show ?case .
qed

end
