(* ===== verification/Redis.thy ===== *)
theory Redis
  imports Prelude "HOL-Library.AList"
begin

text \<open>
  The Redis server as the source sees it. The server is third-party, so it is an argument of the
  model: a record of the commands the source issues, over an unknown server state \<open>'r\<close>. What the
  source relies on is the locale \<open>redis_service\<close>: through a view of the server state as a keyspace,
  each command answers and changes the keyspace as the Redis documentation says. \<open>mem_redis\<close> is a
  concrete server that meets the contract; the examples run on it.
\<close>

section \<open>The keyspace\<close>

datatype rval = RStr string | RSet "string list" | RList "string list"

record keyspace =
  ks_keys :: "string \<rightharpoonup> rval"
  ks_ttl :: "string \<rightharpoonup> int"
  ks_pub :: "(string \<times> string) list"

text \<open>The commands over a server state.\<close>

record 'r redis =
  r_get :: "string \<Rightarrow> ('r, string option) py"
  r_set :: "string \<Rightarrow> string \<Rightarrow> bool \<Rightarrow> int option \<Rightarrow> ('r, bool) py"
  r_delete :: "string \<Rightarrow> ('r, nat) py"
  r_expire :: "string \<Rightarrow> int \<Rightarrow> ('r, nat) py"
  r_sadd :: "string \<Rightarrow> string \<Rightarrow> ('r, nat) py"
  r_smembers :: "string \<Rightarrow> ('r, string list) py"
  r_lpush :: "string \<Rightarrow> string \<Rightarrow> ('r, nat) py"
  r_brpop :: "string \<Rightarrow> int \<Rightarrow> ('r, (string \<times> string) option) py"
  r_llen :: "string \<Rightarrow> ('r, nat) py"
  r_publish :: "string \<Rightarrow> string \<Rightarrow> ('r, nat) py"
  r_scan :: "nat \<Rightarrow> string \<Rightarrow> nat \<Rightarrow> ('r, nat \<times> string list) py"
  r_elapse :: "nat \<Rightarrow> 'r \<Rightarrow> 'r"

section \<open>What the commands do, by the documentation\<close>

definition wrong_type :: exn where
  "wrong_type = ResponseError ''WRONGTYPE Operation against a key holding the wrong kind of value''"

definition cmd_get :: "string \<Rightarrow> (keyspace, string option) py" where
  "cmd_get k K =
     (case ks_keys K k of
        None \<Rightarrow> (Inr None, K)
      | Some (RStr s) \<Rightarrow> (Inr (Some s), K)
      | Some _ \<Rightarrow> (Inl wrong_type, K))"

text \<open>\<open>SET key value [NX] [EX ttl]\<close>: any old value and its time to live are overwritten.\<close>

definition cmd_set :: "string \<Rightarrow> string \<Rightarrow> bool \<Rightarrow> int option \<Rightarrow> (keyspace, bool) py" where
  "cmd_set k v nx ex K =
     (if (\<exists>n. ex = Some n \<and> n \<le> 0) then (Inl (ResponseError ''invalid expire time''), K)
      else if nx \<and> ks_keys K k \<noteq> None then (Inr False, K)
      else (Inr True, K\<lparr>ks_keys := (ks_keys K)(k \<mapsto> RStr v), ks_ttl := (ks_ttl K)(k := ex)\<rparr>))"

definition ks_remove :: "string \<Rightarrow> keyspace \<Rightarrow> keyspace" where
  "ks_remove k K = K\<lparr>ks_keys := (ks_keys K)(k := None), ks_ttl := (ks_ttl K)(k := None)\<rparr>"

definition cmd_delete :: "string \<Rightarrow> (keyspace, nat) py" where
  "cmd_delete k K = (Inr (if ks_keys K k = None then 0 else 1), ks_remove k K)"

text \<open>\<open>EXPIRE\<close> with a time that is not positive deletes the key.\<close>

definition cmd_expire :: "string \<Rightarrow> int \<Rightarrow> (keyspace, nat) py" where
  "cmd_expire k n K =
     (if ks_keys K k = None then (Inr 0, K)
      else if n \<le> 0 then (Inr 1, ks_remove k K)
      else (Inr 1, K\<lparr>ks_ttl := (ks_ttl K)(k \<mapsto> n)\<rparr>))"

definition cmd_sadd :: "string \<Rightarrow> string \<Rightarrow> (keyspace, nat) py" where
  "cmd_sadd k m K =
     (case ks_keys K k of
        None \<Rightarrow> (Inr 1, K\<lparr>ks_keys := (ks_keys K)(k \<mapsto> RSet [m])\<rparr>)
      | Some (RSet xs) \<Rightarrow>
          (Inr (if m \<in> set xs then 0 else 1),
           K\<lparr>ks_keys := (ks_keys K)(k \<mapsto> RSet (List.insert m xs))\<rparr>)
      | Some _ \<Rightarrow> (Inl wrong_type, K))"

definition cmd_lpush :: "string \<Rightarrow> string \<Rightarrow> (keyspace, nat) py" where
  "cmd_lpush k v K =
     (case ks_keys K k of
        None \<Rightarrow> (Inr 1, K\<lparr>ks_keys := (ks_keys K)(k \<mapsto> RList [v])\<rparr>)
      | Some (RList xs) \<Rightarrow>
          (Inr (Suc (length xs)), K\<lparr>ks_keys := (ks_keys K)(k \<mapsto> RList (v # xs))\<rparr>)
      | Some _ \<Rightarrow> (Inl wrong_type, K))"

text \<open>\<open>BRPOP\<close>: the last element, or nothing when the timeout passes on an empty list. A list
  that becomes empty is removed.\<close>

definition cmd_brpop :: "string \<Rightarrow> int \<Rightarrow> (keyspace, (string \<times> string) option) py" where
  "cmd_brpop k timeout K =
     (case ks_keys K k of
        None \<Rightarrow> (Inr None, K)
      | Some (RList xs) \<Rightarrow>
          (if xs = [] then (Inr None, K)
           else (Inr (Some (k, last xs)),
                 if butlast xs = [] then ks_remove k K
                 else K\<lparr>ks_keys := (ks_keys K)(k \<mapsto> RList (butlast xs))\<rparr>))
      | Some _ \<Rightarrow> (Inl wrong_type, K))"

definition cmd_llen :: "string \<Rightarrow> (keyspace, nat) py" where
  "cmd_llen k K =
     (case ks_keys K k of
        None \<Rightarrow> (Inr 0, K)
      | Some (RList xs) \<Rightarrow> (Inr (length xs), K)
      | Some _ \<Rightarrow> (Inl wrong_type, K))"

text \<open>Every message of a channel, in the order it was published.\<close>

definition cmd_publish :: "string \<Rightarrow> string \<Rightarrow> keyspace \<Rightarrow> keyspace" where
  "cmd_publish c m K = K\<lparr>ks_pub := ks_pub K @ [(c, m)]\<rparr>"

text \<open>\<open>n\<close> seconds pass: times to live go down, and a key whose time is up is gone.\<close>

definition ks_elapse :: "nat \<Rightarrow> keyspace \<Rightarrow> keyspace" where
  "ks_elapse n K =
     K\<lparr>ks_keys := (\<lambda>k. case ks_ttl K k of
                         Some t \<Rightarrow> (if t \<le> int n then None else ks_keys K k)
                       | None \<Rightarrow> ks_keys K k),
       ks_ttl := (\<lambda>k. case ks_ttl K k of
                        Some t \<Rightarrow> (if t \<le> int n then None else Some (t - int n))
                      | None \<Rightarrow> None)\<rparr>"

lemmas cmd_defs = cmd_get_def cmd_set_def cmd_delete_def cmd_expire_def cmd_sadd_def
  cmd_lpush_def cmd_brpop_def cmd_llen_def cmd_publish_def ks_remove_def

text \<open>
  A full iteration of \<open>SCAN\<close>: calls from cursor 0 until the server answers with cursor 0, at most
  \<open>n\<close> of them, and the keys they returned. A key may come several times.
\<close>

fun scan_run :: "nat \<Rightarrow> 'r redis \<Rightarrow> string \<Rightarrow> nat \<Rightarrow> nat \<Rightarrow> 'r \<Rightarrow> (string list \<times> 'r) option" where
  "scan_run 0 R p c cur r = None"
| "scan_run (Suc n) R p c cur r =
     (case fst (r_scan R cur p c r) of
        Inl e \<Rightarrow> None
      | Inr (cur', ks) \<Rightarrow>
          (if cur' = 0 then Some (ks, snd (r_scan R cur p c r))
           else map_option (\<lambda>(ks', r'). (ks @ ks', r'))
                  (scan_run n R p c cur' (snd (r_scan R cur p c r)))))"

lemma scan_run_more: "scan_run n R p c cur r = Some x \<Longrightarrow> n \<le> m \<Longrightarrow> scan_run m R p c cur r = Some x"
proof (induction n arbitrary: m cur r x)
  case 0
  then show ?case by simp
next
  case (Suc n)
  from Suc.prems(2) obtain m' where m: "m = Suc m'" "n \<le> m'" by (cases m) auto
  obtain cur' ks where step: "fst (r_scan R cur p c r) = Inr (cur', ks)"
    using Suc.prems(1) by (auto split: sum.splits)
  show ?case
  proof (cases "cur' = 0")
    case True
    with Suc.prems(1) step m show ?thesis by simp
  next
    case False
    with Suc.prems(1) step obtain y where
      "scan_run n R p c cur' (snd (r_scan R cur p c r)) = Some y"
      "x = (case y of (ks', r') \<Rightarrow> (ks @ ks', r'))"
      by auto
    moreover from this(1) m(2) have "scan_run m' R p c cur' (snd (r_scan R cur p c r)) = Some y"
      by (rule Suc.IH)
    ultimately show ?thesis using step False m by simp
  qed
qed

section \<open>The contract\<close>

text \<open>\<open>op\<close> answers as the documented command does and has its effect on the keyspace.\<close>

definition implements :: "('r \<Rightarrow> keyspace) \<Rightarrow> ('r, 'a) py \<Rightarrow> (keyspace, 'a) py \<Rightarrow> bool" where
  "implements view m cmd =
     (\<forall>r. fst (m r) = fst (cmd (view r)) \<and> view (snd (m r)) = snd (cmd (view r)))"

locale redis_service =
  fixes R :: "'r redis" and view :: "'r \<Rightarrow> keyspace"
  assumes get_ok: "implements view (r_get R k) (cmd_get k)"
    and set_ok: "implements view (r_set R k v nx ex) (cmd_set k v nx ex)"
    and delete_ok: "implements view (r_delete R k) (cmd_delete k)"
    and expire_ok: "implements view (r_expire R k n) (cmd_expire k n)"
    and sadd_ok: "implements view (r_sadd R k v) (cmd_sadd k v)"
    and lpush_ok: "implements view (r_lpush R k v) (cmd_lpush k v)"
    and brpop_ok: "implements view (r_brpop R k timeout) (cmd_brpop k timeout)"
    and llen_ok: "implements view (r_llen R k) (cmd_llen k)"
    and publish_answers: "\<exists>i. fst (r_publish R c v r) = Inr i"
    and publish_view: "view (snd (r_publish R c v r)) = cmd_publish c v (view r)"
    and smembers_none: "ks_keys (view r) k = None \<Longrightarrow> fst (r_smembers R k r) = Inr []"
    and smembers_set: "ks_keys (view r) k = Some (RSet xs) \<Longrightarrow>
      \<exists>ys. fst (r_smembers R k r) = Inr ys \<and> set ys = set xs \<and> distinct ys"
    and smembers_view: "view (snd (r_smembers R k r)) = view r"
    and scan_iterates: "\<exists>i ks r'. scan_run i R (p @ ''*'') cnt 0 r = Some (ks, r')
      \<and> set ks = {k. ks_keys (view r) k \<noteq> None \<and> starts_with k p} \<and> view r' = view r"
    and elapse_view: "view (r_elapse R sec r) = ks_elapse sec (view r)"
begin

lemma get_fst [simp]: "fst (r_get R k r) = fst (cmd_get k (view r))"
  using get_ok by (simp add: implements_def)

lemma get_view [simp]: "view (snd (r_get R k r)) = view r"
proof -
  have "snd (cmd_get k K) = K" for K
    by (simp add: cmd_get_def split: option.split rval.split)
  with get_ok show ?thesis by (simp add: implements_def)
qed

lemma set_fst [simp]: "fst (r_set R k v nx ex r) = fst (cmd_set k v nx ex (view r))"
  and set_view [simp]: "view (snd (r_set R k v nx ex r)) = snd (cmd_set k v nx ex (view r))"
  using set_ok by (simp_all add: implements_def)

lemma delete_fst [simp]: "fst (r_delete R k r) = fst (cmd_delete k (view r))"
  and delete_view [simp]: "view (snd (r_delete R k r)) = snd (cmd_delete k (view r))"
  using delete_ok by (simp_all add: implements_def)

lemma expire_fst [simp]: "fst (r_expire R k n r) = fst (cmd_expire k n (view r))"
  and expire_view [simp]: "view (snd (r_expire R k n r)) = snd (cmd_expire k n (view r))"
  using expire_ok by (simp_all add: implements_def)

lemma sadd_fst [simp]: "fst (r_sadd R k v r) = fst (cmd_sadd k v (view r))"
  and sadd_view [simp]: "view (snd (r_sadd R k v r)) = snd (cmd_sadd k v (view r))"
  using sadd_ok by (simp_all add: implements_def)

lemma lpush_fst [simp]: "fst (r_lpush R k v r) = fst (cmd_lpush k v (view r))"
  and lpush_view [simp]: "view (snd (r_lpush R k v r)) = snd (cmd_lpush k v (view r))"
  using lpush_ok by (simp_all add: implements_def)

lemma brpop_fst [simp]: "fst (r_brpop R k n r) = fst (cmd_brpop k n (view r))"
  and brpop_view [simp]: "view (snd (r_brpop R k n r)) = snd (cmd_brpop k n (view r))"
  using brpop_ok by (simp_all add: implements_def)

lemma llen_fst [simp]: "fst (r_llen R k r) = fst (cmd_llen k (view r))"
  using llen_ok by (simp add: implements_def)

lemma llen_view [simp]: "view (snd (r_llen R k r)) = view r"
proof -
  have "snd (cmd_llen k K) = K" for K
    by (simp add: cmd_llen_def split: option.split rval.split)
  with llen_ok show ?thesis by (simp add: implements_def)
qed

declare publish_view [simp] smembers_view [simp] elapse_view [simp]

end

section \<open>A server in memory\<close>

record mem =
  mem_keys :: "(string \<times> rval) list"
  mem_ttl :: "(string \<times> int) list"
  mem_pub :: "(string \<times> string) list"

definition mem_view :: "mem \<Rightarrow> keyspace" where
  "mem_view M = \<lparr>ks_keys = map_of (mem_keys M), ks_ttl = map_of (mem_ttl M), ks_pub = mem_pub M\<rparr>"

definition alist_put :: "string \<Rightarrow> 'v option \<Rightarrow> (string \<times> 'v) list \<Rightarrow> (string \<times> 'v) list" where
  "alist_put k x xs = (case x of None \<Rightarrow> AList.delete k xs | Some v \<Rightarrow> AList.update k v xs)"

lemma map_of_alist_put: "map_of (alist_put k x xs) = (map_of xs)(k := x)"
  by (simp add: alist_put_def AList.update_conv' AList.delete_conv' split: option.split)

text \<open>Run a documented command that touches one key, and write that key back.\<close>

definition mem_run :: "string \<Rightarrow> (keyspace, 'a) py \<Rightarrow> (mem, 'a) py" where
  "mem_run k cmd M =
     (fst (cmd (mem_view M)),
      M\<lparr>mem_keys := alist_put k (ks_keys (snd (cmd (mem_view M))) k) (mem_keys M),
        mem_ttl := alist_put k (ks_ttl (snd (cmd (mem_view M))) k) (mem_ttl M)\<rparr>)"

definition touches :: "string \<Rightarrow> (keyspace, 'a) py \<Rightarrow> bool" where
  "touches k cmd = (\<forall>K. ks_pub (snd (cmd K)) = ks_pub K \<and> (\<forall>k'. k' \<noteq> k \<longrightarrow>
     ks_keys (snd (cmd K)) k' = ks_keys K k' \<and> ks_ttl (snd (cmd K)) k' = ks_ttl K k'))"

lemma mem_run_implements: "touches k cmd \<Longrightarrow> implements mem_view (mem_run k cmd) cmd"
  by (auto simp: implements_def mem_run_def mem_view_def map_of_alist_put touches_def fun_eq_iff
      intro!: keyspace.equality)

definition mem_smembers :: "string \<Rightarrow> (mem, string list) py" where
  "mem_smembers k M =
     (case map_of (mem_keys M) k of
        None \<Rightarrow> (Inr [], M)
      | Some (RSet xs) \<Rightarrow> (Inr (remdups xs), M)
      | Some _ \<Rightarrow> (Inl wrong_type, M))"

definition mem_scan :: "nat \<Rightarrow> string \<Rightarrow> nat \<Rightarrow> (mem, nat \<times> string list) py" where
  "mem_scan cur p cnt M =
     (Inr (0, filter (\<lambda>k. starts_with k (butlast p)) (map fst (mem_keys M))), M)"

definition mem_elapse :: "nat \<Rightarrow> mem \<Rightarrow> mem" where
  "mem_elapse n M =
     (let live = (\<lambda>k. case map_of (mem_ttl M) k of Some t \<Rightarrow> int n < t | None \<Rightarrow> True)
      in M\<lparr>mem_keys := filter (\<lambda>(k, v). live k) (mem_keys M),
           mem_ttl := map (\<lambda>(k, t). (k, t - int n)) (filter (\<lambda>(k, t). live k) (mem_ttl M))\<rparr>)"

definition mem_redis :: "mem redis" where
  "mem_redis =
     \<lparr>r_get = (\<lambda>k. mem_run k (cmd_get k)),
      r_set = (\<lambda>k v nx ex. mem_run k (cmd_set k v nx ex)),
      r_delete = (\<lambda>k. mem_run k (cmd_delete k)),
      r_expire = (\<lambda>k n. mem_run k (cmd_expire k n)),
      r_sadd = (\<lambda>k v. mem_run k (cmd_sadd k v)),
      r_smembers = mem_smembers,
      r_lpush = (\<lambda>k v. mem_run k (cmd_lpush k v)),
      r_brpop = (\<lambda>k n. mem_run k (cmd_brpop k n)),
      r_llen = (\<lambda>k. mem_run k (cmd_llen k)),
      r_publish = (\<lambda>c v M. (Inr 0, M\<lparr>mem_pub := mem_pub M @ [(c, v)]\<rparr>)),
      r_scan = mem_scan,
      r_elapse = mem_elapse\<rparr>"

lemma map_of_filter_key: "map_of (filter (\<lambda>(k, v). P k) xs) k = (if P k then map_of xs k else None)"
  by (induction xs) auto

lemma map_of_map_val: "map_of (map (\<lambda>(k, v). (k, f v)) xs) k = map_option f (map_of xs k)"
  by (induction xs) auto

lemma mem_elapse_view: "mem_view (mem_elapse n M) = ks_elapse n (mem_view M)"
  by (auto simp: mem_view_def mem_elapse_def ks_elapse_def Let_def map_of_filter_key
      map_of_map_val fun_eq_iff split: option.split)

interpretation mem: redis_service mem_redis mem_view
proof (unfold_locales, goal_cases)
  case (1 k) show ?case
    by (simp add: mem_redis_def, rule mem_run_implements)
      (simp add: touches_def cmd_defs split: option.split rval.split)
next
  case (2 k v nx ex) show ?case
    by (simp add: mem_redis_def, rule mem_run_implements) (simp add: touches_def cmd_defs)
next
  case (3 k) show ?case
    by (simp add: mem_redis_def, rule mem_run_implements) (simp add: touches_def cmd_defs)
next
  case (4 k n) show ?case
    by (simp add: mem_redis_def, rule mem_run_implements) (simp add: touches_def cmd_defs)
next
  case (5 k v) show ?case
    by (simp add: mem_redis_def, rule mem_run_implements)
      (simp add: touches_def cmd_defs split: option.split rval.split)
next
  case (6 k v) show ?case
    by (simp add: mem_redis_def, rule mem_run_implements)
      (simp add: touches_def cmd_defs split: option.split rval.split)
next
  case (7 k n) show ?case
    by (simp add: mem_redis_def, rule mem_run_implements)
      (simp add: touches_def cmd_defs split: option.split rval.split)
next
  case (8 k) show ?case
    by (simp add: mem_redis_def, rule mem_run_implements)
      (simp add: touches_def cmd_defs split: option.split rval.split)
next
  case 9 show ?case by (simp add: mem_redis_def)
next
  case 10 show ?case by (simp add: mem_redis_def mem_view_def cmd_publish_def)
next
  case 11 then show ?case by (simp add: mem_redis_def mem_view_def mem_smembers_def)
next
  case 12 then show ?case by (simp add: mem_redis_def mem_view_def mem_smembers_def)
next
  case 13 show ?case
    by (simp add: mem_redis_def mem_view_def mem_smembers_def split: option.split rval.split)
next
  case (14 p cnt r)
  have "scan_run 1 mem_redis (p @ ''*'') cnt 0 r
      = Some (filter (\<lambda>k. starts_with k p) (map fst (mem_keys r)), r)"
    by (simp add: mem_redis_def mem_scan_def)
  moreover have "set (filter (\<lambda>k. starts_with k p) (map fst (mem_keys r)))
      = {k. ks_keys (mem_view r) k \<noteq> None \<and> starts_with k p}"
    by (auto simp: mem_view_def map_of_eq_None_iff image_iff)
  ultimately show ?case by blast
next
  case 15 show ?case by (simp add: mem_redis_def mem_elapse_view)
qed

end
