(* ===== verification/Json.thy ===== *)
theory Json
  imports Prelude
begin

text \<open>
  JSON values as Python's \<open>json.loads\<close> returns them, the accessors the source applies to them
  (\<open>dict.get\<close>, truthiness, \<open>isinstance(x, dict)\<close>), the contract \<open>json_codec\<close> the source relies on
  for JSON text, and a printer and parser of JSON text that meet it. The text functions are
  arguments of the model; this pair is the concrete codec the examples run.
\<close>

section \<open>Values\<close>

text \<open>A dict keeps insertion order; \<open>JReal\<close> holds a non-integer literal by its text.\<close>

datatype json =
    JNull
  | JBool bool
  | JInt int
  | JReal string
  | JStr string
  | JArr "json list"
  | JObj "(string \<times> json) list"

text \<open>\<open>bool(x)\<close>; a literal such as \<open>0.0\<close> or \<open>-0e5\<close> whose digits before the exponent are zero is false.\<close>

definition real_is_zero :: "string \<Rightarrow> bool" where
  "real_is_zero s =
     (\<forall>c \<in> set (takeWhile (\<lambda>c. c \<noteq> CHR ''e'' \<and> c \<noteq> CHR ''E'') s). c \<notin> set ''123456789'')"

fun truthy :: "json \<Rightarrow> bool" where
  "truthy JNull = False"
| "truthy (JBool b) = b"
| "truthy (JInt i) = (i \<noteq> 0)"
| "truthy (JReal s) = (\<not> real_is_zero s)"
| "truthy (JStr s) = (s \<noteq> [])"
| "truthy (JArr xs) = (xs \<noteq> [])"
| "truthy (JObj m) = (m \<noteq> [])"

section \<open>The contract of a JSON text codec\<close>

text \<open>What Python's \<open>json\<close> documents: parsing the text of a value gives the value back.
  Keys of an object are distinct, as in a dict.\<close>

fun is_real_literal :: "string \<Rightarrow> bool" where
  "is_real_literal s =
     (s \<noteq> [] \<and> set s \<subseteq> set ''0123456789+-.eE''
      \<and> (hd s = CHR ''-'' \<or> hd s \<in> set ''0123456789'')
      \<and> (\<exists>c \<in> set s. c \<in> set ''.eE''))"

declare is_real_literal.simps [simp del]

fun wf_json :: "json \<Rightarrow> bool" where
  "wf_json (JReal s) = is_real_literal s"
| "wf_json (JArr xs) = (\<forall>x \<in> set xs. wf_json x)"
| "wf_json (JObj m) = (distinct (map fst m) \<and> (\<forall>p \<in> set m. wf_json (snd p)))"
| "wf_json _ = True"

locale json_codec =
  fixes dumps :: "json \<Rightarrow> string"
    and loads :: "string \<Rightarrow> json option"
  assumes loads_dumps: "wf_json j \<Longrightarrow> loads (dumps j) = Some j"
begin

lemma dumps_inject: "wf_json i \<Longrightarrow> wf_json j \<Longrightarrow> dumps i = dumps j \<longleftrightarrow> i = j"
  by (metis loads_dumps option.inject)

end

section \<open>A printer and a parser of JSON text\<close>

definition quote_char :: "char \<Rightarrow> string" where
  "quote_char c =
     (if byte c = 34 \<or> byte c = 92 then [CHR 0x5C, c]
      else if byte c < 32
        then [CHR 0x5C, CHR ''u'', CHR ''0'', CHR ''0'',
              hex_digit (byte c div 16), hex_digit (byte c mod 16)]
      else [c])"

definition quote_str :: "string \<Rightarrow> string" where
  "quote_str s = CHR 0x22 # concat (map quote_char s) @ [CHR 0x22]"

fun json_dumps :: "json \<Rightarrow> string"
  and dumps_elems :: "json list \<Rightarrow> string"
  and dumps_members :: "(string \<times> json) list \<Rightarrow> string" where
  "json_dumps JNull = ''null''"
| "json_dumps (JBool b) = (if b then ''true'' else ''false'')"
| "json_dumps (JInt i) = show_int i"
| "json_dumps (JReal s) = s"
| "json_dumps (JStr s) = quote_str s"
| "json_dumps (JArr xs) = ''['' @ dumps_elems xs @ '']''"
| "json_dumps (JObj m) = ''{'' @ dumps_members m @ ''}''"
| "dumps_elems [] = []"
| "dumps_elems [x] = json_dumps x"
| "dumps_elems (x # y # xs) = json_dumps x @ '', '' @ dumps_elems (y # xs)"
| "dumps_members [] = []"
| "dumps_members [(k, v)] = quote_str k @ '': '' @ json_dumps v"
| "dumps_members ((k, v) # p # m) =
     quote_str k @ '': '' @ json_dumps v @ '', '' @ dumps_members (p # m)"

definition is_json_ws :: "char \<Rightarrow> bool" where
  "is_json_ws c = (byte c = 32 \<or> byte c = 9 \<or> byte c = 10 \<or> byte c = 13)"

abbreviation skip_ws :: "string \<Rightarrow> string" where
  "skip_ws \<equiv> dropWhile is_json_ws"

definition num_chars :: string where
  "num_chars = ''0123456789+-.eE''"

fun hex_val :: "char \<Rightarrow> nat option" where
  "hex_val c =
     (if 48 \<le> byte c \<and> byte c \<le> 57 then Some (byte c - 48)
      else if 97 \<le> byte c \<and> byte c \<le> 102 then Some (byte c - 87)
      else if 65 \<le> byte c \<and> byte c \<le> 70 then Some (byte c - 55)
      else None)"

declare hex_val.simps [simp del]

text \<open>The UTF-8 bytes of a code point of the basic plane; surrogates are not accepted.\<close>

definition utf8_of :: "nat \<Rightarrow> string option" where
  "utf8_of n =
     (if n < 128 then Some [char_of n]
      else if n < 2048 then Some [char_of (192 + n div 64), char_of (128 + n mod 64)]
      else if 55296 \<le> n \<and> n < 57344 then None
      else Some [char_of (224 + n div 4096), char_of (128 + n div 64 mod 64),
                 char_of (128 + n mod 64)])"

fun escape_val :: "char \<Rightarrow> char option" where
  "escape_val c =
     (if c \<in> {CHR 0x22, CHR 0x5C, CHR ''/''} then Some c
      else if c = CHR ''b'' then Some (char_of (8::nat))
      else if c = CHR ''f'' then Some (char_of (12::nat))
      else if c = CHR ''n'' then Some (char_of (10::nat))
      else if c = CHR ''r'' then Some (char_of (13::nat))
      else if c = CHR ''t'' then Some (char_of (9::nat))
      else None)"

declare escape_val.simps [simp del]

fun unicode_val :: "char \<Rightarrow> char \<Rightarrow> char \<Rightarrow> char \<Rightarrow> string option" where
  "unicode_val a b c d =
     (case (hex_val a, hex_val b, hex_val c, hex_val d) of
        (Some w, Some x, Some y, Some z) \<Rightarrow> utf8_of (4096 * w + 256 * x + 16 * y + z)
      | _ \<Rightarrow> None)"

declare unicode_val.simps [simp del]

text \<open>The characters of a string literal after its opening quote, and the text behind it.\<close>

fun parse_chars :: "string \<Rightarrow> (string \<times> string) option" where
  "parse_chars [] = None"
| "parse_chars (c # s) =
     (if c = CHR 0x22 then Some ([], s)
      else if c = CHR 0x5C then
        (case s of
           [] \<Rightarrow> None
         | e # t \<Rightarrow>
             (if e = CHR ''u'' then
                (case t of
                   h1 # h2 # h3 # h4 # u \<Rightarrow>
                     (case (unicode_val h1 h2 h3 h4, parse_chars u) of
                        (Some x, Some (y, r)) \<Rightarrow> Some (x @ y, r)
                      | _ \<Rightarrow> None)
                 | _ \<Rightarrow> None)
              else
                (case (escape_val e, parse_chars t) of
                   (Some x, Some (y, r)) \<Rightarrow> Some (x # y, r)
                 | _ \<Rightarrow> None)))
      else if byte c < 32 then None
      else (case parse_chars s of Some (y, r) \<Rightarrow> Some (c # y, r) | None \<Rightarrow> None))"

definition digits_val :: "string \<Rightarrow> nat" where
  "digits_val s = foldl (\<lambda>n c. 10 * n + (byte c - 48)) 0 s"

definition is_digit :: "char \<Rightarrow> bool" where
  "is_digit c = (48 \<le> byte c \<and> byte c \<le> 57)"

definition parse_number :: "string \<Rightarrow> json option" where
  "parse_number s =
     (if s \<noteq> [] \<and> list_all is_digit s then Some (JInt (int (digits_val s)))
      else if s \<noteq> [] \<and> hd s = CHR ''-'' \<and> tl s \<noteq> [] \<and> list_all is_digit (tl s)
        then Some (JInt (- int (digits_val (tl s))))
      else if is_real_literal s then Some (JReal s)
      else None)"

text \<open>White space, then this character: the text behind it.\<close>

definition expect :: "char \<Rightarrow> string \<Rightarrow> string option" where
  "expect c s = (case skip_ws s of [] \<Rightarrow> None | d # t \<Rightarrow> (if d = c then Some t else None))"

fun parse_value :: "nat \<Rightarrow> string \<Rightarrow> (json \<times> string) option"
  and parse_elems :: "nat \<Rightarrow> string \<Rightarrow> (json list \<times> string) option"
  and parse_members :: "nat \<Rightarrow> string \<Rightarrow> ((string \<times> json) list \<times> string) option" where
  "parse_value 0 s = None"
| "parse_value (Suc n) s =
     (case skip_ws s of
        [] \<Rightarrow> None
      | c # t \<Rightarrow>
          (if c = CHR ''['' then
             (case expect (CHR '']'') t of
                Some u \<Rightarrow> Some (JArr [], u)
              | None \<Rightarrow> map_option (\<lambda>(xs, r). (JArr xs, r)) (parse_elems n t))
           else if c = CHR 0x7B then
             (case expect (CHR 0x7D) t of
                Some u \<Rightarrow> Some (JObj [], u)
              | None \<Rightarrow> map_option (\<lambda>(m, r). (JObj (dict_merge [] m), r)) (parse_members n t))
           else if c = CHR 0x22 then map_option (\<lambda>(x, r). (JStr x, r)) (parse_chars t)
           else if starts_with (c # t) ''null'' then Some (JNull, drop 4 (c # t))
           else if starts_with (c # t) ''true'' then Some (JBool True, drop 4 (c # t))
           else if starts_with (c # t) ''false'' then Some (JBool False, drop 5 (c # t))
           else map_option (\<lambda>j. (j, dropWhile (\<lambda>c. c \<in> set num_chars) (c # t)))
                  (parse_number (takeWhile (\<lambda>c. c \<in> set num_chars) (c # t)))))"
| "parse_elems 0 s = None"
| "parse_elems (Suc n) s =
     (case parse_value n s of
        None \<Rightarrow> None
      | Some (x, r) \<Rightarrow>
          (case expect (CHR '','') r of
             Some u \<Rightarrow> map_option (\<lambda>(xs, r). (x # xs, r)) (parse_elems n u)
           | None \<Rightarrow> map_option (\<lambda>u. ([x], u)) (expect (CHR '']'') r)))"
| "parse_members 0 s = None"
| "parse_members (Suc n) s =
     (case Option.bind (expect (CHR 0x22) s) parse_chars of
        None \<Rightarrow> None
      | Some (k, r) \<Rightarrow>
          (case Option.bind (expect (CHR '':'') r) (parse_value n) of
             None \<Rightarrow> None
           | Some (x, r) \<Rightarrow>
               (case expect (CHR '','') r of
                  Some u \<Rightarrow> map_option (\<lambda>(m, r). ((k, x) # m, r)) (parse_members n u)
                | None \<Rightarrow> map_option (\<lambda>u. ([(k, x)], u)) (expect (CHR 0x7D) r))))"

definition json_loads :: "string \<Rightarrow> json option" where
  "json_loads s =
     (case parse_value (Suc (length s)) s of
        None \<Rightarrow> None
      | Some (j, r) \<Rightarrow> (if skip_ws r = [] then Some j else None))"

subsection \<open>Parsing what was printed\<close>

lemma byte_hex_digit [simp]: "n < 16 \<Longrightarrow> byte (hex_digit n) = (if n < 10 then 48 + n else 87 + n)"
  by (simp add: byte_def hex_digit_def)

lemma hex_val_hex_digit [simp]: "n < 16 \<Longrightarrow> hex_val (hex_digit n) = Some n"
  by (auto simp: hex_val.simps)

lemma hex_val_0 [simp]: "hex_val (CHR ''0'') = Some 0"
  by (simp add: hex_val.simps byte_def)

lemma byte_less_256 [simp]: "byte c < 256"
  by (simp add: byte_def)

lemma char_of_byte [simp]: "char_of (byte c) = c"
  by (simp add: byte_def)

lemma byte_eq_iff: "byte c = byte d \<longleftrightarrow> c = d"
  by (metis char_of_byte)

lemma parse_chars_quoted:
  "parse_chars (concat (map quote_char s) @ CHR 0x22 # r) = Some (s, r)"
proof (induction s)
  case Nil
  show ?case by simp
next
  case (Cons c s)
  have q: "byte (CHR 0x22) = 34" "byte (CHR 0x5C) = 92" "byte (CHR ''u'') = 117"
    by (simp_all add: byte_def)
  consider (esc) "byte c = 34 \<or> byte c = 92" | (ctl) "byte c < 32"
    | (plain) "\<not> byte c < 32" "byte c \<noteq> 34" "byte c \<noteq> 92"
    by blast
  then show ?case
  proof cases
    case esc
    then have "c = CHR 0x22 \<or> c = CHR 0x5C"
      by (metis q(1,2) byte_eq_iff)
    with Cons show ?thesis
      by (auto simp: quote_char_def q escape_val.simps)
  next
    case ctl
    have "unicode_val (CHR ''0'') (CHR ''0'') (hex_digit (byte c div 16)) (hex_digit (byte c mod 16))
        = Some [c]"
      using ctl by (simp add: unicode_val.simps utf8_of_def)
    with Cons ctl show ?thesis
      by (simp add: quote_char_def)
  next
    case plain
    then have "c \<noteq> CHR 0x22" "c \<noteq> CHR 0x5C"
      using q by auto
    with Cons plain show ?thesis
      by (simp add: quote_char_def)
  qed
qed

lemma parse_chars_quote_str: "parse_chars (tl (quote_str s) @ r) = Some (s, r)"
  by (simp add: quote_str_def parse_chars_quoted)

lemma digit_chars: "map char_of [48::nat, 49, 50, 51, 52, 53, 54, 55, 56, 57] = ''0123456789''"
  by code_simp

lemma is_digit_num_chars: "is_digit c \<Longrightarrow> c \<in> set num_chars"
proof -
  assume "is_digit c"
  then have "48 \<le> byte c \<and> byte c \<le> 57" by (simp add: is_digit_def)
  then have "byte c \<in> set [48, 49, 50, 51, 52, 53, 54, 55, 56, 57]"
    by (simp, arith)
  then have "char_of (byte c) \<in> set (map char_of [48::nat, 49, 50, 51, 52, 53, 54, 55, 56, 57])"
    unfolding set_map by (rule imageI)
  then show ?thesis
    unfolding digit_chars by (auto simp: num_chars_def)
qed

lemma show_nat_digits: "show_nat n \<noteq> [] \<and> list_all is_digit (show_nat n)"
proof (induction n rule: show_nat.induct)
  case (1 n)
  have d: "is_digit (char_of (48 + k))" if "k < 10" for k :: nat
    using that by (simp add: is_digit_def byte_def)
  show ?case
    using 1 d by (subst show_nat.simps, subst (2) show_nat.simps) simp
qed

lemma digits_val_show_nat [simp]: "digits_val (show_nat n) = n"
proof (induction n rule: show_nat.induct)
  case (1 n)
  have d: "byte (char_of (48 + k)) = 48 + k" if "k < 10" for k :: nat
    using that by (simp add: byte_def)
  show ?case
    using 1 d by (subst show_nat.simps) (auto simp: digits_val_def)
qed

lemma parse_number_show_int: "parse_number (show_int i) = Some (JInt i)"
proof (cases "i < 0")
  case True
  have "\<not> is_digit (CHR ''-'')" by (simp add: is_digit_def byte_def)
  with True show_nat_digits [of "nat (- i)"] show ?thesis
    by (simp add: parse_number_def show_int_def)
next
  case False
  with show_nat_digits [of "nat i"] show ?thesis
    by (simp add: parse_number_def show_int_def)
qed

text \<open>Where a number ends: at the end of the text or at a character no number has.\<close>

definition number_ends :: "string \<Rightarrow> bool" where
  "number_ends r = (r = [] \<or> hd r \<notin> set num_chars)"

definition number_text :: "string \<Rightarrow> bool" where
  "number_text s = (s \<noteq> [] \<and> set s \<subseteq> set num_chars \<and> (hd s = CHR ''-'' \<or> is_digit (hd s)))"

lemma number_text_show_int: "number_text (show_int i)"
proof -
  have "set (show_nat k) \<subseteq> set num_chars" "is_digit (hd (show_nat k))" "show_nat k \<noteq> []" for k
    using show_nat_digits [of k] by (auto simp: list_all_iff is_digit_num_chars)
  moreover have "CHR ''-'' \<in> set num_chars" by (simp add: num_chars_def)
  ultimately show ?thesis by (simp add: number_text_def show_int_def)
qed

lemma number_text_real: "is_real_literal s \<Longrightarrow> number_text s"
  by (auto simp: number_text_def is_real_literal.simps num_chars_def is_digit_def byte_def)

lemma parse_number_real:
  assumes "is_real_literal s"
  shows "parse_number s = Some (JReal s)"
proof -
  from assms obtain c where c: "c \<in> set s" "c \<in> set ''.eE''"
    by (auto simp: is_real_literal.simps)
  then have "\<not> is_digit c" and "c \<noteq> CHR ''-''" by (auto simp: is_digit_def byte_def)
  with c have "\<not> list_all is_digit s" and "hd s = CHR ''-'' \<Longrightarrow> s \<noteq> [] \<Longrightarrow> \<not> list_all is_digit (tl s)"
    by (auto simp: list_all_iff neq_Nil_conv)
  with assms show ?thesis by (auto simp: parse_number_def)
qed

lemma parse_value_number:
  assumes "number_text s" "parse_number s = Some j" "number_ends r"
  shows "parse_value (Suc n) (s @ r) = Some (j, r)"
proof -
  from assms(1) obtain c t where s: "s = c # t" and c: "c = CHR ''-'' \<or> is_digit c"
    and sub: "set s \<subseteq> set num_chars"
    by (auto simp: number_text_def neq_Nil_conv)
  from c have b: "byte c = 45 \<or> 48 \<le> byte c \<and> byte c \<le> 57"
    by (auto simp: is_digit_def byte_def)
  then have "\<not> is_json_ws c" "c \<noteq> CHR ''[''" "c \<noteq> CHR 0x7B" "c \<noteq> CHR 0x22"
    "c \<noteq> CHR ''n''" "c \<noteq> CHR ''t''" "c \<noteq> CHR ''f''"
    by (auto simp: is_json_ws_def byte_def)
  moreover have "takeWhile (\<lambda>c. c \<in> set num_chars) (s @ r) = s"
    "dropWhile (\<lambda>c. c \<in> set num_chars) (s @ r) = r"
    using sub assms(3) by (cases r; auto simp: number_ends_def subset_iff)+
  ultimately show ?thesis
    using assms(2) by (simp add: s)
qed

text \<open>How a printed value starts, and what white space in front of it changes.\<close>

lemma dumps_start:
  assumes "wf_json j"
  obtains c t where "json_dumps j = c # t" "\<not> is_json_ws c" "c \<noteq> CHR '']''" "c \<noteq> CHR 0x7D"
proof -
  have num: "\<exists>c t. s = c # t \<and> \<not> is_json_ws c \<and> c \<noteq> CHR '']'' \<and> c \<noteq> CHR 0x7D" if "number_text s" for s
  proof -
    from that obtain c t where s: "s = c # t" and "c = CHR ''-'' \<or> is_digit c"
      by (auto simp: number_text_def neq_Nil_conv)
    then have "byte c = 45 \<or> 48 \<le> byte c \<and> byte c \<le> 57"
      by (auto simp: is_digit_def byte_def)
    then have "\<not> is_json_ws c" "c \<noteq> CHR '']''" "c \<noteq> CHR 0x7D"
      by (auto simp: is_json_ws_def byte_def)
    with s show ?thesis by blast
  qed
  have "\<exists>c t. json_dumps j = c # t \<and> \<not> is_json_ws c \<and> c \<noteq> CHR '']'' \<and> c \<noteq> CHR 0x7D"
    using assms num [OF number_text_show_int] num [OF number_text_real]
    by (cases j) (simp_all add: quote_str_def is_json_ws_def byte_def)
  then show thesis using that by blast
qed

lemma expect_simps [simp]:
  "\<not> is_json_ws d \<Longrightarrow> expect c (d # t) = (if d = c then Some t else None)"
  "is_json_ws d \<Longrightarrow> expect c (d # t) = expect c t"
  by (simp_all add: expect_def)

lemma json_ws_simps [simp]:
  "is_json_ws (CHR '' '')" "\<not> is_json_ws (CHR '','')" "\<not> is_json_ws (CHR '']'')"
  "\<not> is_json_ws (CHR 0x7D)" "\<not> is_json_ws (CHR '':'')" "\<not> is_json_ws (CHR 0x22)"
  by (simp_all add: is_json_ws_def byte_def)

lemma number_ends_simps [simp]:
  "number_ends (CHR '','' # r)" "number_ends (CHR '']'' # r)" "number_ends (CHR 0x7D # r)"
  "number_ends []"
  by (simp_all add: number_ends_def num_chars_def)

lemma parse_value_ws: "is_json_ws c \<Longrightarrow> parse_value n (c # s) = parse_value n s"
  by (cases n) simp_all

lemma parse_elems_ws: "is_json_ws c \<Longrightarrow> parse_elems n (c # s) = parse_elems n s"
  by (cases n) (simp_all add: parse_value_ws)

lemma parse_members_ws: "is_json_ws c \<Longrightarrow> parse_members n (c # s) = parse_members n s"
  by (cases n) simp_all

lemma dict_merge_Nil: "distinct (map fst m) \<Longrightarrow> dict_merge [] m = m"
proof -
  have new: "k \<notin> fst ` set d \<Longrightarrow> dict_set d k v = d @ [(k, v)]" for d :: "('a \<times> 'b) list" and k v
    by (induction d k v rule: dict_set.induct) auto
  have "distinct (map fst (d @ m)) \<Longrightarrow> dict_merge d m = d @ m" for d
    by (induction m arbitrary: d) (auto simp: dict_merge_def new)
  then show "distinct (map fst m) \<Longrightarrow> dict_merge [] m = m" by (metis append_Nil)
qed

lemma parse_dumps:
  shows "wf_json j \<Longrightarrow> number_ends r \<Longrightarrow> length (json_dumps j) < n
      \<Longrightarrow> parse_value n (json_dumps j @ r) = Some (j, r)"
    and "\<forall>x \<in> set xs. wf_json x \<Longrightarrow> xs \<noteq> [] \<Longrightarrow> length (dumps_elems xs) + 1 < n
      \<Longrightarrow> parse_elems n (dumps_elems xs @ CHR '']'' # r) = Some (xs, r)"
    and "\<forall>p \<in> set m. wf_json (snd p) \<Longrightarrow> m \<noteq> [] \<Longrightarrow> length (dumps_members m) + 1 < n
      \<Longrightarrow> parse_members n (dumps_members m @ CHR 0x7D # r) = Some (m, r)"
proof (induction j and xs and m arbitrary: n r and n r and n r
    rule: json_dumps_dumps_elems_dumps_members.induct)
  case 1
  then show ?case by (cases n) (simp_all add: is_json_ws_def byte_def)
next
  case (2 b)
  then show ?case by (cases n) (simp_all add: is_json_ws_def byte_def)
next
  case (3 i)
  then show ?case
    by (cases n) (simp_all add: parse_value_number number_text_show_int parse_number_show_int
        del: parse_value.simps)
next
  case (4 s)
  then show ?case
    by (cases n) (simp_all add: parse_value_number number_text_real parse_number_real
        del: parse_value.simps)
next
  case (5 s)
  then obtain k where n: "n = Suc k" by (cases n) auto
  show ?case
    using parse_chars_quote_str [of s r] by (simp add: n quote_str_def)
next
  case (6 xs)
  then obtain k where n: "n = Suc k" by (cases n) auto
  show ?case
  proof (cases xs)
    case Nil
    then show ?thesis by (simp add: n is_json_ws_def byte_def)
  next
    case (Cons x ys)
    with "6.prems" have "wf_json x" by simp
    then obtain c t where c: "json_dumps x = c # t" "\<not> is_json_ws c" "c \<noteq> CHR '']''"
      by (rule dumps_start)
    then have "\<exists>u. dumps_elems xs = c # u"
      using Cons by (cases ys) auto
    with c have "expect (CHR '']'') (dumps_elems xs @ CHR '']'' # r) = None"
      by auto
    moreover have "parse_elems k (dumps_elems xs @ CHR '']'' # r) = Some (xs, r)"
      using 6 Cons n by simp
    ultimately show ?thesis by (simp add: n is_json_ws_def byte_def)
  qed
next
  case (7 m)
  then obtain k where n: "n = Suc k" by (cases n) auto
  show ?case
  proof (cases m)
    case Nil
    then show ?thesis by (simp add: n is_json_ws_def byte_def dict_merge_def)
  next
    case (Cons p ys)
    then have "\<exists>u. dumps_members m = CHR 0x22 # u"
      by (cases p; cases ys) (auto simp: quote_str_def)
    then have "expect (CHR 0x7D) (dumps_members m @ CHR 0x7D # r) = None"
      by auto
    moreover have "parse_members k (dumps_members m @ CHR 0x7D # r) = Some (m, r)"
      using 7 Cons n by simp
    ultimately show ?thesis
      using "7.prems" by (simp add: n is_json_ws_def byte_def dict_merge_Nil)
  qed
next
  case 8
  then show ?case by simp
next
  case (9 x)
  then obtain k where n: "n = Suc k" by (cases n) auto
  with 9 show ?case by simp
next
  case (10 x y xs)
  then obtain k where n: "n = Suc k" by (cases n) auto
  have "parse_value k (json_dumps x @ CHR '','' # CHR '' '' # dumps_elems (y # xs) @ CHR '']'' # r)
      = Some (x, CHR '','' # CHR '' '' # dumps_elems (y # xs) @ CHR '']'' # r)"
    using "10.prems" n by (intro "10.IH"(1)) auto
  moreover have "parse_elems k (dumps_elems (y # xs) @ CHR '']'' # r) = Some (y # xs, r)"
    using "10.prems" n by (intro "10.IH"(2)) auto
  ultimately show ?case by (simp add: n parse_elems_ws)
next
  case 11
  then show ?case by simp
next
  case (12 k v)
  then obtain i where n: "n = Suc i" by (cases n) auto
  have "parse_value i (json_dumps v @ CHR 0x7D # r) = Some (v, CHR 0x7D # r)"
    using "12.prems" n by (intro "12.IH") auto
  then show ?case
    by (simp add: n quote_str_def parse_chars_quoted parse_value_ws)
next
  case (13 k v p m)
  then obtain i where n: "n = Suc i" by (cases n) auto
  let ?r = "CHR '','' # CHR '' '' # dumps_members (p # m) @ CHR 0x7D # r"
  have "parse_value i (json_dumps v @ ?r) = Some (v, ?r)"
    using "13.prems" n by (intro "13.IH"(1)) auto
  moreover have "parse_members i (dumps_members (p # m) @ CHR 0x7D # r) = Some (p # m, r)"
    using "13.prems" n by (intro "13.IH"(2)) auto
  ultimately show ?case
    by (simp add: n quote_str_def parse_chars_quoted parse_value_ws parse_members_ws)
qed

lemma json_loads_dumps: "wf_json j \<Longrightarrow> json_loads (json_dumps j) = Some j"
  using parse_dumps(1) [of j "[]" "Suc (length (json_dumps j))"]
  by (simp add: json_loads_def)

interpretation json_text: json_codec json_dumps json_loads
  by unfold_locales (rule json_loads_dumps)

end
