(* ===== verification/Models.thy ===== *)
theory Models
  imports Json
begin

text \<open>
  \<open>src/models/enums.py\<close> and the data of \<open>src/models/task.py\<close>: the two enumerations with their
  string values and the record of a task. The methods of \<open>Task\<close> mutate a shared object and are in
  theory \<open>Tasks\<close>. A \<open>datetime\<close> is the number of microseconds since the epoch, in UTC.
\<close>

section \<open>Enumerations\<close>

datatype task_mode = NEW | RESUME | SECONDARY | UNKNOWN

fun mode_value :: "task_mode \<Rightarrow> string" where
  "mode_value NEW = ''new''"
| "mode_value RESUME = ''resume''"
| "mode_value SECONDARY = ''secondary''"
| "mode_value UNKNOWN = ''unknown''"

datatype task_status = PENDING | RUNNING | SUCCESS | FAILED | INTERRUPTED

fun status_value :: "task_status \<Rightarrow> string" where
  "status_value PENDING = ''pending''"
| "status_value RUNNING = ''running''"
| "status_value SUCCESS = ''success''"
| "status_value FAILED = ''failed''"
| "status_value INTERRUPTED = ''interrupted''"

lemma all_task_mode: "(\<forall>m. P m) \<longleftrightarrow> P NEW \<and> P RESUME \<and> P SECONDARY \<and> P UNKNOWN"
  by (metis task_mode.exhaust)

lemma ex_task_mode: "(\<exists>m. P m) \<longleftrightarrow> P NEW \<or> P RESUME \<or> P SECONDARY \<or> P UNKNOWN"
  by (metis task_mode.exhaust)

lemma all_task_status:
  "(\<forall>s. P s) \<longleftrightarrow> P PENDING \<and> P RUNNING \<and> P SUCCESS \<and> P FAILED \<and> P INTERRUPTED"
  by (metis task_status.exhaust)

lemma ex_task_status:
  "(\<exists>s. P s) \<longleftrightarrow> P PENDING \<or> P RUNNING \<or> P SUCCESS \<or> P FAILED \<or> P INTERRUPTED"
  by (metis task_status.exhaust)

text \<open>The members in the order of the classes: what iterating over an \<open>Enum\<close> class yields.\<close>

instantiation task_mode :: enum
begin

definition enum_task_mode :: "task_mode list" where
  "enum_task_mode = [NEW, RESUME, SECONDARY, UNKNOWN]"

definition enum_all_task_mode :: "(task_mode \<Rightarrow> bool) \<Rightarrow> bool" where
  "enum_all_task_mode P = (P NEW \<and> P RESUME \<and> P SECONDARY \<and> P UNKNOWN)"

definition enum_ex_task_mode :: "(task_mode \<Rightarrow> bool) \<Rightarrow> bool" where
  "enum_ex_task_mode P = (P NEW \<or> P RESUME \<or> P SECONDARY \<or> P UNKNOWN)"

instance
proof
  show "(UNIV :: task_mode set) = set enum_class.enum"
    by (auto simp: enum_task_mode_def intro: task_mode.exhaust)
qed (auto simp: enum_task_mode_def enum_all_task_mode_def enum_ex_task_mode_def all_task_mode ex_task_mode)

end

instantiation task_status :: enum
begin

definition enum_task_status :: "task_status list" where
  "enum_task_status = [PENDING, RUNNING, SUCCESS, FAILED, INTERRUPTED]"

definition enum_all_task_status :: "(task_status \<Rightarrow> bool) \<Rightarrow> bool" where
  "enum_all_task_status P = (P PENDING \<and> P RUNNING \<and> P SUCCESS \<and> P FAILED \<and> P INTERRUPTED)"

definition enum_ex_task_status :: "(task_status \<Rightarrow> bool) \<Rightarrow> bool" where
  "enum_ex_task_status P = (P PENDING \<or> P RUNNING \<or> P SUCCESS \<or> P FAILED \<or> P INTERRUPTED)"

instance
proof
  show "(UNIV :: task_status set) = set enum_class.enum"
    by (auto simp: enum_task_status_def intro: task_status.exhaust)
qed (auto simp: enum_task_status_def enum_all_task_status_def enum_ex_task_status_def all_task_status
    ex_task_status)

end

text \<open>\<open>TaskMode(v)\<close> and \<open>TaskStatus(v)\<close>: the member with this value.\<close>

definition mode_of_value :: "string \<Rightarrow> task_mode option" where
  "mode_of_value v = find (\<lambda>m. mode_value m = v) enum_class.enum"

definition status_of_value :: "string \<Rightarrow> task_status option" where
  "status_of_value v = find (\<lambda>s. status_value s = v) enum_class.enum"

lemma mode_of_value_value [simp]: "mode_of_value (mode_value m) = Some m"
  by (cases m) (simp_all add: mode_of_value_def enum_task_mode_def)

lemma status_of_value_value [simp]: "status_of_value (status_value s) = Some s"
  by (cases s) (simp_all add: status_of_value_def enum_task_status_def)

lemma mode_value_inject [simp]: "mode_value m = mode_value n \<longleftrightarrow> m = n"
  by (metis mode_of_value_value option.inject)

lemma status_value_inject [simp]: "status_value s = status_value t \<longleftrightarrow> s = t"
  by (metis status_of_value_value option.inject)

section \<open>Tasks\<close>

record task =
  task_id :: string
  project_name :: string
  requirement :: string
  work_dir :: string
  config_json :: string
  mode :: task_mode
  status :: task_status
  created_at :: int
  updated_at :: int
  retry_count :: int
  status_detail :: string

text \<open>\<open>status in (SUCCESS, FAILED)\<close>, \<open>status == INTERRUPTED\<close> and the statuses that
  \<open>TaskStore.find_incomplete\<close> looks for.\<close>

definition is_terminal :: "task \<Rightarrow> bool" where
  "is_terminal t = (status t = SUCCESS \<or> status t = FAILED)"

definition is_resumable :: "task \<Rightarrow> bool" where
  "is_resumable t = (status t = INTERRUPTED)"

definition is_incomplete :: "task \<Rightarrow> bool" where
  "is_incomplete t = (status t = PENDING \<or> status t = RUNNING)"

lemma status_trichotomy:
  "is_terminal t \<and> \<not> is_incomplete t \<and> \<not> is_resumable t
   \<or> \<not> is_terminal t \<and> is_incomplete t \<and> \<not> is_resumable t
   \<or> \<not> is_terminal t \<and> \<not> is_incomplete t \<and> is_resumable t"
  by (cases "status t") (simp_all add: is_terminal_def is_incomplete_def is_resumable_def)

section \<open>Field validation and serialisation\<close>

text \<open>
  pydantic's validators of scalar fields are arguments: each says whether a JSON value is accepted
  for the type and as which value. \<open>of_datetime\<close> is how it prints a timestamp and \<open>type_msg\<close> its message
  for a value that is not of a type.
\<close>

record pydantic =
  as_str :: "json \<Rightarrow> string option"
  as_int :: "json \<Rightarrow> int option"
  as_bool :: "json \<Rightarrow> bool option"
  as_datetime :: "json \<Rightarrow> int option"
  of_datetime :: "int \<Rightarrow> json"
  type_msg :: "string \<Rightarrow> json \<Rightarrow> string"

text \<open>What pydantic documents for values that already have the field's type; a number is
  accepted for a string in no mode and a text with no number in it is no integer.\<close>

locale pydantic_scalars =
  fixes P :: pydantic
  assumes as_str_JStr: "as_str P (JStr s) = Some s"
    and as_str_type: "as_str P j = Some s \<Longrightarrow> j = JStr s"
    and as_int_JInt: "as_int P (JInt i) = Some i"
    and as_int_dict: "as_int P (JObj m) = None"
    and as_int_list: "as_int P (JArr xs) = None"
    and as_int_null: "as_int P JNull = None"
    and as_bool_JBool: "as_bool P (JBool b) = Some b"
    and as_bool_null: "as_bool P JNull = None"
    and as_datetime_of: "as_datetime P (of_datetime P d) = Some d"
    and wf_of_datetime: "wf_json (of_datetime P d)"

text \<open>\<open>Task.model_dump_json()\<close> before it becomes text: the fields in the order of the class.\<close>

definition task_to_json :: "pydantic \<Rightarrow> task \<Rightarrow> json" where
  "task_to_json P t = JObj
     [(''task_id'', JStr (task_id t)),
      (''project_name'', JStr (project_name t)),
      (''requirement'', JStr (requirement t)),
      (''work_dir'', JStr (work_dir t)),
      (''config_json'', JStr (config_json t)),
      (''mode'', JStr (mode_value (mode t))),
      (''status'', JStr (status_value (status t))),
      (''created_at'', of_datetime P (created_at t)),
      (''updated_at'', of_datetime P (updated_at t)),
      (''retry_count'', JInt (retry_count t)),
      (''status_detail'', JStr (status_detail t))]"

text \<open>
  One field of \<open>Task.model_validate_json\<close>: absent, its default (which may call a default factory);
  present, what its validator makes of it, or a \<open>ValidationError\<close>.
\<close>

definition model_field ::
  "(string \<times> json) list \<Rightarrow> string \<Rightarrow> (json \<Rightarrow> 'a option) \<Rightarrow> ('w, 'a) py \<Rightarrow> ('w, 'a) py" where
  "model_field m k conv dflt =
     (case map_of m k of
        None \<Rightarrow> dflt
      | Some j \<Rightarrow> (case conv j of None \<Rightarrow> py_raise (ValidationError k) | Some x \<Rightarrow> py_return x))"

text \<open>The members of an enumeration by value.\<close>

definition as_mode :: "json \<Rightarrow> task_mode option" where
  "as_mode j = (case j of JStr v \<Rightarrow> mode_of_value v | _ \<Rightarrow> None)"

definition as_status :: "json \<Rightarrow> task_status option" where
  "as_status j = (case j of JStr v \<Rightarrow> status_of_value v | _ \<Rightarrow> None)"

text \<open>
  The fields of \<open>Task\<close> with their defaults. Default factories run for absent fields only;
  \<open>project_name\<close> has no default. Keys that are no fields are ignored.
\<close>

definition task_of_json ::
  "pydantic \<Rightarrow> ('w, string) py \<Rightarrow> ('w, int) py \<Rightarrow> json \<Rightarrow> ('w, task) py" where
  "task_of_json P new_id now j =
     (case j of
        JObj m \<Rightarrow>
          py_bind (model_field m ''task_id'' (as_str P) new_id) (\<lambda>i.
          py_bind (model_field m ''project_name'' (as_str P)
                     (py_raise (ValidationError ''project_name''))) (\<lambda>p.
          py_bind (model_field m ''requirement'' (as_str P) (py_return [])) (\<lambda>r.
          py_bind (model_field m ''work_dir'' (as_str P) (py_return [])) (\<lambda>wd.
          py_bind (model_field m ''config_json'' (as_str P) (py_return [])) (\<lambda>cj.
          py_bind (model_field m ''mode'' as_mode (py_return UNKNOWN)) (\<lambda>md.
          py_bind (model_field m ''status'' as_status (py_return PENDING)) (\<lambda>st.
          py_bind (model_field m ''created_at'' (as_datetime P) now) (\<lambda>c.
          py_bind (model_field m ''updated_at'' (as_datetime P) now) (\<lambda>u.
          py_bind (model_field m ''retry_count'' (as_int P) (py_return 0)) (\<lambda>rc.
          py_bind (model_field m ''status_detail'' (as_str P) (py_return [])) (\<lambda>d.
          py_return
            \<lparr>task_id = i, project_name = p, requirement = r, work_dir = wd, config_json = cj,
             mode = md, status = st, created_at = c, updated_at = u, retry_count = rc,
             status_detail = d\<rparr>)))))))))))
      | _ \<Rightarrow> py_raise (ValidationError ''Task''))"

lemma wf_task_to_json: "pydantic_scalars P \<Longrightarrow> wf_json (task_to_json P t)"
  by (simp add: task_to_json_def pydantic_scalars.wf_of_datetime)

context pydantic_scalars begin

lemma task_of_json_to_json: "task_of_json P new_id now (task_to_json P t) = py_return t"
  by (cases t) (simp add: task_of_json_def task_to_json_def model_field_def as_str_JStr as_int_JInt
      as_datetime_of as_mode_def as_status_def)

end

text \<open>A set of validators for the examples: exact types, timestamps as integers.\<close>

definition strict_pydantic :: pydantic where
  "strict_pydantic =
     \<lparr>as_str = (\<lambda>j. case j of JStr s \<Rightarrow> Some s | _ \<Rightarrow> None),
      as_int = (\<lambda>j. case j of JInt i \<Rightarrow> Some i | _ \<Rightarrow> None),
      as_bool = (\<lambda>j. case j of JBool b \<Rightarrow> Some b | _ \<Rightarrow> None),
      as_datetime = (\<lambda>j. case j of JInt i \<Rightarrow> Some i | _ \<Rightarrow> None),
      of_datetime = JInt,
      type_msg = (\<lambda>ty j. ''Input should be a valid '' @ ty)\<rparr>"

interpretation strict: pydantic_scalars strict_pydantic
  by unfold_locales (auto simp: strict_pydantic_def split: json.splits)

end
