(* ===== verification/Cio.thy ===== *)
theory Cio
  imports Json
begin

text \<open>
  The CIO-Agent package as the source sees it. It is third-party, so its classes appear as what the
  source calls on them: the constructors and methods are fields of a record of arguments, and an
  object is what its methods answer. Nothing is assumed about them.
\<close>

section \<open>Events\<close>

text \<open>
  An attribute of an event as \<open>getattr\<close> finds it: missing, a JSON-serialisable value, or a truthy
  object \<open>json.dumps\<close> refuses. The event type is missing, \<open>None\<close>, an enum member with a string \<open>value\<close>,
  or another object, known by its \<open>str()\<close>.
\<close>

datatype attr = Missing | Attr json | Opaque

datatype type_attr = NoType | TypeNone | TypeValue string | TypeStr string

record cio_event =
  ev_type :: type_attr
  ev_message :: attr
  ev_metadata :: attr
  ev_timestamp :: attr

section \<open>Engines and what the scheduler inspects\<close>

text \<open>A stream of events: what iterating over it yields, and the exception it ends with, if any.\<close>

type_synonym iterator = "cio_event list \<times> exn option"

text \<open>\<open>WorkflowEngine\<close>: each call may raise at once or return an iterator.\<close>

record engine =
  run_stream :: "string \<Rightarrow> string \<Rightarrow> exn + iterator"
  resume_stream :: "string \<Rightarrow> string \<Rightarrow> exn + iterator"
  run_secondary_stream :: "string \<Rightarrow> string \<Rightarrow> exn + iterator"

record project_store =
  project_exists :: "string \<Rightarrow> exn + bool"

record state_tracker =
  set_project_name :: "string \<Rightarrow> exn + unit"
  checkpoint_exists :: "string \<Rightarrow> exn + bool"

record scheduler =
  sch_work_dir :: string
  sch_project_store :: project_store
  sch_state_tracker :: state_tracker

section \<open>Loggers\<close>

text \<open>
  A logger object as far as its \<open>correlation_id\<close> goes: the attribute, and whether a plain and a raw
  (\<open>object.__setattr__\<close>) assignment to it succeed. \<open>CIOLogger\<close> has attributes of its own; each is a
  \<open>logging.Logger\<close> or something else.
\<close>

record logger =
  correlation_id :: "string option"
  sets_attr :: bool
  sets_raw :: bool

record cio_logger =
  wrapper :: logger
  inner :: "(string \<times> (bool \<times> logger)) list"

section \<open>The package\<close>

text \<open>A \<open>CIOConfig\<close> object is known by its attributes.\<close>

type_synonym cio_config = "(string \<times> json) list"

record cio_api =
  from_dict :: "(string \<times> json) list \<Rightarrow> exn + cio_config"
  from_yaml :: "string \<Rightarrow> exn + cio_config"
  to_dict :: "cio_config \<Rightarrow> (string \<times> json) list"
  validate_config :: "cio_config \<Rightarrow> exn + unit"
  cfg_work_dir :: "cio_config \<Rightarrow> string"
  cfg_api_key :: "cio_config \<Rightarrow> string"
  make_logger :: "string \<Rightarrow> exn + cio_logger"
  make_project_store :: "string \<Rightarrow> exn + project_store"
  make_project_namer :: "string \<Rightarrow> exn + unit"
  make_engine :: "cio_config \<Rightarrow> cio_logger \<Rightarrow> project_store \<Rightarrow> exn + engine"
  make_state_tracker :: "string \<Rightarrow> cio_logger \<Rightarrow> exn + state_tracker"

end
