(* ===== verification/Runtime.thy ===== *)
theory Runtime
  imports Redis Models Cio
begin

text \<open>
  What the program runs in: the settings, the third-party services it calls (one record of
  arguments, \<open>env\<close>), and the state its coroutines share (\<open>world\<close>): the Redis server, the shared
  client, the \<open>Task\<close> objects on the heap, the coroutines handed to the event loop and not run yet,
  the in-process store of Phase 1, the cache of engines, and how many times the clock and the id generator were read.
  The locale \<open>deployment\<close> names what the third-party code is relied on for.
\<close>

section \<open>Settings\<close>

text \<open>The fields of \<open>Settings\<close>, in the order of \<open>src/config.py\<close>. The type of its floats is a parameter: theory
  \<open>Config\<close> reads them from the environment, where they may be infinite; the rest of the model works
  with finite ones.\<close>

record 'f settings_of =
  cio_api_key :: string
  cio_model :: string
  cio_llm_url :: string
  cio_work_dir :: string
  cio_config_path :: string
  worker_concurrency :: int
  worker_poll_interval :: 'f
  max_retries :: int
  api_host :: string
  api_port :: int
  redis_url :: string
  lock_ttl :: int
  lock_heartbeat_interval :: 'f
  stream_timeout :: 'f
  sse_keepalive_interval :: 'f
  sse_max_duration :: 'f

type_synonym settings = "rat settings_of"

section \<open>Services and state\<close>

text \<open>\<open>dumps\<close> prints for pydantic's \<open>model_dump_json\<close> and \<open>py_dumps\<close> for \<open>json.dumps\<close>; \<open>int_of_float\<close> is
  \<open>int(x)\<close> of the double a literal stands for. \<open>uuid_at n\<close> and \<open>time_at n\<close> are what \<open>uuid4().hex\<close> and \<open>datetime.now(timezone.utc)\<close> return
  when they are the \<open>n\<close>-th reading of the outside world.\<close>

record 'r env =
  redis :: "'r redis"
  dumps :: "json \<Rightarrow> string"
  py_dumps :: "json \<Rightarrow> string"
  loads :: "string \<Rightarrow> json option"
  pyd :: pydantic
  int_of_float :: "string \<Rightarrow> exn + int"
  sha256 :: "string \<Rightarrow> string"
  uuid_at :: "nat \<Rightarrow> string"
  time_at :: "nat \<Rightarrow> int"
  cio :: cio_api
  settings :: settings

text \<open>A \<open>Task\<close> object is known by its address.\<close>

type_synonym obj = nat

datatype coro = AsyncUpdate obj | PublishEvent string cio_event

record 'r world =
  svc :: 'r
  client_ready :: bool
  heap :: "obj \<Rightarrow> task"
  next_obj :: obj
  pending :: "coro list"
  mem_tasks :: "(string \<times> obj) list"
  mem_queue :: "obj list"
  engine_cache :: "((string \<times> string) \<times> (engine \<times> scheduler)) list"
  ticks :: nat

type_synonym ('r, 'a) prog = "('r world, 'a) py"

definition on_redis :: "('r, 'a) py \<Rightarrow> ('r, 'a) prog" where
  "on_redis m w = (fst (m (svc w)), w\<lparr>svc := snd (m (svc w))\<rparr>)"

definition now :: "'r env \<Rightarrow> ('r, int) prog" where
  "now E w = (Inr (time_at E (ticks w)), w\<lparr>ticks := Suc (ticks w)\<rparr>)"

definition new_uuid :: "'r env \<Rightarrow> ('r, string) prog" where
  "new_uuid E w = (Inr (uuid_at E (ticks w)), w\<lparr>ticks := Suc (ticks w)\<rparr>)"

text \<open>A new object, an object's fields, and an assignment to fields of an object.\<close>

definition alloc :: "task \<Rightarrow> ('r, obj) prog" where
  "alloc t w = (Inr (next_obj w), w\<lparr>heap := (heap w)(next_obj w := t), next_obj := Suc (next_obj w)\<rparr>)"

definition load :: "obj \<Rightarrow> ('r, task) prog" where
  "load x w = (Inr (heap w x), w)"

definition assign :: "obj \<Rightarrow> (task \<Rightarrow> task) \<Rightarrow> ('r, unit) prog" where
  "assign x f w = (Inr (), w\<lparr>heap := (heap w)(x := f (heap w x))\<rparr>)"

lemmas runtime_defs = on_redis_def now_def new_uuid_def alloc_def load_def assign_def

declare runtime_defs [py_simps]

section \<open>The shared Redis client (\<open>src/redis_client.py\<close>)\<close>

definition not_initialised :: exn where
  "not_initialised =
     RuntimeError ''Redis client is not initialised. Call `await init_redis(url)` first.''"

text \<open>\<open>init_redis\<close> stores the client and pings the server: \<open>ping\<close> is how the server answers.\<close>

definition init_redis :: "(exn + unit) \<Rightarrow> ('r, unit) prog" where
  "init_redis ping = py_then (py_put (\<lambda>w. w\<lparr>client_ready := True\<rparr>)) (py_of_sum ping)"

definition close_redis :: "('r, unit) prog" where
  "close_redis =
     py_bind (py_get client_ready) (\<lambda>c.
       if c then py_put (\<lambda>w. w\<lparr>client_ready := False\<rparr>) else py_return ())"

definition get_redis :: "('r, unit) prog" where
  "get_redis w = (if client_ready w then Inr () else Inl not_initialised, w)"

declare get_redis_def [py_simps]

text \<open>A block that touches nothing but the server.\<close>

definition redis_only :: "('r, 'a) prog \<Rightarrow> bool" where
  "redis_only m = (\<forall>w. \<exists>r. snd (m w) = w\<lparr>svc := r\<rparr>)"

lemma redis_only_frame:
  assumes "redis_only m"
  shows "client_ready (snd (m w)) = client_ready w" "heap (snd (m w)) = heap w"
    "next_obj (snd (m w)) = next_obj w" "pending (snd (m w)) = pending w"
    "mem_tasks (snd (m w)) = mem_tasks w" "mem_queue (snd (m w)) = mem_queue w"
    "ticks (snd (m w)) = ticks w" "engine_cache (snd (m w)) = engine_cache w"
proof -
  from assms obtain r where "snd (m w) = w\<lparr>svc := r\<rparr>" by (auto simp: redis_only_def)
  then show "client_ready (snd (m w)) = client_ready w" "heap (snd (m w)) = heap w"
    "next_obj (snd (m w)) = next_obj w" "pending (snd (m w)) = pending w"
    "mem_tasks (snd (m w)) = mem_tasks w" "mem_queue (snd (m w)) = mem_queue w"
    "ticks (snd (m w)) = ticks w" "engine_cache (snd (m w)) = engine_cache w"
    by simp_all
qed

named_theorems redis_only_intros \<open>blocks that touch nothing but the server\<close>

lemma world_svc_same [simp]: "\<exists>r. w = w\<lparr>svc := r\<rparr>"
  by (rule exI [of _ "svc w"]) simp

lemma redis_only_basic [redis_only_intros]:
  "redis_only (on_redis f)" "redis_only get_redis" "redis_only (load x)" "redis_only (py_return y)"
  "redis_only (py_raise e)" "redis_only (py_get g)"
  by (auto simp: redis_only_def py_simps)

lemma redis_only_bind [redis_only_intros]:
  assumes "redis_only m" "\<And>x. redis_only (f x)"
  shows "redis_only (py_bind m f)"
  unfolding redis_only_def
proof
  fix w
  obtain r where r: "snd (m w) = w\<lparr>svc := r\<rparr>" using assms(1) by (auto simp: redis_only_def)
  show "\<exists>r'. snd (py_bind m f w) = w\<lparr>svc := r'\<rparr>"
  proof (cases "fst (m w)")
    case (Inl e)
    with r show ?thesis by (auto simp: py_bind_def)
  next
    case (Inr x)
    obtain r' where "snd (f x (snd (m w))) = (snd (m w))\<lparr>svc := r'\<rparr>"
      using assms(2) by (auto simp: redis_only_def)
    with r Inr show ?thesis by (auto simp: py_bind_def)
  qed
qed

lemma redis_only_then [redis_only_intros]:
  "redis_only m \<Longrightarrow> redis_only k \<Longrightarrow> redis_only (py_then m k)"
  by (simp add: py_then_def redis_only_bind)

lemma redis_only_if [redis_only_intros]:
  "(b \<Longrightarrow> redis_only m) \<Longrightarrow> (\<not> b \<Longrightarrow> redis_only k) \<Longrightarrow> redis_only (if b then m else k)"
  by simp

text \<open>A read: new objects at most, and nothing else changed.\<close>

definition extends :: "('r \<Rightarrow> keyspace) \<Rightarrow> 'r world \<Rightarrow> 'r world \<Rightarrow> bool" where
  "extends view w w' =
     (view (svc w') = view (svc w) \<and> client_ready w' = client_ready w \<and> pending w' = pending w
      \<and> mem_tasks w' = mem_tasks w \<and> mem_queue w' = mem_queue w \<and> ticks w' = ticks w
      \<and> engine_cache w' = engine_cache w
      \<and> next_obj w \<le> next_obj w' \<and> (\<forall>x < next_obj w. heap w' x = heap w x))"

lemma extends_refl [simp]: "extends view w w"
  by (simp add: extends_def)

lemma extends_trans [trans]: "extends view u v \<Longrightarrow> extends view v w \<Longrightarrow> extends view u w"
  by (simp add: extends_def)

lemma extendsD:
  assumes "extends view w w'"
  shows "view (svc w') = view (svc w)" "client_ready w' = client_ready w" "ticks w' = ticks w"
    "pending w' = pending w" "x < next_obj w \<Longrightarrow> heap w' x = heap w x" "next_obj w \<le> next_obj w'"
  using assms by (simp_all add: extends_def)

lemma redis_only_extends:
  "redis_only m \<Longrightarrow> view (svc (snd (m w))) = view (svc w) \<Longrightarrow> extends view w (snd (m w))"
  by (simp add: extends_def redis_only_frame)

section \<open>What the third-party code is relied on for\<close>

definition hex_chars :: string where
  "hex_chars = ''0123456789abcdef''"

definition hex32 :: "string \<Rightarrow> bool" where
  "hex32 s = (length s = 32 \<and> set s \<subseteq> set hex_chars)"

locale deployment =
  redis_service "redis E" view + json_codec "dumps E" "loads E" + pydantic_scalars "pyd E" +
  json_text: json_codec "py_dumps E" "loads E"
  for E :: "'r env" and view :: "'r \<Rightarrow> keyspace" +
  assumes uuid_hex: "hex32 (uuid_at E n)"
    and done_no_json: "loads E ''__DONE__'' = None"

section \<open>A deployment for the examples\<close>

fun hex_of :: "nat \<Rightarrow> nat \<Rightarrow> string" where
  "hex_of 0 n = []"
| "hex_of (Suc k) n = hex_of k (n div 16) @ [hex_chars ! (n mod 16)]"

lemma hex_of_chars: "length (hex_of k n) = k \<and> set (hex_of k n) \<subseteq> set hex_chars"
proof (induction k arbitrary: n)
  case (Suc k)
  have "length hex_chars = 16" by (simp add: hex_chars_def)
  then have "hex_chars ! (n mod 16) \<in> set hex_chars" by simp
  with Suc show ?case by auto
qed simp

lemma hex32_hex_of: "hex32 (hex_of 32 n)"
  using hex_of_chars by (simp add: hex32_def)

definition example_settings :: settings where
  "example_settings =
     \<lparr>cio_api_key = ''key'', cio_model = ''GPT-4.1'', cio_llm_url = ''https://api.poe.com'',
      cio_work_dir = ''./workspace/solutions'', cio_config_path = [], worker_concurrency = 4,
      worker_poll_interval = 1 / 2, max_retries = 3, api_host = ''0.0.0.0'', api_port = 1577,
      redis_url = ''redis://localhost:6379/0'', lock_ttl = 3600, lock_heartbeat_interval = 1200,
      stream_timeout = 0, sse_keepalive_interval = 20, sse_max_duration = 0\<rparr>"

text \<open>The hash of the examples spells its argument in hexadecimal: injective, so the examples can also use it where a theorem asks for that.\<close>

definition spell :: "string \<Rightarrow> string" where
  "spell s = concat (map (\<lambda>c. [hex_digit (byte c div 16), hex_digit (byte c mod 16)]) s)"

text \<open>A CIO-Agent that knows no project and whose engines yield nothing.\<close>

definition idle_cio :: cio_api where
  "idle_cio =
     \<lparr>from_dict = (\<lambda>d. Inr d), from_yaml = (\<lambda>_. Inr []), to_dict = (\<lambda>c. c),
      validate_config = (\<lambda>_. Inr ()),
      cfg_work_dir = (\<lambda>c. case map_of c ''work_dir'' of Some (JStr s) \<Rightarrow> s | _ \<Rightarrow> []),
      cfg_api_key = (\<lambda>c. case map_of c ''api_key'' of Some (JStr s) \<Rightarrow> s | _ \<Rightarrow> []),
      make_logger = (\<lambda>_. Inr \<lparr>wrapper = \<lparr>correlation_id = None, sets_attr = True, sets_raw = True\<rparr>,
                               inner = []\<rparr>),
      make_project_store = (\<lambda>_. Inr \<lparr>project_exists = (\<lambda>_. Inr False)\<rparr>),
      make_project_namer = (\<lambda>_. Inr ()),
      make_engine = (\<lambda>_ _ _. Inr \<lparr>run_stream = (\<lambda>_ _. Inr ([], None)),
                                 resume_stream = (\<lambda>_ _. Inr ([], None)),
                                 run_secondary_stream = (\<lambda>_ _. Inr ([], None))\<rparr>),
      make_state_tracker = (\<lambda>_ _. Inr \<lparr>set_project_name = (\<lambda>_. Inr ()),
                                       checkpoint_exists = (\<lambda>_. Inr False)\<rparr>)\<rparr>"

definition mem_env :: "mem env" where
  "mem_env =
     \<lparr>redis = mem_redis, dumps = json_dumps, py_dumps = json_dumps, loads = json_loads,
      pyd = strict_pydantic, int_of_float = (\<lambda>_. Inl (ValueError ''float'')),
      sha256 = spell, uuid_at = hex_of 32, time_at = int, cio = idle_cio,
      settings = example_settings\<rparr>"

interpretation memory: deployment mem_env mem_view
proof -
  have "redis_service (redis mem_env) mem_view"
    using mem.redis_service_axioms by (simp add: mem_env_def)
  moreover have "json_codec (dumps mem_env) (loads mem_env)"
    using json_text.json_codec_axioms by (simp add: mem_env_def)
  moreover have "json_codec (py_dumps mem_env) (loads mem_env)"
    using json_text.json_codec_axioms by (simp add: mem_env_def)
  moreover have "pydantic_scalars (pyd mem_env)"
    using strict.pydantic_scalars_axioms by (simp add: mem_env_def)
  moreover have "json_loads ''__DONE__'' = None"
    by code_simp
  then have "deployment_axioms mem_env"
    by (simp add: deployment_axioms_def mem_env_def hex32_hex_of)
  ultimately show "deployment mem_env mem_view"
    by (simp add: deployment_def)
qed

lemma hex_digit_inject: "i < 16 \<Longrightarrow> j < 16 \<Longrightarrow> hex_digit i = hex_digit j \<longleftrightarrow> i = j"
  by (metis hex_val_hex_digit option.inject)

lemma spell_inject: "spell s = spell t \<longleftrightarrow> s = t"
proof
  show "spell s = spell t \<Longrightarrow> s = t"
  proof (induction s arbitrary: t)
    case Nil
    then show ?case by (cases t) (simp_all add: spell_def)
  next
    case (Cons c s)
    then obtain d t' where t: "t = d # t'" by (cases t) (simp_all add: spell_def)
    have lt: "byte x div 16 < 16" "byte x mod 16 < 16" for x
      using byte_less_256 [of x] less_mult_imp_div_less [of "byte x" 16 16] by simp_all
    from Cons.prems t lt have "byte c div 16 = byte d div 16" "byte c mod 16 = byte d mod 16"
      and "spell s = spell t'"
      by (simp_all add: spell_def hex_digit_inject)
    then have "byte c = byte d" and "s = t'"
      by (metis div_mult_mod_eq, blast intro: Cons.IH)
    with t show ?case by (simp add: byte_eq_iff)
  qed
qed simp

text \<open>An empty server with a connected client, and one object on the heap at every address.\<close>

definition no_task :: task where
  "no_task =
     \<lparr>task_id = hex_of 32 0, project_name = ''demo'', requirement = ''build'', work_dir = [],
      config_json = [], mode = UNKNOWN, status = PENDING, created_at = 0, updated_at = 0,
      retry_count = 0, status_detail = []\<rparr>"

definition start_world :: "mem world" where
  "start_world =
     \<lparr>svc = \<lparr>mem_keys = [], mem_ttl = [], mem_pub = []\<rparr>, client_ready = True,
      heap = (\<lambda>_. no_task), next_obj = 1, pending = [], mem_tasks = [], mem_queue = [],
      engine_cache = [], ticks = 0\<rparr>"

lemma start_world_simps [simp]:
  "client_ready start_world" "heap start_world x = no_task" "pending start_world = []"
  "mem_tasks start_world = []" "mem_queue start_world = []" "ticks start_world = 0"
  "engine_cache start_world = []" "next_obj start_world = 1"
  "ks_keys (mem_view (svc start_world)) k = None"
  by (simp_all add: start_world_def mem_view_def)

lemma no_task_simps [simp]:
  "hex32 (task_id no_task)" "status no_task = PENDING" "project_name no_task = ''demo''"
  "requirement no_task = ''build''" "work_dir no_task = []" "config_json no_task = []"
  "retry_count no_task = 0"
  by (simp_all add: no_task_def hex32_hex_of)

lemma mem_env_simps [simp]:
  "settings mem_env = example_settings" "cio mem_env = idle_cio" "loads mem_env = json_loads"
  "py_dumps mem_env = json_dumps" "pyd mem_env = strict_pydantic" "sha256 mem_env = spell"
  "uuid_at mem_env = hex_of 32" "time_at mem_env = int" "lock_ttl example_settings = 3600"
  "stream_timeout example_settings = 0"
  by (simp_all add: mem_env_def example_settings_def)

end
