(* ===== verification/Locks.thy ===== *)
theory Locks
  imports Runtime
begin

text \<open>
  The distributed lock of a project (\<open>src/worker_locks.py\<close>). The Lua scripts run atomically in the
  server, so each is a program over the server state that \<open>eval\<close> runs in one step.
\<close>

section \<open>Operations\<close>

definition lock_key :: "string \<Rightarrow> string" where
  "lock_key p = ''cio:lock:'' @ p"

definition acquire_lock :: "'r env \<Rightarrow> string \<Rightarrow> string \<Rightarrow> int \<Rightarrow> ('r, bool) prog" where
  "acquire_lock E p token ttl =
     py_then get_redis (on_redis (r_set (redis E) (lock_key p) token True (Some ttl)))"

definition release_script :: "'r redis \<Rightarrow> string \<Rightarrow> string \<Rightarrow> ('r, nat) py" where
  "release_script R k token =
     py_bind (r_get R k) (\<lambda>v. if v = Some token then r_delete R k else py_return 0)"

definition release_lock :: "'r env \<Rightarrow> string \<Rightarrow> string \<Rightarrow> ('r, unit) prog" where
  "release_lock E p token =
     py_then get_redis
       (py_then (on_redis (release_script (redis E) (lock_key p) token)) (py_return ()))"

definition refresh_script :: "'r redis \<Rightarrow> string \<Rightarrow> string \<Rightarrow> int \<Rightarrow> ('r, nat) py" where
  "refresh_script R k token ttl =
     py_bind (r_get R k) (\<lambda>v. if v = Some token then r_expire R k ttl else py_return 0)"

definition refresh_lock :: "'r env \<Rightarrow> string \<Rightarrow> string \<Rightarrow> int \<Rightarrow> ('r, bool) prog" where
  "refresh_lock E p token ttl =
     py_then get_redis
       (py_bind (on_redis (refresh_script (redis E) (lock_key p) token ttl))
          (\<lambda>result. py_return (result \<noteq> 0)))"

lemmas lock_defs = acquire_lock_def release_script_def release_lock_def refresh_script_def
  refresh_lock_def

section \<open>One call\<close>

text \<open>The token in the lock of a project, if it is held.\<close>

definition lock_of :: "keyspace \<Rightarrow> string \<Rightarrow> string option" where
  "lock_of K p = (case ks_keys K (lock_key p) of Some (RStr tok) \<Rightarrow> Some tok | _ \<Rightarrow> None)"

text \<open>Lock keys hold strings, the only thing this module writes to them.\<close>

definition locks_wf :: "keyspace \<Rightarrow> bool" where
  "locks_wf K = (\<forall>p v. ks_keys K (lock_key p) = Some v \<longrightarrow> (\<exists>tok. v = RStr tok))"

lemma lock_key_inject [simp]: "lock_key p = lock_key q \<longleftrightarrow> p = q"
  by (simp add: lock_key_def)

lemma locks_wf_cases:
  assumes "locks_wf K"
  obtains (free) "ks_keys K (lock_key p) = None" "lock_of K p = None"
  | (held) tok where "ks_keys K (lock_key p) = Some (RStr tok)" "lock_of K p = Some tok"
proof (cases "ks_keys K (lock_key p)")
  case None
  then show thesis by (intro free) (simp_all add: lock_of_def)
next
  case (Some v)
  with assms obtain tok where "v = RStr tok" by (auto simp: locks_wf_def)
  with Some show thesis by (intro held) (simp_all add: lock_of_def)
qed

context deployment
begin

text \<open>\<open>SET NX EX\<close> takes a free lock and leaves a held one alone.\<close>

lemma acquire_lock_result:
  assumes "client_ready w" "0 < ttl" "locks_wf (view (svc w))"
  shows "fst (acquire_lock E p tok ttl w) = Inr (lock_of (view (svc w)) p = None)"
    and "lock_of (view (svc (snd (acquire_lock E p tok ttl w)))) q =
      (if q = p \<and> lock_of (view (svc w)) p = None then Some tok else lock_of (view (svc w)) q)"
    and "locks_wf (view (svc (snd (acquire_lock E p tok ttl w))))"
  using assms
  by (cases rule: locks_wf_cases [OF assms(3), of p];
      auto simp: lock_defs py_simps cmd_set_def lock_of_def locks_wf_def)+

lemma release_lock_result:
  assumes "client_ready w" "locks_wf (view (svc w))"
  shows "fst (release_lock E p tok w) = Inr ()"
    and "lock_of (view (svc (snd (release_lock E p tok w)))) q =
      (if q = p \<and> lock_of (view (svc w)) p = Some tok then None else lock_of (view (svc w)) q)"
    and "locks_wf (view (svc (snd (release_lock E p tok w))))"
  using assms
  by (cases rule: locks_wf_cases [OF assms(2), of p];
      auto simp: lock_defs py_simps cmd_get_def cmd_delete_def ks_remove_def lock_of_def
        locks_wf_def)+

lemma refresh_lock_result:
  assumes "client_ready w" "0 < ttl" "locks_wf (view (svc w))"
  shows "fst (refresh_lock E p tok ttl w) = Inr (lock_of (view (svc w)) p = Some tok)"
    and "lock_of (view (svc (snd (refresh_lock E p tok ttl w)))) q = lock_of (view (svc w)) q"
    and "ks_ttl (view (svc (snd (refresh_lock E p tok ttl w)))) (lock_key p) =
      (if lock_of (view (svc w)) p = Some tok then Some ttl
       else ks_ttl (view (svc w)) (lock_key p))"
    and "locks_wf (view (svc (snd (refresh_lock E p tok ttl w))))"
  using assms
  by (cases rule: locks_wf_cases [OF assms(3), of p];
      auto simp: lock_defs py_simps cmd_get_def cmd_expire_def lock_of_def locks_wf_def)+

end

end
