(* ===== verification/Lock_Protocol.thy ===== *)
theory Lock_Protocol
  imports Locks
begin

text \<open>
  Any number of executions (calls of \<open>Worker._execute\<close>, each with a token of its own) take, refresh
  and release project locks while time passes. An execution that acquired a lock works under a
  lease: the lock's time to live, counted from its last refresh. The steps are the operations of
  theory \<open>Locks\<close> in any order. While leases are live the lock excludes: no two executions with live
  leases are on one project, and no release takes a lock from another. Nothing in the protocol stops
  an execution whose lease ran out.
\<close>

section \<open>Steps\<close>

record 'r lock_sys =
  lk_world :: "'r world"
  lk_at :: "nat \<Rightarrow> string option"
  lk_lease :: "nat \<Rightarrow> int"

definition pass_time :: "'r env \<Rightarrow> nat \<Rightarrow> 'r world \<Rightarrow> 'r world" where
  "pass_time E n w = w\<lparr>svc := r_elapse (redis E) n (svc w)\<rparr>"

abbreviation ttl_of :: "'r env \<Rightarrow> int" where
  "ttl_of E \<equiv> lock_ttl (settings E)"

text \<open>\<open>tok c\<close> is the token execution \<open>c\<close> drew before \<open>_acquire_lock\<close>.\<close>

inductive lock_step :: "'r env \<Rightarrow> (nat \<Rightarrow> string) \<Rightarrow> 'r lock_sys \<Rightarrow> 'r lock_sys \<Rightarrow> bool"
  for E :: "'r env" and tok :: "nat \<Rightarrow> string" where
  acquire: "lk_at s c = None \<Longrightarrow>
     acquire_lock E p (tok c) (ttl_of E) (lk_world s) = (Inr True, w) \<Longrightarrow>
     lock_step E tok s
       (s\<lparr>lk_world := w, lk_at := (lk_at s)(c \<mapsto> p), lk_lease := (lk_lease s)(c := ttl_of E)\<rparr>)"
| busy: "lk_at s c = None \<Longrightarrow>
     acquire_lock E p (tok c) (ttl_of E) (lk_world s) = (Inr False, w) \<Longrightarrow>
     lock_step E tok s (s\<lparr>lk_world := w\<rparr>)"
| beat: "lk_at s c = Some p \<Longrightarrow>
     refresh_lock E p (tok c) (ttl_of E) (lk_world s) = (Inr True, w) \<Longrightarrow>
     lock_step E tok s (s\<lparr>lk_world := w, lk_lease := (lk_lease s)(c := ttl_of E)\<rparr>)"
| lost: "lk_at s c = Some p \<Longrightarrow>
     refresh_lock E p (tok c) (ttl_of E) (lk_world s) = (Inr False, w) \<Longrightarrow>
     lock_step E tok s (s\<lparr>lk_world := w\<rparr>)"
| release: "lk_at s c = Some p \<Longrightarrow>
     release_lock E p (tok c) (lk_world s) = (Inr (), w) \<Longrightarrow>
     lock_step E tok s (s\<lparr>lk_world := w, lk_at := (lk_at s)(c := None)\<rparr>)"
| elapse: "lock_step E tok s
     (s\<lparr>lk_world := pass_time E n (lk_world s), lk_lease := (\<lambda>c. lk_lease s c - int n)\<rparr>)"

inductive lock_run :: "'r env \<Rightarrow> (nat \<Rightarrow> string) \<Rightarrow> 'r lock_sys \<Rightarrow> 'r lock_sys \<Rightarrow> bool"
  for E :: "'r env" and tok :: "nat \<Rightarrow> string" where
  here: "lock_run E tok s s"
| more: "lock_run E tok s t \<Longrightarrow> lock_step E tok t u \<Longrightarrow> lock_run E tok s u"

inductive_simps lock_step_simps: "lock_step E tok s t"

text \<open>Nobody works yet, and the client is connected.\<close>

definition lock_start :: "('r \<Rightarrow> keyspace) \<Rightarrow> 'r lock_sys \<Rightarrow> bool" where
  "lock_start view s =
     (client_ready (lk_world s) \<and> locks_wf (view (svc (lk_world s))) \<and> (\<forall>c. lk_at s c = None))"

section \<open>The invariant\<close>

definition lease_live :: "'r lock_sys \<Rightarrow> nat \<Rightarrow> string \<Rightarrow> bool" where
  "lease_live s c p = (lk_at s c = Some p \<and> 0 < lk_lease s c)"

definition lock_inv :: "('r \<Rightarrow> keyspace) \<Rightarrow> (nat \<Rightarrow> string) \<Rightarrow> 'r lock_sys \<Rightarrow> bool" where
  "lock_inv view tok s =
     (client_ready (lk_world s) \<and> locks_wf (view (svc (lk_world s)))
      \<and> (\<forall>c p. lease_live s c p \<longrightarrow>
           lock_of (view (svc (lk_world s))) p = Some (tok c)
           \<and> ks_ttl (view (svc (lk_world s))) (lock_key p) = Some (lk_lease s c)))"

lemma lock_inv_start: "lock_start view s \<Longrightarrow> lock_inv view tok s"
  by (simp add: lock_start_def lock_inv_def lease_live_def)

lemma lock_inv_unique:
  assumes "lock_inv view tok s" "inj tok" "lease_live s c p" "lease_live s d p"
  shows "c = d"
proof -
  from assms have "Some (tok c) = Some (tok d)" unfolding lock_inv_def by metis
  then have "tok c = tok d" by simp
  with \<open>inj tok\<close> show ?thesis by (auto dest: injD)
qed

context deployment
begin

lemma acquire_lock_ttl:
  assumes "client_ready w" "0 < ttl" "locks_wf (view (svc w))"
  shows "ks_ttl (view (svc (snd (acquire_lock E p t ttl w)))) (lock_key q) =
      (if q = p \<and> lock_of (view (svc w)) p = None then Some ttl
       else ks_ttl (view (svc w)) (lock_key q))"
    and "client_ready (snd (acquire_lock E p t ttl w))"
  using assms
  by (cases rule: locks_wf_cases [OF assms(3), of p];
      auto simp: lock_defs py_simps cmd_set_def)+

lemma release_lock_ttl:
  assumes "client_ready w" "locks_wf (view (svc w))" "lock_of (view (svc w)) q \<noteq> Some t"
  shows "ks_ttl (view (svc (snd (release_lock E p t w)))) (lock_key q) = ks_ttl (view (svc w)) (lock_key q)"
  using assms
  by (cases rule: locks_wf_cases [OF assms(2), of p];
      auto simp: lock_defs py_simps cmd_get_def cmd_delete_def ks_remove_def)

lemma refresh_lock_ttl:
  assumes "client_ready w" "0 < ttl" "locks_wf (view (svc w))" "q \<noteq> p"
  shows "ks_ttl (view (svc (snd (refresh_lock E p t ttl w)))) (lock_key q) = ks_ttl (view (svc w)) (lock_key q)"
  using assms
  by (cases rule: locks_wf_cases [OF assms(3), of p];
      auto simp: lock_defs py_simps cmd_get_def cmd_expire_def)

lemma lock_ops_connected:
  "client_ready (snd (refresh_lock E p t ttl w)) = client_ready w"
  "client_ready (snd (release_lock E p t w)) = client_ready w"
  by (auto simp: lock_defs py_simps split: sum.split)

lemma pass_time_locks:
  assumes "locks_wf (view (svc w))"
  shows "locks_wf (view (svc (pass_time E n w)))"
    and "ks_ttl (view (svc w)) (lock_key p) = Some k \<Longrightarrow> int n < k \<Longrightarrow>
      lock_of (view (svc (pass_time E n w))) p = lock_of (view (svc w)) p
      \<and> ks_ttl (view (svc (pass_time E n w))) (lock_key p) = Some (k - int n)"
  using assms
  by (auto simp: pass_time_def ks_elapse_def locks_wf_def lock_of_def split: option.splits if_splits)

text \<open>Each step keeps the invariant. What the invariant gives, and how tokens tell executions apart.\<close>

lemma lock_invD:
  assumes "lock_inv view tok s"
  shows "client_ready (lk_world s)" "locks_wf (view (svc (lk_world s)))"
    and "lease_live s c p \<Longrightarrow> lock_of (view (svc (lk_world s))) p = Some (tok c)
      \<and> ks_ttl (view (svc (lk_world s))) (lock_key p) = Some (lk_lease s c)"
  using assms by (auto simp: lock_inv_def)

lemma lock_inv_acquire:
  assumes inv: "lock_inv view tok s" and ttl: "0 < ttl_of E" and idle: "lk_at s c = None"
    and acq: "acquire_lock E p (tok c) (ttl_of E) (lk_world s) = (Inr got, w)"
  shows "got \<Longrightarrow> lock_inv view tok
      (s\<lparr>lk_world := w, lk_at := (lk_at s)(c \<mapsto> p), lk_lease := (lk_lease s)(c := ttl_of E)\<rparr>)"
    and "\<not> got \<Longrightarrow> lock_inv view tok (s\<lparr>lk_world := w\<rparr>)"
proof -
  note I = lock_invD(1,2) [OF inv]
  note run = acquire_lock_result [OF I(1) ttl I(2)] acquire_lock_ttl [OF I(1) ttl I(2)]
  have w: "w = snd (acquire_lock E p (tok c) (ttl_of E) (lk_world s))"
    and got: "got \<longleftrightarrow> lock_of (view (svc (lk_world s))) p = None"
    using acq run(1) [of p "tok c"] by auto
  note live = lock_invD(3) [OF inv]
  show "lock_inv view tok
      (s\<lparr>lk_world := w, lk_at := (lk_at s)(c \<mapsto> p), lk_lease := (lk_lease s)(c := ttl_of E)\<rparr>)" if got
  proof -
    have "lock_of (view (svc (lk_world s))) p = None" using that got by simp
    with live idle run show ?thesis
      by (fastforce simp: lock_inv_def lease_live_def w split: if_splits)
  qed
  show "lock_inv view tok (s\<lparr>lk_world := w\<rparr>)" if "\<not> got"
  proof -
    have "lock_of (view (svc (lk_world s))) p \<noteq> None" using that got by simp
    with live idle run show ?thesis
      by (fastforce simp: lock_inv_def lease_live_def w split: if_splits)
  qed
qed

lemma lock_inv_beat:
  assumes inv: "lock_inv view tok s" and own: "\<And>d q. lease_live s d q \<Longrightarrow> tok d = tok c \<Longrightarrow> d = c"
    and ttl: "0 < ttl_of E" and at: "lk_at s c = Some p"
    and ref: "refresh_lock E p (tok c) (ttl_of E) (lk_world s) = (Inr True, w)"
  shows "lock_inv view tok (s\<lparr>lk_world := w, lk_lease := (lk_lease s)(c := ttl_of E)\<rparr>)"
proof -
  note I = lock_invD(1,2) [OF inv]
  note run = refresh_lock_result [OF I(1) ttl I(2)]
  have w: "w = snd (refresh_lock E p (tok c) (ttl_of E) (lk_world s))"
    and mine: "lock_of (view (svc (lk_world s))) p = Some (tok c)"
    using ref run(1) [of p "tok c"] by (metis snd_conv, metis Inr_inject fst_conv)
  have "lock_of (view (svc w)) q = Some (tok d) \<and>
      ks_ttl (view (svc w)) (lock_key q) = Some (if d = c then ttl_of E else lk_lease s d)"
    if "lk_at s d = Some q" "d = c \<or> 0 < lk_lease s d" for d q
  proof (cases "d = c")
    case True
    with that at mine run show ?thesis by (simp add: w)
  next
    case False
    with that have l: "lease_live s d q" by (simp add: lease_live_def)
    have "q \<noteq> p" using lock_invD(3) [OF inv l] mine False own [OF l] by auto
    with False lock_invD(3) [OF inv l] show ?thesis
      using run(2) refresh_lock_ttl [OF I(1) ttl I(2)] by (simp add: w)
  qed
  with at I(1) run(4) show ?thesis
    by (auto simp: lock_inv_def lease_live_def w lock_ops_connected split: if_splits)
qed

lemma lock_inv_lost:
  assumes inv: "lock_inv view tok s" and ttl: "0 < ttl_of E"
    and ref: "refresh_lock E p (tok c) (ttl_of E) (lk_world s) = (Inr False, w)"
  shows "lock_inv view tok (s\<lparr>lk_world := w\<rparr>)"
proof -
  note I = lock_invD(1,2) [OF inv]
  note run = refresh_lock_result [OF I(1) ttl I(2)]
  have w: "w = snd (refresh_lock E p (tok c) (ttl_of E) (lk_world s))"
    and not_mine: "lock_of (view (svc (lk_world s))) p \<noteq> Some (tok c)"
    using ref run(1) [of p "tok c"] by (metis snd_conv, metis Inr_inject fst_conv)
  have "ks_ttl (view (svc w)) (lock_key q) = ks_ttl (view (svc (lk_world s))) (lock_key q)" for q
    using run(3) [of p "tok c"] not_mine refresh_lock_ttl [OF I(1) ttl I(2), of q p]
    by (cases "q = p") (simp_all add: w)
  with lock_invD(3) [OF inv] I(1) run(2,4) show ?thesis
    by (auto simp: lock_inv_def lease_live_def w lock_ops_connected)
qed

lemma lock_inv_release:
  assumes inv: "lock_inv view tok s" and own: "\<And>d q. lease_live s d q \<Longrightarrow> tok d = tok c \<Longrightarrow> d = c"
    and rel: "release_lock E p (tok c) (lk_world s) = (Inr (), w)"
  shows "lock_inv view tok (s\<lparr>lk_world := w, lk_at := (lk_at s)(c := None)\<rparr>)"
proof -
  note I = lock_invD(1,2) [OF inv]
  note run = release_lock_result [OF I] release_lock_ttl [OF I]
  have w: "w = snd (release_lock E p (tok c) (lk_world s))" using rel by (metis snd_conv)
  have "lock_of (view (svc w)) q = lock_of (view (svc (lk_world s))) q \<and>
      ks_ttl (view (svc w)) (lock_key q) = ks_ttl (view (svc (lk_world s))) (lock_key q)"
    if "lease_live s d q" "d \<noteq> c" for d q
  proof -
    have "lock_of (view (svc (lk_world s))) q \<noteq> Some (tok c)"
      using lock_invD(3) [OF inv that(1)] that(2) own [OF that(1)] by auto
    then show ?thesis using run(2,4) by (auto simp: w)
  qed
  with lock_invD(3) [OF inv] I(1) run(3) show ?thesis
    by (auto simp: lock_inv_def lease_live_def w lock_ops_connected split: if_splits)
qed

lemma lock_inv_elapse:
  assumes inv: "lock_inv view tok s"
  shows "lock_inv view tok
    (s\<lparr>lk_world := pass_time E n (lk_world s), lk_lease := (\<lambda>c. lk_lease s c - int n)\<rparr>)"
proof -
  note I = lock_invD(1,2) [OF inv]
  have "lock_of (view (svc (pass_time E n (lk_world s)))) p = Some (tok c) \<and>
      ks_ttl (view (svc (pass_time E n (lk_world s)))) (lock_key p) = Some (lk_lease s c - int n)"
    if "lk_at s c = Some p" "int n < lk_lease s c" for c p
  proof -
    from that have l: "lease_live s c p" by (simp add: lease_live_def)
    from pass_time_locks(2) [OF I(2) conjunct2 [OF lock_invD(3) [OF inv l]] that(2)] lock_invD(3) [OF inv l]
    show ?thesis by simp
  qed
  with I(1) pass_time_locks(1) [OF I(2), of n] show ?thesis
    by (auto simp: lock_inv_def lease_live_def) (auto simp: pass_time_def)
qed

lemma lock_step_inv:
  assumes "lock_step E tok s s'" "lock_inv view tok s" "inj tok" "0 < ttl_of E"
  shows "lock_inv view tok s'"
proof -
  have own: "tok d = tok c \<Longrightarrow> d = c" for c d using \<open>inj tok\<close> by (auto dest: injD)
  from assms(1) show ?thesis
  proof cases
    case (acquire c p w)
    then show ?thesis using lock_inv_acquire(1) [OF assms(2,4) acquire(2,3)] by simp
  next
    case (busy c p w)
    then show ?thesis using lock_inv_acquire(2) [OF assms(2,4) busy(2,3)] by simp
  next
    case (beat c p w)
    then show ?thesis using lock_inv_beat [OF assms(2) own assms(4)] by simp
  next
    case (lost c p w)
    then show ?thesis using lock_inv_lost [OF assms(2,4)] by simp
  next
    case (release c p w)
    then show ?thesis using lock_inv_release [OF assms(2) own] by simp
  next
    case (elapse n)
    then show ?thesis using lock_inv_elapse [OF assms(2)] by simp
  qed
qed

lemma lock_run_inv:
  "lock_run E tok s s' \<Longrightarrow> lock_inv view tok s \<Longrightarrow> inj tok \<Longrightarrow> 0 < ttl_of E
   \<Longrightarrow> lock_inv view tok s'"
  by (induction rule: lock_run.induct) (auto intro: lock_step_inv)

end

section \<open>Properties\<close>

text \<open>C4: mutual exclusion. In every state that executions with distinct tokens reach by taking,
  refreshing and releasing locks while time passes, two executions whose leases on a project are
  live are the same execution.\<close>

theorem lock_mutual_exclusion:
  assumes "deployment E view" "0 < lock_ttl (settings E)" "inj tok" "lock_start view s0"
    and "lock_run E tok s0 s" "lease_live s c p" "lease_live s d p"
  shows "c = d"
  using lock_inv_unique [OF deployment.lock_run_inv [OF assms(1,5) lock_inv_start [OF assms(4)]
      assms(3,2)] assms(3,6,7)] .

definition demo_start :: "mem lock_sys" where
  "demo_start = \<lparr>lk_world = start_world, lk_at = (\<lambda>_. None), lk_lease = (\<lambda>_. 0)\<rparr>"

definition demo_token :: "nat \<Rightarrow> string" where
  "demo_token c = replicate c CHR ''t''"

definition demo_locked :: "mem lock_sys" where
  "demo_locked =
     demo_start\<lparr>lk_world := snd (acquire_lock mem_env ''demo'' (demo_token 0) 3600 start_world),
       lk_at := [0 \<mapsto> ''demo''], lk_lease := (\<lambda>_. 0)(0 := 3600)\<rparr>"

lemma demo_facts:
  "inj demo_token" "lock_start mem_view demo_start" "lock_run mem_env demo_token demo_start demo_locked"
proof -
  show "inj demo_token" by (rule injI) (simp add: demo_token_def)
  show start: "lock_start mem_view demo_start"
    by (simp add: lock_start_def demo_start_def locks_wf_def)
  have "fst (acquire_lock mem_env ''demo'' (demo_token 0) 3600 start_world) = Inr True"
    using memory.acquire_lock_result(1) [of start_world 3600 "''demo''" "demo_token 0"] start
    by (simp add: lock_start_def demo_start_def lock_of_def)
  then have acq: "acquire_lock mem_env ''demo'' (demo_token 0) (ttl_of mem_env) (lk_world demo_start)
      = (Inr True, lk_world demo_locked)"
    by (simp add: prod_eq_iff demo_start_def demo_locked_def)
  have "lock_step mem_env demo_token demo_start
      (demo_start\<lparr>lk_world := lk_world demo_locked, lk_at := (lk_at demo_start)(0 \<mapsto> ''demo''),
        lk_lease := (lk_lease demo_start)(0 := ttl_of mem_env)\<rparr>)"
    by (rule lock_step.acquire [where tok = demo_token and c = 0, OF _ acq]) (simp add: demo_start_def)
  also have "demo_start\<lparr>lk_world := lk_world demo_locked, lk_at := (lk_at demo_start)(0 \<mapsto> ''demo''),
        lk_lease := (lk_lease demo_start)(0 := ttl_of mem_env)\<rparr> = demo_locked"
    by (simp add: demo_locked_def demo_start_def)
  finally show "lock_run mem_env demo_token demo_start demo_locked"
    by (rule lock_run.more [OF lock_run.here])
qed

theorem lock_mutual_exclusion_witness:
  "{d. lease_live demo_locked d ''demo''} = {0}"
proof -
  have live: "lease_live demo_locked 0 ''demo''" by (simp add: lease_live_def demo_locked_def)
  moreover have "d = 0" if d: "lease_live demo_locked d ''demo''" for d
    by (rule lock_mutual_exclusion [OF memory.deployment_axioms _ demo_facts d live]) simp
  ultimately show ?thesis by blast
qed

text \<open>a release takes no other worker's lock. Releasing with a token frees the lock of the project
  exactly when the lock holds this token; every other lock, and a lock held under another token, is
  left as it is.\<close>

theorem release_frees_own_lock:
  assumes "deployment E view" "client_ready w" "locks_wf (view (svc w))"
  shows "fst (release_lock E p tok w) = Inr ()
    \<and> (\<forall>q. lock_of (view (svc (snd (release_lock E p tok w)))) q =
        (if q = p \<and> lock_of (view (svc w)) p = Some tok then None else lock_of (view (svc w)) q))"
  using deployment.release_lock_result(1,2) [OF assms] by simp

theorem release_frees_own_lock_witness:
  "lock_of (mem_view (svc (snd (release_lock mem_env ''demo'' ''other'' (lk_world demo_locked))))) ''demo''
    = Some (demo_token 0)"
proof -
  have acq: "client_ready (lk_world demo_locked)" "locks_wf (mem_view (svc (lk_world demo_locked)))"
    "lock_of (mem_view (svc (lk_world demo_locked))) ''demo'' = Some (demo_token 0)"
    using memory.acquire_lock_result(2,3) [of start_world 3600 "''demo''" "demo_token 0"]
      memory.acquire_lock_ttl(2) [of start_world 3600 "''demo''" "demo_token 0"]
    by (simp_all add: demo_locked_def locks_wf_def lock_of_def)
  show ?thesis
    using release_frees_own_lock [OF memory.deployment_axioms acq(1,2), of "''demo''" "''other''"] acq(3)
    by (simp add: demo_token_def)
qed

end
