(* ===== verification/Config_Schema.thy ===== *)
theory Config_Schema
  imports Runtime
begin

text \<open>
  The structural validator of the \<open>config_json\<close> field (\<open>src/models/config_schema.py\<close>). A pydantic
  model is its list of fields, each with the \<open>field_validator\<close> that runs before its type is checked;
  every field is optional and may be null, and unknown keys are allowed. Validation collects the
  errors of all fields; an exception of a validator that is no \<open>ValueError\<close> leaves it at once.
\<close>

section \<open>Fields\<close>

datatype check = NoCheck | CoverageRange | PushStrategy | BranchStrategy

datatype field_type =
    KStr | KInt | KBool | KStrList | KDict
  | KModel "(string \<times> check \<times> field_type) list"

type_synonym fields = "(string \<times> check \<times> field_type) list"

definition plain :: "field_type \<Rightarrow> string list \<Rightarrow> fields" where
  "plain ty ks = map (\<lambda>k. (k, NoCheck, ty)) ks"

definition models_schema :: fields where
  "models_schema = plain KStr
     [''cio_naming_model'', ''cio_decision_model'', ''cio_executor_model'', ''architect_model'',
      ''engineer_model'', ''documenter_model'']"

definition validation_schema :: fields where
  "validation_schema =
     [(''validate_after_run'', NoCheck, KBool),
      (''max_fix_rounds'', NoCheck, KInt),
      (''model'', NoCheck, KStr),
      (''step_filter'', NoCheck, KStrList),
      (''stdout_preview_limit'', NoCheck, KInt),
      (''target_coverage'', CoverageRange, KInt)]"

definition claude_md_schema :: fields where
  "claude_md_schema =
     [(''enabled'', NoCheck, KBool), (''model'', NoCheck, KStr), (''memory_model'', NoCheck, KStr)]"

definition git_user_schema :: fields where
  "git_user_schema = plain KStr [''name'', ''email'']"

definition gitlab_schema :: fields where
  "gitlab_schema = plain KStr [''token'', ''base_url'', ''namespace'', ''branch'']"

definition git_schema :: fields where
  "git_schema =
     [(''enabled'', NoCheck, KBool),
      (''user'', NoCheck, KModel git_user_schema),
      (''gitlab'', NoCheck, KModel gitlab_schema),
      (''push_strategy'', PushStrategy, KStr),
      (''branch_strategy'', BranchStrategy, KStr),
      (''feature_branch_prefix'', NoCheck, KStr),
      (''init_on_new_project'', NoCheck, KBool),
      (''commit_on_phase'', NoCheck, KBool),
      (''tag_on_validate'', NoCheck, KBool),
      (''gitignore_cio_logs'', NoCheck, KBool)]"

definition config_json_schema :: fields where
  "config_json_schema =
     [(''model'', NoCheck, KStr),
      (''api_key'', NoCheck, KStr),
      (''llm_url'', NoCheck, KStr),
      (''work_dir'', NoCheck, KStr),
      (''file_limit'', NoCheck, KInt),
      (''architect_prompt'', NoCheck, KStr),
      (''engineer_prompt'', NoCheck, KStr),
      (''claude_alias'', NoCheck, KStr),
      (''cio_prompts'', NoCheck, KDict),
      (''execution_context_max_turns'', NoCheck, KInt),
      (''execution_context_content_limit'', NoCheck, KInt),
      (''models'', NoCheck, KModel models_schema),
      (''validation'', NoCheck, KModel validation_schema),
      (''claude_md'', NoCheck, KModel claude_md_schema),
      (''git'', NoCheck, KModel git_schema)]"

section \<open>Field validators\<close>

text \<open>\<open>int(s)\<close> of a string: white space around, a sign, ASCII digits with single underscores between.\<close>

fun int_digits :: "nat \<Rightarrow> string \<Rightarrow> nat option" where
  "int_digits n [] = Some n"
| "int_digits n (c # cs) =
     (if is_digit c then int_digits (10 * n + (byte c - 48)) cs
      else if c = CHR ''_'' \<and> cs \<noteq> [] \<and> is_digit (hd cs) then int_digits n cs
      else None)"

definition int_of_text :: "string \<Rightarrow> int option" where
  "int_of_text s =
     (let t = py_strip s;
          neg = (t \<noteq> [] \<and> hd t = CHR ''-'');
          ds = (if t \<noteq> [] \<and> (hd t = CHR ''-'' \<or> hd t = CHR ''+'') then tl t else t)
      in if ds = [] \<or> \<not> is_digit (hd ds) then None
         else map_option (\<lambda>n. if neg then - int n else int n) (int_digits 0 ds))"

definition py_int :: "'r env \<Rightarrow> json \<Rightarrow> exn + int" where
  "py_int E v =
     (case v of
        JNull \<Rightarrow> Inl (TypeError ''int() argument must be a string, a bytes-like object or a real number'')
      | JBool b \<Rightarrow> Inr (if b then 1 else 0)
      | JInt i \<Rightarrow> Inr i
      | JReal s \<Rightarrow> int_of_float E s
      | JStr s \<Rightarrow>
          (case int_of_text s of
             None \<Rightarrow> Inl (ValueError (''invalid literal for int() with base 10: '' @ py_repr s))
           | Some i \<Rightarrow> Inr i)
      | JArr _ \<Rightarrow> Inl (TypeError ''int() argument must be a string, a bytes-like object or a real number'')
      | JObj _ \<Rightarrow> Inl (TypeError ''int() argument must be a string, a bytes-like object or a real number''))"

definition coverage_range :: "'r env \<Rightarrow> json \<Rightarrow> exn + unit" where
  "coverage_range E v =
     (if v = JNull then Inr ()
      else case py_int E v of
        Inl e \<Rightarrow> Inl e
      | Inr i \<Rightarrow>
          (if \<not> (0 \<le> i \<and> i \<le> 100)
           then Inl (ValueError ''target_coverage must be between 0 and 100'') else Inr ()))"

text \<open>\<open>v in {...}\<close>: a list or a dict cannot be hashed.\<close>

definition in_set :: "json \<Rightarrow> string list \<Rightarrow> exn + bool" where
  "in_set v xs =
     (case v of
        JArr _ \<Rightarrow> Inl (TypeError (''unhashable type: '' @ py_repr ''list''))
      | JObj _ \<Rightarrow> Inl (TypeError (''unhashable type: '' @ py_repr ''dict''))
      | JStr s \<Rightarrow> Inr (s \<in> set xs)
      | _ \<Rightarrow> Inr False)"

definition valid_push_strategies :: "string list" where
  "valid_push_strategies = [''never'', ''on_complete'', ''on_phase'', ''manual'']"

definition valid_branch_strategies :: "string list" where
  "valid_branch_strategies = [''feature_branch'', ''direct_main'']"

definition push_strategy_enum :: "json \<Rightarrow> exn + unit" where
  "push_strategy_enum v =
     (if v = JNull then Inr ()
      else case in_set v valid_push_strategies of
        Inl e \<Rightarrow> Inl e
      | Inr True \<Rightarrow> Inr ()
      | Inr False \<Rightarrow> Inl (ValueError (''push_strategy must be one of ''
          @ repr_strs [''manual'', ''never'', ''on_complete'', ''on_phase''])))"

definition branch_strategy_enum :: "json \<Rightarrow> exn + unit" where
  "branch_strategy_enum v =
     (if v = JNull then Inr ()
      else case in_set v valid_branch_strategies of
        Inl e \<Rightarrow> Inl e
      | Inr True \<Rightarrow> Inr ()
      | Inr False \<Rightarrow> Inl (ValueError (''branch_strategy must be one of ''
          @ repr_strs [''direct_main'', ''feature_branch''])))"

fun run_check :: "'r env \<Rightarrow> check \<Rightarrow> json \<Rightarrow> exn + unit" where
  "run_check E NoCheck v = Inr ()"
| "run_check E CoverageRange v = coverage_range E v"
| "run_check E PushStrategy v = push_strategy_enum v"
| "run_check E BranchStrategy v = branch_strategy_enum v"

section \<open>Validation\<close>

text \<open>The errors of a value, each with the path to it below the value.\<close>

type_synonym errors = "(string list \<times> string) list"

definition below :: "string \<Rightarrow> errors \<Rightarrow> errors" where
  "below k es = map (\<lambda>(loc, m). (k # loc, m)) es"

definition type_error :: "'r env \<Rightarrow> string \<Rightarrow> json \<Rightarrow> errors" where
  "type_error E ty v = [([], type_msg (pyd E) ty v)]"

definition item_errors :: "'r env \<Rightarrow> json list \<Rightarrow> errors" where
  "item_errors E xs =
     concat (map (\<lambda>(i, v). if as_str (pyd E) v = None
                           then below (show_nat i) (type_error E ''string'' v) else [])
               (enumerate 0 xs))"

fun validate_value :: "'r env \<Rightarrow> field_type \<Rightarrow> json \<Rightarrow> exn + errors"
  and validate_fields :: "'r env \<Rightarrow> fields \<Rightarrow> (string \<times> json) list \<Rightarrow> exn + errors" where
  "validate_value E ty JNull = Inr []"
| "validate_value E KStr v = Inr (if as_str (pyd E) v = None then type_error E ''string'' v else [])"
| "validate_value E KInt v = Inr (if as_int (pyd E) v = None then type_error E ''integer'' v else [])"
| "validate_value E KBool v = Inr (if as_bool (pyd E) v = None then type_error E ''boolean'' v else [])"
| "validate_value E KStrList v =
     Inr (case v of JArr xs \<Rightarrow> item_errors E xs | _ \<Rightarrow> type_error E ''list'' v)"
| "validate_value E KDict v = Inr (case v of JObj _ \<Rightarrow> [] | _ \<Rightarrow> type_error E ''dictionary'' v)"
| "validate_value E (KModel fs) v =
     (case v of JObj m \<Rightarrow> validate_fields E fs m | _ \<Rightarrow> Inr (type_error E ''dictionary'' v))"
| "validate_fields E [] m = Inr []"
| "validate_fields E ((k, c, ty) # fs) m =
     (case map_of m k of
        None \<Rightarrow> validate_fields E fs m
      | Some v \<Rightarrow>
          (case (case run_check E c v of
                   Inl e \<Rightarrow> (if is_ValueError e then Inr [([], ''Value error, '' @ exn_str e)] else Inl e)
                 | Inr _ \<Rightarrow> validate_value E ty v) of
             Inl e \<Rightarrow> Inl e
           | Inr es \<Rightarrow>
               (case validate_fields E fs m of
                  Inl e \<Rightarrow> Inl e
                | Inr es' \<Rightarrow> Inr (below k es @ es'))))"

definition error_line :: "string list \<times> string \<Rightarrow> string" where
  "error_line err =
     ''  '' @ utf8 [226, 128, 162] @ '' ''
     @ (if fst err = [] then ''(root)'' else join ('' '' @ utf8 [226, 134, 146] @ '' '') (fst err))
     @ '': '' @ snd err"

definition validate_config_json :: "'r env \<Rightarrow> string \<Rightarrow> exn + unit" where
  "validate_config_json E cj =
     (case loads E cj of
        None \<Rightarrow> Inl (ValueError ''config_json is not valid JSON: Expecting value'')
      | Some (JObj data) \<Rightarrow>
          (case validate_fields E config_json_schema data of
             Inl e \<Rightarrow> Inl e
           | Inr [] \<Rightarrow> Inr ()
           | Inr (err # errs) \<Rightarrow>
               Inl (ValueError (''config_json failed schema validation:'' @ newline
                 @ join newline (map error_line (err # errs)))))
      | Some _ \<Rightarrow>
          Inl (ValueError ''config_json must be a JSON object (dict), not a list or scalar''))"

section \<open>Which documents are accepted\<close>

text \<open>The schema as a predicate on values, with no notion of an error.\<close>

fun check_ok :: "'r env \<Rightarrow> check \<Rightarrow> json \<Rightarrow> bool" where
  "check_ok E NoCheck v = True"
| "check_ok E CoverageRange v = (v = JNull \<or> (\<exists>i. py_int E v = Inr i \<and> 0 \<le> i \<and> i \<le> 100))"
| "check_ok E PushStrategy v = (v = JNull \<or> (\<exists>s \<in> set valid_push_strategies. v = JStr s))"
| "check_ok E BranchStrategy v = (v = JNull \<or> (\<exists>s \<in> set valid_branch_strategies. v = JStr s))"

fun conforms :: "'r env \<Rightarrow> field_type \<Rightarrow> json \<Rightarrow> bool"
  and conforms_fields :: "'r env \<Rightarrow> fields \<Rightarrow> (string \<times> json) list \<Rightarrow> bool" where
  "conforms E ty JNull = True"
| "conforms E KStr v = (as_str (pyd E) v \<noteq> None)"
| "conforms E KInt v = (as_int (pyd E) v \<noteq> None)"
| "conforms E KBool v = (as_bool (pyd E) v \<noteq> None)"
| "conforms E KStrList v = (\<exists>xs. v = JArr xs \<and> (\<forall>x \<in> set xs. as_str (pyd E) x \<noteq> None))"
| "conforms E KDict v = (\<exists>m. v = JObj m)"
| "conforms E (KModel fs) v = (case v of JObj m \<Rightarrow> conforms_fields E fs m | _ \<Rightarrow> False)"
| "conforms_fields E [] m = True"
| "conforms_fields E ((k, c, ty) # fs) m =
     ((\<forall>v. map_of m k = Some v \<longrightarrow> check_ok E c v \<and> conforms E ty v) \<and> conforms_fields E fs m)"

lemma conforms_fieldsD:
  "conforms_fields E fs m \<Longrightarrow> (k, c, ty) \<in> set fs \<Longrightarrow> map_of m k = Some v \<Longrightarrow>
     check_ok E c v \<and> conforms E ty v"
  by (induction fs) auto

lemma conforms_fieldsI:
  "\<forall>(k, c, ty) \<in> set fs. map_of m k = None \<Longrightarrow> conforms_fields E fs m"
  by (induction fs) auto

lemma run_check_ok: "run_check E c v = Inr () \<longleftrightarrow> check_ok E c v"
  by (cases c; cases v)
    (auto simp: coverage_range_def push_strategy_enum_def branch_strategy_enum_def in_set_def
      py_int_def split: sum.splits bool.splits)

lemma item_errors_Nil: "item_errors E xs = [] \<longleftrightarrow> (\<forall>x \<in> set xs. as_str (pyd E) x \<noteq> None)"
proof -
  have "item_errors E xs = [] \<longleftrightarrow> (\<forall>p \<in> set (enumerate 0 xs). as_str (pyd E) (snd p) \<noteq> None)"
    unfolding item_errors_def concat_eq_Nil_conv set_map ball_simps(9)
    by (intro ball_cong refl) (simp add: below_def type_error_def split_beta)
  also have "\<dots> \<longleftrightarrow> (\<forall>v \<in> snd ` set (enumerate 0 xs). as_str (pyd E) v \<noteq> None)"
    by simp
  also have "snd ` set (enumerate 0 xs) = set xs"
    by (metis list.set_map map_snd_enumerate)
  finally show ?thesis .
qed

lemma below_Nil [simp]: "below k es = [] \<longleftrightarrow> es = []"
  by (simp add: below_def)

lemma validate_conforms:
  "validate_value E ty v = Inr [] \<longleftrightarrow> conforms E ty v"
  "validate_fields E fs m = Inr [] \<longleftrightarrow> conforms_fields E fs m"
proof (induction E ty v and E fs m rule: validate_value_validate_fields.induct)
  case (9 E k c ty fs m)
  show ?case
  proof (cases "map_of m k")
    case None
    with 9 show ?thesis by simp
  next
    case (Some v)
    show ?thesis
    proof (cases "run_check E c v")
      case (Inl e)
      then have "\<not> check_ok E c v" by (metis run_check_ok sum.distinct(1))
      with Inl Some show ?thesis by (auto split: sum.splits)
    next
      case (Inr u)
      then have "check_ok E c v" by (simp add: run_check_ok [symmetric])
      moreover have "validate_value E ty v = Inr [] \<longleftrightarrow> conforms E ty v"
        using 9(2) [OF Some Inr] .
      moreover have "validate_fields E fs m = Inr [] \<longleftrightarrow> conforms_fields E fs m"
        if "validate_value E ty v = Inr es" for es
        using 9(3) [OF Some, of es] that Inr by simp
      ultimately show ?thesis
        using Inr Some by (auto split: sum.splits)
    qed
  qed
qed (auto simp: type_error_def item_errors_Nil split: json.splits)

lemma accepted_conforms:
  "validate_config_json E s = Inr ()
   \<longleftrightarrow> (\<exists>m. loads E s = Some (JObj m) \<and> conforms_fields E config_json_schema m)"
  by (auto simp: validate_config_json_def validate_conforms [symmetric]
      split: option.splits json.splits sum.splits list.splits)

text \<open>An exception that leaves the validators without being a \<open>ValueError\<close>.\<close>

lemma run_check_escapes:
  "run_check E c v = Inl e \<Longrightarrow> \<not> is_ValueError e \<Longrightarrow>
    (\<exists>t. v = JReal t \<and> int_of_float E t = Inl e) \<or> (\<exists>xs. v = JArr xs) \<or> (\<exists>m. v = JObj m)"
  by (cases c; cases v)
    (auto simp: coverage_range_def push_strategy_enum_def branch_strategy_enum_def in_set_def
      py_int_def split: sum.splits bool.splits option.splits if_splits)

section \<open>The documented fields\<close>

text \<open>The tables of \<open>api_contract.md\<close>, written down by path: what is documented for the value of each
  field, with the checks that the code has. Any value may be null.\<close>

datatype doc_kind =
    DString | DInteger | DBoolean | DStrings | DObject | DPercent | DOneOf "string list"

definition documented_fields :: "(string list \<times> doc_kind) list" where
  "documented_fields =
     [([''model''], DString),
      ([''api_key''], DString),
      ([''llm_url''], DString),
      ([''work_dir''], DString),
      ([''file_limit''], DInteger),
      ([''architect_prompt''], DString),
      ([''engineer_prompt''], DString),
      ([''claude_alias''], DString),
      ([''cio_prompts''], DObject),
      ([''execution_context_max_turns''], DInteger),
      ([''execution_context_content_limit''], DInteger),
      ([''models''], DObject),
      ([''models'', ''cio_naming_model''], DString),
      ([''models'', ''cio_decision_model''], DString),
      ([''models'', ''cio_executor_model''], DString),
      ([''models'', ''architect_model''], DString),
      ([''models'', ''engineer_model''], DString),
      ([''models'', ''documenter_model''], DString),
      ([''validation''], DObject),
      ([''validation'', ''validate_after_run''], DBoolean),
      ([''validation'', ''max_fix_rounds''], DInteger),
      ([''validation'', ''model''], DString),
      ([''validation'', ''step_filter''], DStrings),
      ([''validation'', ''stdout_preview_limit''], DInteger),
      ([''validation'', ''target_coverage''], DPercent),
      ([''claude_md''], DObject),
      ([''claude_md'', ''enabled''], DBoolean),
      ([''claude_md'', ''model''], DString),
      ([''claude_md'', ''memory_model''], DString),
      ([''git''], DObject),
      ([''git'', ''enabled''], DBoolean),
      ([''git'', ''user''], DObject),
      ([''git'', ''user'', ''name''], DString),
      ([''git'', ''user'', ''email''], DString),
      ([''git'', ''gitlab''], DObject),
      ([''git'', ''gitlab'', ''token''], DString),
      ([''git'', ''gitlab'', ''base_url''], DString),
      ([''git'', ''gitlab'', ''namespace''], DString),
      ([''git'', ''gitlab'', ''branch''], DString),
      ([''git'', ''push_strategy''], DOneOf [''never'', ''on_complete'', ''on_phase'', ''manual'']),
      ([''git'', ''branch_strategy''], DOneOf [''feature_branch'', ''direct_main'']),
      ([''git'', ''feature_branch_prefix''], DString),
      ([''git'', ''init_on_new_project''], DBoolean),
      ([''git'', ''commit_on_phase''], DBoolean),
      ([''git'', ''tag_on_validate''], DBoolean),
      ([''git'', ''gitignore_cio_logs''], DBoolean)]"

fun field_at :: "string list \<Rightarrow> (string \<times> json) list \<Rightarrow> json option" where
  "field_at [] m = None"
| "field_at [k] m = map_of m k"
| "field_at (k # l # ks) m =
     (case map_of m k of Some (JObj m') \<Rightarrow> field_at (l # ks) m' | _ \<Rightarrow> None)"

definition meets :: "'r env \<Rightarrow> doc_kind \<Rightarrow> json \<Rightarrow> bool" where
  "meets E d v =
     (v = JNull \<or>
      (case d of
         DString \<Rightarrow> as_str (pyd E) v \<noteq> None
       | DInteger \<Rightarrow> as_int (pyd E) v \<noteq> None
       | DBoolean \<Rightarrow> as_bool (pyd E) v \<noteq> None
       | DStrings \<Rightarrow> (\<exists>xs. v = JArr xs \<and> (\<forall>x \<in> set xs. as_str (pyd E) x \<noteq> None))
       | DObject \<Rightarrow> (\<exists>m. v = JObj m)
       | DPercent \<Rightarrow> as_int (pyd E) v \<noteq> None \<and> (\<exists>i. py_int E v = Inr i \<and> 0 \<le> i \<and> i \<le> 100)
       | DOneOf names \<Rightarrow> as_str (pyd E) v \<noteq> None \<and> (\<exists>s \<in> set names. v = JStr s)))"

definition as_documented :: "'r env \<Rightarrow> (string list \<times> doc_kind) list \<Rightarrow> (string \<times> json) list \<Rightarrow> bool" where
  "as_documented E tab m = (\<forall>(p, d) \<in> set tab. \<forall>v. field_at p m = Some v \<longrightarrow> meets E d v)"

lemma as_documented_simps [simp]:
  "as_documented E [] m" 
  "as_documented E ((p, d) # tab) m \<longleftrightarrow>
     (\<forall>v. field_at p m = Some v \<longrightarrow> meets E d v) \<and> as_documented E tab m"
  "as_documented E (tab @ tab') m \<longleftrightarrow> as_documented E tab m \<and> as_documented E tab' m"
  by (auto simp: as_documented_def)

text \<open>A section: it is an object, and its fields are as documented.\<close>

lemma conforms_section:
  "(\<forall>v. map_of m k = Some v \<longrightarrow> conforms E (KModel fs) v)
   \<longleftrightarrow> (\<forall>v. map_of m k = Some v \<longrightarrow> meets E DObject v)
     \<and> (\<forall>m'. map_of m k = Some (JObj m') \<longrightarrow> conforms_fields E fs m')"
proof (cases "map_of m k")
  case (Some v)
  then show ?thesis by (cases v) (simp_all add: meets_def)
qed simp

lemma documented_section:
  assumes "\<forall>(p, d) \<in> set tab. p \<noteq> []"
  shows "as_documented E (map (\<lambda>(p, d). (k # p, d)) tab) m
    \<longleftrightarrow> (\<forall>m'. map_of m k = Some (JObj m') \<longrightarrow> as_documented E tab m')"
proof -
  have at: "field_at (k # p) m = (case map_of m k of Some (JObj m') \<Rightarrow> field_at p m' | _ \<Rightarrow> None)"
    if "(p, d) \<in> set tab" for p d
    using assms that by (cases p) auto
  have "as_documented E (map (\<lambda>(p, d). (k # p, d)) tab) m
      \<longleftrightarrow> (\<forall>(p, d) \<in> set tab. \<forall>v. field_at (k # p) m = Some v \<longrightarrow> meets E d v)"
    by (auto simp: as_documented_def)
  also have "\<dots> \<longleftrightarrow> (\<forall>(p, d) \<in> set tab. \<forall>v.
      (case map_of m k of Some (JObj m') \<Rightarrow> field_at p m' | _ \<Rightarrow> None) = Some v \<longrightarrow> meets E d v)"
    using at by (intro ball_cong refl) auto
  also have "\<dots> \<longleftrightarrow> (\<forall>m'. map_of m k = Some (JObj m') \<longrightarrow> as_documented E tab m')"
  proof (cases "map_of m k")
    case (Some v)
    then show ?thesis by (cases v) (simp_all add: as_documented_def split_beta)
  qed (simp add: split_beta)
  finally show ?thesis .
qed

lemma conforms_meets [simp]:
  "conforms E KStr v \<longleftrightarrow> meets E DString v"
  "conforms E KInt v \<longleftrightarrow> meets E DInteger v"
  "conforms E KBool v \<longleftrightarrow> meets E DBoolean v"
  "conforms E KStrList v \<longleftrightarrow> meets E DStrings v"
  "conforms E KDict v \<longleftrightarrow> meets E DObject v"
  "check_ok E CoverageRange v \<and> meets E DInteger v \<longleftrightarrow> meets E DPercent v"
  "check_ok E PushStrategy v \<and> meets E DString v
     \<longleftrightarrow> meets E (DOneOf [''never'', ''on_complete'', ''on_phase'', ''manual'']) v"
  "check_ok E BranchStrategy v \<and> meets E DString v
     \<longleftrightarrow> meets E (DOneOf [''feature_branch'', ''direct_main'']) v"
  by (cases v; auto simp: meets_def valid_push_strategies_def valid_branch_strategies_def)+

lemma models_documented:
  "conforms_fields E models_schema m \<longleftrightarrow> as_documented E
     [([''cio_naming_model''], DString),
      ([''cio_decision_model''], DString),
      ([''cio_executor_model''], DString),
      ([''architect_model''], DString),
      ([''engineer_model''], DString),
      ([''documenter_model''], DString)] m"
  by (simp add: models_schema_def plain_def del: conforms.simps check_ok.simps(2-4))

lemma validation_documented:
  "conforms_fields E validation_schema m \<longleftrightarrow> as_documented E
     [([''validate_after_run''], DBoolean),
      ([''max_fix_rounds''], DInteger),
      ([''model''], DString),
      ([''step_filter''], DStrings),
      ([''stdout_preview_limit''], DInteger),
      ([''target_coverage''], DPercent)] m"
  by (simp add: validation_schema_def plain_def del: conforms.simps check_ok.simps(2-4))

lemma claude_md_documented:
  "conforms_fields E claude_md_schema m \<longleftrightarrow> as_documented E
     [([''enabled''], DBoolean),
      ([''model''], DString),
      ([''memory_model''], DString)] m"
  by (simp add: claude_md_schema_def plain_def del: conforms.simps check_ok.simps(2-4))

lemma git_user_documented:
  "conforms_fields E git_user_schema m \<longleftrightarrow> as_documented E
     [([''name''], DString),
      ([''email''], DString)] m"
  by (simp add: git_user_schema_def plain_def del: conforms.simps check_ok.simps(2-4))

lemma gitlab_documented:
  "conforms_fields E gitlab_schema m \<longleftrightarrow> as_documented E
     [([''token''], DString),
      ([''base_url''], DString),
      ([''namespace''], DString),
      ([''branch''], DString)] m"
  by (simp add: gitlab_schema_def plain_def del: conforms.simps check_ok.simps(2-4))

text \<open>The section \<open>git\<close> has two sections of its own.\<close>

lemma section_documented:
  assumes "\<And>m. conforms_fields E fs m \<longleftrightarrow> as_documented E tab m" "\<forall>(p, d) \<in> set tab. p \<noteq> []"
  shows "(\<forall>v. map_of m k = Some v \<longrightarrow> conforms E (KModel fs) v)
    \<longleftrightarrow> as_documented E (([k], DObject) # map (\<lambda>(p, d). (k # p, d)) tab) m"
  unfolding conforms_section assms(1) as_documented_simps(2) documented_section [OF assms(2)]
  by simp

lemma git_documented:
  "conforms_fields E git_schema m \<longleftrightarrow> as_documented E
     [([''enabled''], DBoolean),
      ([''user''], DObject),
      ([''user'', ''name''], DString),
      ([''user'', ''email''], DString),
      ([''gitlab''], DObject),
      ([''gitlab'', ''token''], DString),
      ([''gitlab'', ''base_url''], DString),
      ([''gitlab'', ''namespace''], DString),
      ([''gitlab'', ''branch''], DString),
      ([''push_strategy''], DOneOf [''never'', ''on_complete'', ''on_phase'', ''manual'']),
      ([''branch_strategy''], DOneOf [''feature_branch'', ''direct_main'']),
      ([''feature_branch_prefix''], DString),
      ([''init_on_new_project''], DBoolean),
      ([''commit_on_phase''], DBoolean),
      ([''tag_on_validate''], DBoolean),
      ([''gitignore_cio_logs''], DBoolean)] m"
  by (simp add: git_schema_def section_documented [OF git_user_documented]
      section_documented [OF gitlab_documented] conj_ac del: conforms.simps check_ok.simps(2-4))

lemma config_documented:
  "conforms_fields E config_json_schema m \<longleftrightarrow> as_documented E documented_fields m"
  by (simp add: config_json_schema_def documented_fields_def section_documented [OF models_documented]
      section_documented [OF validation_documented] section_documented [OF claude_md_documented]
      section_documented [OF git_documented] conj_ac del: conforms.simps check_ok.simps(2-4))

section \<open>Properties\<close>

text \<open>C15: the validator accepts exactly the documents of the table of fields. \<open>validate_config_json\<close>
  returns if and only if the text is a JSON object in which every field of the table
  \<open>documented_fields\<close> that is present and not null has the type written there,
  \<open>target_coverage\<close> is between 0 and 100 and the two strategies are among the listed ones; unknown
  keys and missing keys do not matter. \<open>api_contract.md\<close> also asks for
  \<open>max_fix_rounds\<close> and \<open>stdout_preview_limit\<close> to be at least 0: the code does not check that, so the
  table does not have it, and \<open>negative_limits_accepted\<close> below shows what is accepted.\<close>

theorem config_accepted_iff:
  "validate_config_json E s = Inr ()
   \<longleftrightarrow> (\<exists>m. loads E s = Some (JObj m)
         \<and> (\<forall>(path, kind) \<in> set documented_fields. \<forall>v. field_at path m = Some v \<longrightarrow> meets E kind v))"
  unfolding accepted_conforms config_documented as_documented_def by (rule refl)

theorem config_accepted_iff_witness:
  "validate_config_json mem_env (json_dumps (JObj [(''git'', JObj [(''push_strategy'', JStr ''never'')])])) = Inr ()
  \<and> validate_config_json mem_env (json_dumps (JObj [(''git'', JObj [(''push_strategy'', JStr ''always'')])])) \<noteq> Inr ()"
proof -
  have parsed: "loads mem_env (json_dumps (JObj [(''git'', JObj [(''push_strategy'', JStr v)])]))
      = Some (JObj [(''git'', JObj [(''push_strategy'', JStr v)])])" for v
    by (simp only: mem_env_simps, rule json_loads_dumps, simp_all)
  show ?thesis
    unfolding config_accepted_iff parsed
    by (simp add: documented_fields_def meets_def strict_pydantic_def)
qed

text \<open>negative limits are accepted, which the contract says are refused with 422.\<close>

theorem negative_limits_accepted:
  assumes "loads E s = Some (JObj [(''validation'',
      JObj [(''max_fix_rounds'', JInt i), (''stdout_preview_limit'', JInt k)])])"
    and "\<And>n. as_int (pyd E) (JInt n) = Some n"
  shows "validate_config_json E s = Inr ()"
  using assms by (simp add: accepted_conforms config_json_schema_def validation_schema_def meets_def)

theorem negative_limits_accepted_witness:
  "validate_config_json mem_env (json_dumps (JObj [(''validation'',
      JObj [(''max_fix_rounds'', JInt (-1)), (''stdout_preview_limit'', JInt (-5))])])) = Inr ()"
  by (rule negative_limits_accepted [where i = "-1" and k = "-5"])
    (simp only: mem_env_simps, rule json_loads_dumps, simp_all add: strict_pydantic_def)

text \<open>the bounds hold for what is accepted. In an accepted document an integer
  \<open>validation.target_coverage\<close> is between 0 and 100, and \<open>git.push_strategy\<close> and
  \<open>git.branch_strategy\<close>, when given, are among the allowed names.\<close>

theorem accepted_bounds:
  assumes "validate_config_json E s = Inr ()" "loads E s = Some (JObj m)"
  shows "(\<forall>vm i. map_of m ''validation'' = Some (JObj vm) \<longrightarrow>
            map_of vm ''target_coverage'' = Some (JInt i) \<longrightarrow> 0 \<le> i \<and> i \<le> 100)
    \<and> (\<forall>g v. map_of m ''git'' = Some (JObj g) \<longrightarrow> map_of g ''push_strategy'' = Some v \<longrightarrow> v \<noteq> JNull \<longrightarrow>
          v \<in> JStr ` set valid_push_strategies)
    \<and> (\<forall>g v. map_of m ''git'' = Some (JObj g) \<longrightarrow> map_of g ''branch_strategy'' = Some v \<longrightarrow> v \<noteq> JNull \<longrightarrow>
          v \<in> JStr ` set valid_branch_strategies)"
proof -
  have top: "conforms_fields E config_json_schema m"
    using accepted_conforms [of E s] assms by simp
  have v: "conforms_fields E validation_schema vm" if "map_of m ''validation'' = Some (JObj vm)" for vm
    using conforms_fieldsD [OF top _ that, of NoCheck "KModel validation_schema"]
    by (simp add: config_json_schema_def)
  have g: "conforms_fields E git_schema gm" if "map_of m ''git'' = Some (JObj gm)" for gm
    using conforms_fieldsD [OF top _ that, of NoCheck "KModel git_schema"]
    by (simp add: config_json_schema_def)
  have "check_ok E CoverageRange x" if "map_of m ''validation'' = Some (JObj vm)"
    "map_of vm ''target_coverage'' = Some x" for vm x
    using conforms_fieldsD [OF v [OF that(1)] _ that(2), of CoverageRange KInt]
    by (simp add: validation_schema_def)
  moreover have "check_ok E PushStrategy x" if "map_of m ''git'' = Some (JObj gm)"
    "map_of gm ''push_strategy'' = Some x" for gm x
    using conforms_fieldsD [OF g [OF that(1)] _ that(2), of PushStrategy KStr]
    by (simp add: git_schema_def)
  moreover have "check_ok E BranchStrategy x" if "map_of m ''git'' = Some (JObj gm)"
    "map_of gm ''branch_strategy'' = Some x" for gm x
    using conforms_fieldsD [OF g [OF that(1)] _ that(2), of BranchStrategy KStr]
    by (simp add: git_schema_def)
  ultimately show ?thesis
    by (fastforce simp: py_int_def)
qed

definition demo_config :: json where
  "demo_config = JObj [(''validation'', JObj [(''target_coverage'', JInt 80)])]"

theorem accepted_bounds_witness:
  "validate_config_json mem_env (json_dumps demo_config) = Inr () \<and> (0::int) \<le> 80 \<and> (80::int) \<le> 100"
proof -
  have l: "loads mem_env (json_dumps demo_config)
      = Some (JObj [(''validation'', JObj [(''target_coverage'', JInt 80)])])"
    using json_loads_dumps [of demo_config] by (simp add: demo_config_def)
  have ok: "validate_config_json mem_env (json_dumps demo_config) = Inr ()"
    unfolding validate_config_json_def l
    by (simp add: config_json_schema_def validation_schema_def coverage_range_def py_int_def
        strict_pydantic_def below_def)
  from accepted_bounds [OF ok l] ok show ?thesis by simp
qed

text \<open>some wrong types escape the validator. A list or an object given for \<open>push_strategy\<close> makes
  the membership test raise a \<open>TypeError\<close>, which is no \<open>ValueError\<close>: it is not reported as a field
  error but leaves \<open>validate_config_json\<close>, so the request fails with a server error and not with the
  documented 422.\<close>

theorem unhashable_strategy_escapes:
  assumes "loads E s = Some (JObj [(''git'', JObj [(''push_strategy'', JArr xs)])])"
  shows "\<exists>msg. validate_config_json E s = Inl (TypeError msg)"
  unfolding validate_config_json_def assms
  by (simp add: config_json_schema_def git_schema_def push_strategy_enum_def in_set_def)

theorem unhashable_strategy_escapes_witness:
  "\<exists>msg. validate_config_json mem_env
     (json_dumps (JObj [(''git'', JObj [(''push_strategy'', JArr [])])])) = Inl (TypeError msg)"
  by (rule unhashable_strategy_escapes [where xs = "[]"])
    (simp only: mem_env_simps, rule json_loads_dumps, simp)

end
