(* ===== verification/Config.thy ===== *)
theory Config
  imports Config_Schema "HOL-Library.Log_Nat"
begin

text \<open>
  The settings (\<open>src/config.py\<close>): a frozen dataclass whose default factories read the process
  environment, in the order of the fields, when the module is imported. \<open>int(s)\<close> is in theory
  \<open>Config_Schema\<close>; here are \<open>float(s)\<close>, with the rounding of IEEE doubles, and the factories.
\<close>

section \<open>Floats\<close>

text \<open>A Python float; both zeros are 0.\<close>

datatype py_float = Finite rat | Infinite bool | NotANumber

definition pow2 :: "int \<Rightarrow> rat" where
  "pow2 e = (if 0 \<le> e then 2 ^ nat e else 1 / 2 ^ nat (- e))"

text \<open>The exponent \<open>e\<close> with \<open>2\<^sup>e \<le> q < 2\<^sup>e\<^sup>+\<^sup>1\<close>, for a positive \<open>q\<close>.\<close>

definition exponent :: "rat \<Rightarrow> int" where
  "exponent q =
     (let (a, b) = quotient_of q; e = bitlen a - bitlen b
      in if q < pow2 e then e - 1 else e)"

text \<open>Rounding to an integer, ties to even.\<close>

definition round_even :: "rat \<Rightarrow> int" where
  "round_even x =
     (let n = \<lfloor>x\<rfloor>; d = x - of_int n
      in if d < 1 / 2 then n else if 1 / 2 < d then n + 1 else if even n then n else n + 1)"

text \<open>The double nearest to \<open>q\<close>: 53 bits, subnormal below \<open>2\<^sup>-\<^sup>1\<^sup>0\<^sup>2\<^sup>2\<close>, infinite from \<open>2\<^sup>1\<^sup>0\<^sup>2\<^sup>4\<close> on.\<close>

definition round_pos :: "rat \<Rightarrow> rat" where
  "round_pos q =
     (let u = max (exponent q - 52) (- 1074) in of_int (round_even (q / pow2 u)) * pow2 u)"

definition to_double :: "rat \<Rightarrow> py_float" where
  "to_double q =
     (if q = 0 then Finite 0
      else let r = round_pos \<bar>q\<bar>
           in if 2 ^ 1024 \<le> r then Infinite (q < 0) else Finite (if q < 0 then - r else r))"

text \<open>\<open>a / b\<close> of integers, rounded once.\<close>

definition true_div :: "int \<Rightarrow> int \<Rightarrow> exn + rat" where
  "true_div a b =
     (case to_double (of_int a / of_int b) of
        Finite x \<Rightarrow> Inr x
      | _ \<Rightarrow> Inl (OverflowError ''integer division result too large for a float''))"

section \<open>\<open>float(s)\<close>\<close>

definition lower_char :: "char \<Rightarrow> char" where
  "lower_char c = (if 65 \<le> byte c \<and> byte c \<le> 90 then char_of (byte c + 32) else c)"

text \<open>Digits with single underscores between them: their value, their number, and what follows.\<close>

fun digit_run :: "nat \<Rightarrow> nat \<Rightarrow> string \<Rightarrow> nat \<times> nat \<times> string" where
  "digit_run v n [] = (v, n, [])"
| "digit_run v n (c # cs) =
     (if is_digit c then digit_run (10 * v + (byte c - 48)) (Suc n) cs
      else if c = CHR ''_'' \<and> 0 < n \<and> cs \<noteq> [] \<and> is_digit (hd cs) then digit_run v n cs
      else (v, n, c # cs))"

definition sign_of :: "string \<Rightarrow> bool \<times> string" where
  "sign_of s =
     (if s \<noteq> [] \<and> hd s = CHR ''-'' then (True, tl s)
      else if s \<noteq> [] \<and> hd s = CHR ''+'' then (False, tl s) else (False, s))"

text \<open>The exponent part: nothing, or \<open>e\<close> with a signed number at the end.\<close>

definition exponent_part :: "string \<Rightarrow> int option" where
  "exponent_part s =
     (if s = [] then Some 0
      else if lower_char (hd s) = CHR ''e'' then
        (let (neg, ds) = sign_of (tl s); (v, n, rest) = digit_run 0 0 ds
         in if n = 0 \<or> rest \<noteq> [] then None else Some (if neg then - int v else int v))
      else None)"

definition pow10 :: "int \<Rightarrow> rat" where
  "pow10 e = (if 0 \<le> e then 10 ^ nat e else 1 / 10 ^ nat (- e))"

text \<open>An unsigned decimal number: its exact value.\<close>

definition decimal :: "string \<Rightarrow> rat option" where
  "decimal s =
     (let (v, n, rest) = digit_run 0 0 s;
          (v', m, rest') =
            (if rest \<noteq> [] \<and> hd rest = CHR ''.'' then digit_run 0 0 (tl rest) else (0, 0, rest))
      in if n + m = 0 then None
         else map_option (\<lambda>e. (of_nat v + of_nat v' / 10 ^ m) * pow10 e) (exponent_part rest'))"

definition float_of_text :: "string \<Rightarrow> py_float option" where
  "float_of_text s =
     (let (neg, t) = sign_of (py_strip s); l = map lower_char t
      in if l = ''inf'' \<or> l = ''infinity'' then Some (Infinite neg)
         else if l = ''nan'' then Some NotANumber
         else map_option (\<lambda>q. to_double (if neg then - q else q)) (decimal t))"

section \<open>Reading the environment\<close>

type_synonym environ = "string \<rightharpoonup> string"

definition int_arg :: "string \<Rightarrow> exn + int" where
  "int_arg s =
     (case int_of_text s of
        None \<Rightarrow> Inl (ValueError (''invalid literal for int() with base 10: '' @ py_repr s))
      | Some i \<Rightarrow> Inr i)"

definition float_arg :: "string \<Rightarrow> exn + py_float" where
  "float_arg s =
     (case float_of_text s of
        None \<Rightarrow> Inl (ValueError (''could not convert string to float: '' @ py_repr s))
      | Some x \<Rightarrow> Inr x)"

definition getenv :: "string \<Rightarrow> string \<Rightarrow> (environ, string) py" where
  "getenv k d = py_get (\<lambda>env. case env k of None \<Rightarrow> d | Some v \<Rightarrow> v)"

definition environ_item :: "string \<Rightarrow> (environ, string) py" where
  "environ_item k =
     py_bind (py_get (\<lambda>env. env k)) (\<lambda>v.
       case v of None \<Rightarrow> py_raise (KeyError (py_repr k)) | Some s \<Rightarrow> py_return s)"

definition int_env :: "string \<Rightarrow> string \<Rightarrow> (environ, int) py" where
  "int_env k d = py_bind (getenv k d) (\<lambda>s. py_of_sum (int_arg s))"

definition float_env :: "string \<Rightarrow> string \<Rightarrow> (environ, py_float) py" where
  "float_env k d = py_bind (getenv k d) (\<lambda>s. py_of_sum (float_arg s))"

text \<open>The default is computed whether or not it is used. \<open>float(str(x))\<close> is \<open>x\<close> for every float \<open>x\<close>, so the
  default is not printed and parsed again here.\<close>

definition heartbeat_env :: "(environ, py_float) py" where
  "heartbeat_env =
     py_bind (int_env ''LOCK_TTL'' ''3600'') (\<lambda>ttl.
     py_bind (py_of_sum (true_div ttl 3)) (\<lambda>third.
     py_bind (py_get (\<lambda>env. env ''LOCK_HEARTBEAT_INTERVAL'')) (\<lambda>v.
       case v of None \<Rightarrow> py_return (Finite third) | Some s \<Rightarrow> py_of_sum (float_arg s))))"

definition load_settings :: "(environ, py_float settings_of) py" where
  "load_settings =
     py_bind (environ_item ''CIO_API_KEY'') (\<lambda>key.
     py_bind (getenv ''CIO_MODEL'' ''GPT-4.1'') (\<lambda>model.
     py_bind (getenv ''CIO_LLM_URL'' ''https://api.poe.com'') (\<lambda>url.
     py_bind (getenv ''CIO_WORK_DIR'' ''./workspace/solutions'') (\<lambda>dir.
     py_bind (getenv ''CIO_CONFIG_PATH'' []) (\<lambda>path.
     py_bind (int_env ''WORKER_CONCURRENCY'' ''4'') (\<lambda>conc.
     py_bind (float_env ''WORKER_POLL_INTERVAL'' ''0.5'') (\<lambda>poll.
     py_bind (int_env ''MAX_RETRIES'' ''3'') (\<lambda>retries.
     py_bind (getenv ''API_HOST'' ''0.0.0.0'') (\<lambda>host.
     py_bind (int_env ''API_PORT'' ''1577'') (\<lambda>port.
     py_bind (getenv ''REDIS_URL'' ''redis://localhost:6379/0'') (\<lambda>redis.
     py_bind (int_env ''LOCK_TTL'' ''3600'') (\<lambda>ttl.
     py_bind heartbeat_env (\<lambda>beat.
     py_bind (float_env ''STREAM_TIMEOUT'' ''0'') (\<lambda>timeout.
     py_bind (float_env ''SSE_KEEPALIVE_INTERVAL'' ''20.0'') (\<lambda>keep.
     py_bind (float_env ''SSE_MAX_DURATION'' ''0'') (\<lambda>dur.
       py_return
         \<lparr>cio_api_key = key, cio_model = model, cio_llm_url = url, cio_work_dir = dir,
          cio_config_path = path, worker_concurrency = conc, worker_poll_interval = poll,
          max_retries = retries, api_host = host, api_port = port, redis_url = redis,
          lock_ttl = ttl, lock_heartbeat_interval = beat, stream_timeout = timeout,
          sse_keepalive_interval = keep, sse_max_duration = dur\<rparr>))))))))))))))))"

section \<open>The rounding\<close>

lemma pow2_powi: "pow2 e = 2 powi e"
  by (simp add: pow2_def power_int_def power_one_over inverse_eq_divide)

lemma pow2_pos [simp]: "0 < pow2 e"
  by (simp add: pow2_def)

lemma pow2_add: "pow2 (d + e) = pow2 d * pow2 e"
  by (simp add: pow2_powi power_int_add)

lemma pow2_mono: "d \<le> e \<Longrightarrow> pow2 d \<le> pow2 e"
  by (simp add: pow2_powi power_int_increasing)

lemma pow2_less_cancel: "pow2 d < pow2 e \<Longrightarrow> d < e"
  using pow2_mono [of e d] by (meson not_le)

lemma pow2_bitlen:
  assumes "0 < (a::int)"
  shows "pow2 (bitlen a - 1) \<le> of_int a" "of_int a < pow2 (bitlen a)"
proof -
  have b: "0 < bitlen a" using assms by (simp add: bitlen_eq_zero_iff order_less_le bitlen_nonneg)
  have "(2::int) ^ nat (bitlen a - 1) \<le> a" and "a < 2 ^ nat (bitlen a)"
    using bitlen_bounds [OF assms] by simp_all
  then have "of_int (2 ^ nat (bitlen a - 1)) \<le> (of_int a :: rat)"
    and "(of_int a :: rat) < of_int (2 ^ nat (bitlen a))"
    by (simp_all only: of_int_le_iff of_int_less_iff)
  with b show "pow2 (bitlen a - 1) \<le> of_int a" "of_int a < pow2 (bitlen a)"
    by (simp_all add: pow2_def)
qed

lemma exponent_bounds:
  assumes "0 < q"
  shows "pow2 (exponent q) \<le> q" "q < pow2 (exponent q + 1)"
proof -
  obtain a b where ab: "quotient_of q = (a, b)" by (cases "quotient_of q")
  have q: "q = of_int a / of_int b" by (rule quotient_of_div [OF ab])
  have b: "0 < b" by (rule quotient_of_denom_pos [OF ab])
  have a: "0 < a" using assms b by (simp add: q zero_less_divide_iff)
  let ?e = "bitlen a - bitlen b"
  have "of_int a < pow2 (?e + 1) * pow2 (bitlen b - 1)"
    using pow2_bitlen(2) [OF a] by (simp flip: pow2_add)
  also have "\<dots> \<le> pow2 (?e + 1) * of_int b"
    using pow2_bitlen(1) [OF b] by (simp add: mult_left_mono less_imp_le)
  finally have up: "q < pow2 (?e + 1)" using b by (simp add: q divide_less_eq)
  have "pow2 (?e - 1) * of_int b \<le> pow2 (?e - 1) * pow2 (bitlen b)"
    using pow2_bitlen(2) [OF b] by (simp add: mult_left_mono less_imp_le)
  also have "\<dots> \<le> of_int a"
    using pow2_bitlen(1) [OF a] by (simp flip: pow2_add)
  finally have lo: "pow2 (?e - 1) \<le> q" using b by (simp add: q le_divide_eq)
  from up lo show "pow2 (exponent q) \<le> q" "q < pow2 (exponent q + 1)"
    by (auto simp: exponent_def ab Let_def)
qed

lemma round_even_error: "\<bar>of_int (round_even x) - x\<bar> \<le> 1 / 2"
  using floor_correct [of x] unfolding round_even_def Let_def abs_le_iff
  by (simp split: if_split) linarith

text \<open>A normal number is rounded with a relative error of at most \<open>2\<^sup>-\<^sup>5\<^sup>3\<close>.\<close>

lemma round_pos_error:
  assumes "pow2 (- 1022) \<le> q"
  shows "\<bar>round_pos q - q\<bar> \<le> q / 2 ^ 53"
proof -
  have q: "0 < q" using assms pow2_pos [of "- 1022"] by linarith
  note bounds = exponent_bounds [OF q]
  have "- 1022 < exponent q + 1" by (rule pow2_less_cancel [OF le_less_trans [OF assms bounds(2)]])
  then have u: "max (exponent q - 52) (- 1074) = exponent q - 52" by simp
  let ?u = "pow2 (exponent q - 52)"
  have "round_pos q - q = (of_int (round_even (q / ?u)) - q / ?u) * ?u"
    by (simp add: round_pos_def Let_def u left_diff_distrib order_less_imp_not_eq2)
  then have "\<bar>round_pos q - q\<bar> = \<bar>of_int (round_even (q / ?u)) - q / ?u\<bar> * ?u"
    by (simp add: abs_mult abs_of_pos)
  also have "\<dots> \<le> 1 / 2 * ?u"
    by (intro mult_right_mono round_even_error) (simp add: less_imp_le)
  also have "1 / 2 * ?u = pow2 (exponent q) / 2 ^ 53"
    using pow2_add [of "exponent q - 52" 52] by (simp add: pow2_def [of 52])
  also have "\<dots> \<le> q / 2 ^ 53" using bounds(1) by (simp add: divide_right_mono)
  finally show ?thesis .
qed

lemma true_div_error:
  assumes "true_div a b = Inr x" "pow2 (- 1022) \<le> of_int a / of_int b"
  shows "\<bar>x - of_int a / of_int b\<bar> \<le> of_int a / of_int b / 2 ^ 53"
proof -
  let ?q = "of_int a / of_int b :: rat"
  have "0 < ?q" using assms(2) pow2_pos [of "- 1022"] by linarith
  with assms(1) have "x = round_pos ?q"
    by (auto simp: true_div_def to_double_def Let_def abs_of_pos simp del: abs_divide split: if_splits)
  with round_pos_error [OF assms(2)] show ?thesis by simp
qed

section \<open>Properties\<close>

definition env_or :: "environ \<Rightarrow> string \<Rightarrow> string \<Rightarrow> string" where
  "env_or env k d = (case env k of None \<Rightarrow> d | Some v \<Rightarrow> v)"

lemma run_getenv [simp]: "getenv k d env = (Inr (env_or env k d), env)"
  by (simp add: getenv_def env_or_def py_simps)

lemma run_int_env:
  "int_env k d env = (case int_of_text (env_or env k d) of
     None \<Rightarrow> (int_arg (env_or env k d), env) | Some i \<Rightarrow> (Inr i, env))"
  by (simp add: int_env_def int_arg_def py_simps split: option.split)

lemma run_float_env:
  "float_env k d env = (case float_of_text (env_or env k d) of
     None \<Rightarrow> (float_arg (env_or env k d), env) | Some x \<Rightarrow> (Inr x, env))"
  by (simp add: float_env_def float_arg_def py_simps split: option.split)

lemma bind_int_env:
  "fst (py_bind (int_env k d) f env) = Inr s \<longleftrightarrow>
   (\<exists>i. int_of_text (env_or env k d) = Some i \<and> fst (f i env) = Inr s)"
  by (auto simp: run_int_env int_arg_def py_simps split: option.splits)

lemma bind_float_env:
  "fst (py_bind (float_env k d) f env) = Inr s \<longleftrightarrow>
   (\<exists>x. float_of_text (env_or env k d) = Some x \<and> fst (f x env) = Inr s)"
  by (auto simp: run_float_env float_arg_def py_simps split: option.splits)

lemma bind_getenv: "fst (py_bind (getenv k d) f env) = fst (f (env_or env k d) env)"
  by (simp add: py_simps)

lemma bind_environ_item:
  "fst (py_bind (environ_item k) f env) = Inr s \<longleftrightarrow>
   (\<exists>v. env k = Some v \<and> fst (f v env) = Inr s)"
  by (auto simp: environ_item_def py_simps split: option.splits)

lemma bind_heartbeat:
  "fst (py_bind heartbeat_env f env) = Inr s \<longleftrightarrow>
   (\<exists>ttl third beat. int_of_text (env_or env ''LOCK_TTL'' ''3600'') = Some ttl
      \<and> true_div ttl 3 = Inr third
      \<and> (case env ''LOCK_HEARTBEAT_INTERVAL'' of None \<Rightarrow> Some (Finite third) | Some v \<Rightarrow> float_of_text v)
          = Some beat
      \<and> fst (f beat env) = Inr s)"
  by (auto simp: heartbeat_env_def run_int_env int_arg_def float_arg_def py_simps
      split: option.splits sum.splits)

lemmas bind_reads = bind_int_env bind_float_env bind_getenv bind_environ_item bind_heartbeat

text \<open>C34: the settings are what the environment says. Loading succeeds with given settings exactly when
  \<open>CIO_API_KEY\<close> is set, every number that is set is one, a third of the lock's time to live is a float,
  and each setting is its variable's value or, without one, its default. In every other case the
  import of \<open>config.py\<close> raises. The defaults are those of the code; \<open>README.md\<close> has others for
  \<open>CIO_WORK_DIR\<close> (\<open>./workspace\<close>) and \<open>SSE_KEEPALIVE_INTERVAL\<close> (15.0), and its 1200 seconds for
  \<open>LOCK_HEARTBEAT_INTERVAL\<close> are a third of the default \<open>LOCK_TTL\<close> only.\<close>

theorem settings_from_environment:
  "fst (load_settings env) = Inr s \<longleftrightarrow>
     env ''CIO_API_KEY'' = Some (cio_api_key s)
     \<and> cio_model s = env_or env ''CIO_MODEL'' ''GPT-4.1''
     \<and> cio_llm_url s = env_or env ''CIO_LLM_URL'' ''https://api.poe.com''
     \<and> cio_work_dir s = env_or env ''CIO_WORK_DIR'' ''./workspace/solutions''
     \<and> cio_config_path s = env_or env ''CIO_CONFIG_PATH'' []
     \<and> int_of_text (env_or env ''WORKER_CONCURRENCY'' ''4'') = Some (worker_concurrency s)
     \<and> float_of_text (env_or env ''WORKER_POLL_INTERVAL'' ''0.5'') = Some (worker_poll_interval s)
     \<and> int_of_text (env_or env ''MAX_RETRIES'' ''3'') = Some (max_retries s)
     \<and> api_host s = env_or env ''API_HOST'' ''0.0.0.0''
     \<and> int_of_text (env_or env ''API_PORT'' ''1577'') = Some (api_port s)
     \<and> redis_url s = env_or env ''REDIS_URL'' ''redis://localhost:6379/0''
     \<and> int_of_text (env_or env ''LOCK_TTL'' ''3600'') = Some (lock_ttl s)
     \<and> (\<exists>third. true_div (lock_ttl s) 3 = Inr third
          \<and> (case env ''LOCK_HEARTBEAT_INTERVAL'' of
               None \<Rightarrow> Some (Finite third) | Some v \<Rightarrow> float_of_text v)
              = Some (lock_heartbeat_interval s))
     \<and> float_of_text (env_or env ''STREAM_TIMEOUT'' ''0'') = Some (stream_timeout s)
     \<and> float_of_text (env_or env ''SSE_KEEPALIVE_INTERVAL'' ''20.0'') = Some (sse_keepalive_interval s)
     \<and> float_of_text (env_or env ''SSE_MAX_DURATION'' ''0'') = Some (sse_max_duration s)"
  unfolding load_settings_def bind_reads by (cases s) (auto simp: py_return_def)

text \<open>With nothing but the key set, the settings are the defaults of the code.\<close>

definition third_of_100 :: rat where
  "third_of_100 = 4691249611844267 / 140737488355328"

lemma default_ints [simp]:
  "int_of_text ''4'' = Some 4" "int_of_text ''3'' = Some 3" "int_of_text ''1577'' = Some 1577"
  "int_of_text ''3600'' = Some 3600" "int_of_text ''100'' = Some 100"
  by code_simp+

text \<open>Rounding to doubles is evaluated; each number is a lemma of its own to be checked in parallel.\<close>

lemma default_poll_interval [simp]: "float_of_text ''0.5'' = Some (Finite (1 / 2))"
  by code_simp

lemma default_stream_timeout [simp]: "float_of_text ''0'' = Some (Finite 0)"
  by code_simp

lemma default_keepalive [simp]: "float_of_text ''20.0'' = Some (Finite 20)"
  by code_simp

lemma third_of_3600 [simp]: "true_div 3600 3 = Inr 1200"
  by code_simp

lemma third_of_100_rounded [simp]: "true_div 100 3 = Inr third_of_100"
  unfolding third_of_100_def by code_simp

definition default_settings :: "py_float settings_of" where
  "default_settings =
     \<lparr>cio_api_key = ''key'', cio_model = ''GPT-4.1'', cio_llm_url = ''https://api.poe.com'',
      cio_work_dir = ''./workspace/solutions'', cio_config_path = [], worker_concurrency = 4,
      worker_poll_interval = Finite (1 / 2), max_retries = 3, api_host = ''0.0.0.0'',
      api_port = 1577, redis_url = ''redis://localhost:6379/0'', lock_ttl = 3600,
      lock_heartbeat_interval = Finite 1200, stream_timeout = Finite 0,
      sse_keepalive_interval = Finite 20, sse_max_duration = Finite 0\<rparr>"

lemma settings_defaults: "fst (load_settings [''CIO_API_KEY'' \<mapsto> ''key'']) = Inr default_settings"
  unfolding load_settings_def bind_reads by (simp add: env_or_def py_return_def default_settings_def)

lemma default_heartbeat_bound:
  assumes "fst (load_settings env) = Inr s" "env ''LOCK_HEARTBEAT_INTERVAL'' = None" "0 < lock_ttl s"
  shows "\<exists>h. lock_heartbeat_interval s = Finite h
    \<and> \<bar>h - of_int (lock_ttl s) / 3\<bar> \<le> of_int (lock_ttl s) / 3 / 2 ^ 53
    \<and> 0 < h \<and> h < of_int (lock_ttl s) / 2"
proof -
  let ?t = "of_int (lock_ttl s) :: rat"
  obtain h where h: "true_div (lock_ttl s) 3 = Inr h" "lock_heartbeat_interval s = Finite h"
    using assms(1,2) unfolding load_settings_def bind_reads
    by (auto simp: py_return_def)
  have t: "1 \<le> ?t" using assms(3) by simp
  have "pow2 (- 1022) \<le> 1 / 3" by (simp add: pow2_def)
  also have "\<dots> \<le> ?t / of_int 3" using t by simp
  finally have "\<bar>h - ?t / 3\<bar> \<le> ?t / 3 / 2 ^ 53"
    using true_div_error [OF h(1)] by simp
  moreover have "?t / 3 / 2 ^ 53 \<le> ?t / 12" using t by simp
  with calculation have "0 < h" "h < ?t / 2" using t by linarith+
  ultimately show ?thesis using h(2) by blast
qed

text \<open>the default heartbeat beats a lock's expiry. When \<open>LOCK_HEARTBEAT_INTERVAL\<close> is not set and the
  time to live is positive, the interval is a finite number within a relative error of \<open>2\<^sup>-\<^sup>5\<^sup>3\<close> of a
  third of the time to live, so the lock is refreshed well before it expires.\<close>

theorem default_heartbeat:
  assumes "fst (load_settings env) = Inr s" "env ''LOCK_HEARTBEAT_INTERVAL'' = None" "0 < lock_ttl s"
  shows "\<exists>h. lock_heartbeat_interval s = Finite h
    \<and> \<bar>h - of_int (lock_ttl s) / 3\<bar> \<le> of_int (lock_ttl s) / 3 / 2 ^ 53
    \<and> 0 < h \<and> h < of_int (lock_ttl s) / 2"
  by (rule default_heartbeat_bound [OF assms])

theorem default_heartbeat_witness:
  "\<exists>s h. fst (load_settings [''CIO_API_KEY'' \<mapsto> ''key'', ''LOCK_TTL'' \<mapsto> ''100'']) = Inr s
     \<and> lock_heartbeat_interval s = Finite h \<and> 33 < h \<and> h < 34"
proof -
  let ?env = "[''CIO_API_KEY'' \<mapsto> ''key'', ''LOCK_TTL'' \<mapsto> ''100'']"
  let ?s = "default_settings\<lparr>lock_ttl := 100,
    lock_heartbeat_interval := Finite third_of_100\<rparr>"
  have s: "fst (load_settings ?env) = Inr ?s"
    unfolding load_settings_def bind_reads
    by (simp add: env_or_def py_return_def default_settings_def)
  from default_heartbeat [OF s] obtain h where
    "lock_heartbeat_interval ?s = Finite h" "\<bar>h - 100 / 3\<bar> \<le> 100 / 3 / 2 ^ 53"
    by (auto simp: default_settings_def)
  moreover have "100 / 3 / 2 ^ 53 \<le> (1 / 4 :: rat)" by simp
  ultimately have "lock_heartbeat_interval ?s = Finite h \<and> 33 < h \<and> h < 34"
    by linarith
  with s show ?thesis by blast
qed

end
