(* ===== verification/Tasks.thy ===== *)
theory Tasks
  imports Runtime
begin

text \<open>
  The methods of \<open>Task\<close> (\<open>src/models/task.py\<close>) on objects of the heap: the constructor, the
  mutators \<open>touch\<close> and \<open>transition\<close>, and the JSON text of a task in both directions.
\<close>

section \<open>Operations\<close>

text \<open>\<open>Task(project_name=..., requirement=..., work_dir=..., config_json=...)\<close>: the default
  factories read the id, then the clock twice.\<close>

definition new_task ::
  "'r env \<Rightarrow> string \<Rightarrow> string \<Rightarrow> string \<Rightarrow> string \<Rightarrow> ('r, obj) prog" where
  "new_task E p r wd cj =
     py_bind (new_uuid E) (\<lambda>i.
     py_bind (now E) (\<lambda>c.
     py_bind (now E) (\<lambda>u.
     alloc \<lparr>task_id = i, project_name = p, requirement = r, work_dir = wd, config_json = cj,
            mode = UNKNOWN, status = PENDING, created_at = c, updated_at = u, retry_count = 0,
            status_detail = []\<rparr>)))"

definition touch :: "'r env \<Rightarrow> obj \<Rightarrow> ('r, unit) prog" where
  "touch E x = py_bind (now E) (\<lambda>n. assign x (\<lambda>t. t\<lparr>updated_at := n\<rparr>))"

definition transition :: "'r env \<Rightarrow> obj \<Rightarrow> task_status \<Rightarrow> string \<Rightarrow> ('r, unit) prog" where
  "transition E x new_status detail =
     py_then (assign x (\<lambda>t. t\<lparr>status := new_status\<rparr>))
       (py_then (assign x (\<lambda>t. t\<lparr>status_detail := detail\<rparr>)) (touch E x))"

definition enc :: "'r env \<Rightarrow> task \<Rightarrow> string" where
  "enc E t = dumps E (task_to_json (pyd E) t)"

definition model_dump_json :: "'r env \<Rightarrow> obj \<Rightarrow> ('r, string) prog" where
  "model_dump_json E x = py_bind (load x) (\<lambda>t. py_return (enc E t))"

definition model_validate_json :: "'r env \<Rightarrow> string \<Rightarrow> ('r, obj) prog" where
  "model_validate_json E raw =
     (case loads E raw of
        None \<Rightarrow> py_raise (ValidationError ''json'')
      | Some j \<Rightarrow> py_bind (task_of_json (pyd E) (new_uuid E) (now E) j) alloc)"

section \<open>Effects\<close>

text \<open>What a mutator leaves of a task: its identity never changes after construction.\<close>

definition same_identity :: "task \<Rightarrow> task \<Rightarrow> bool" where
  "same_identity t t' =
     (task_id t = task_id t' \<and> project_name t = project_name t' \<and> requirement t = requirement t'
      \<and> work_dir t = work_dir t' \<and> config_json t = config_json t'
      \<and> created_at t = created_at t')"

lemma same_identity_refl [simp]: "same_identity t t"
  by (simp add: same_identity_def)

lemma same_identity_sym: "same_identity t t' \<Longrightarrow> same_identity t' t"
  by (simp add: same_identity_def)

lemma same_identity_trans [trans]:
  "same_identity s t \<Longrightarrow> same_identity t u \<Longrightarrow> same_identity s u"
  by (simp add: same_identity_def)

lemma touch_run:
  "touch E x w = (Inr (), w\<lparr>heap := (heap w)(x := (heap w x)\<lparr>updated_at := time_at E (ticks w)\<rparr>),
                           ticks := Suc (ticks w)\<rparr>)"
  by (simp add: touch_def py_simps)

lemma transition_run:
  "transition E x s d w =
     (Inr (), w\<lparr>heap := (heap w)(x := (heap w x)\<lparr>status := s, status_detail := d,
                                       updated_at := time_at E (ticks w)\<rparr>),
                ticks := Suc (ticks w)\<rparr>)"
  by (simp add: transition_def touch_run py_simps)

lemma new_task_run:
  "new_task E p r wd cj w =
     (Inr (next_obj w),
      w\<lparr>heap := (heap w)(next_obj w :=
          \<lparr>task_id = uuid_at E (ticks w), project_name = p, requirement = r, work_dir = wd,
           config_json = cj, mode = UNKNOWN, status = PENDING, created_at = time_at E (Suc (ticks w)),
           updated_at = time_at E (Suc (Suc (ticks w))), retry_count = 0, status_detail = []\<rparr>),
        next_obj := Suc (next_obj w), ticks := Suc (Suc (Suc (ticks w)))\<rparr>)"
  by (simp add: new_task_def py_simps)

lemma model_dump_json_run [simp]: "model_dump_json E x w = (Inr (enc E (heap w x)), w)"
  by (simp add: model_dump_json_def py_simps)

context deployment
begin

text \<open>Reading back the text of a task allocates an object equal to it.\<close>

lemma model_validate_enc [simp]: "model_validate_json E (enc E t) = alloc t"
  by (simp add: model_validate_json_def enc_def loads_dumps wf_task_to_json
      pydantic_scalars_axioms task_of_json_to_json)

lemma enc_inject [simp]: "enc E s = enc E t \<longleftrightarrow> s = t"
proof
  assume "enc E s = enc E t"
  then have "(alloc s :: ('r, obj) prog) = alloc t"
    by (metis model_validate_enc)
  then have "alloc s w = alloc t w" for w :: "'r world"
    by simp
  then have "(heap (snd (alloc s w))) (next_obj w) = (heap (snd (alloc t w))) (next_obj w)"
    for w :: "'r world"
    by simp
  then show "s = t" by (simp add: alloc_def)
qed simp

end

section \<open>Properties\<close>

text \<open>C30: a stored task survives. The JSON text of a task is read back as a new object equal to it,
  and reading it draws no id and no time.\<close>

theorem task_json_roundtrip:
  assumes "deployment E view"
  shows "model_validate_json E (enc E t) w
    = (Inr (next_obj w), w\<lparr>heap := (heap w)(next_obj w := t), next_obj := Suc (next_obj w)\<rparr>)"
  by (simp add: deployment.model_validate_enc [OF assms] alloc_def)

theorem task_json_roundtrip_witness:
  "fst (model_validate_json mem_env (enc mem_env no_task) start_world) = Inr 1"
  unfolding task_json_roundtrip [OF memory.deployment_axioms] by simp

text \<open>records written before \<open>work_dir\<close> and \<open>config_json\<close> existed are still read: any JSON text of
  a task's fields without these two gives the task with both empty.\<close>

theorem old_records_readable:
  assumes "deployment E view"
    and "loads E raw = Some (JObj (filter (\<lambda>p. fst p \<noteq> ''work_dir'' \<and> fst p \<noteq> ''config_json'')
           (case task_to_json (pyd E) t of JObj m \<Rightarrow> m | _ \<Rightarrow> [])))"
  shows "model_validate_json E raw w
    = (Inr (next_obj w), w\<lparr>heap := (heap w)(next_obj w := t\<lparr>work_dir := [], config_json := []\<rparr>),
                           next_obj := Suc (next_obj w)\<rparr>)"
proof -
  have P: "pydantic_scalars (pyd E)"
    using assms(1) by (simp add: deployment_def)
  show ?thesis
    by (cases t) (simp add: model_validate_json_def assms(2) task_to_json_def task_of_json_def
        model_field_def pydantic_scalars.as_str_JStr [OF P] pydantic_scalars.as_int_JInt [OF P]
        pydantic_scalars.as_datetime_of [OF P] as_mode_def as_status_def alloc_def)
qed

definition old_record :: json where
  "old_record =
     JObj (filter (\<lambda>p. fst p \<noteq> ''work_dir'' \<and> fst p \<noteq> ''config_json'')
       (case task_to_json strict_pydantic no_task of JObj m \<Rightarrow> m | _ \<Rightarrow> []))"

theorem old_records_readable_witness:
  "fst (model_validate_json mem_env (json_dumps old_record) start_world) = Inr 1"
proof -
  have "wf_json old_record"
    by (simp add: old_record_def task_to_json_def strict_pydantic_def)
  then have "loads mem_env (json_dumps old_record) = Some old_record"
    by (simp add: json_loads_dumps)
  then show ?thesis
    using old_records_readable [OF memory.deployment_axioms, of "json_dumps old_record" no_task]
    by (simp add: old_record_def)
qed

end
