(* ===== verification/Store.thy ===== *)
theory Store
  imports Tasks
begin

text \<open>
  The Redis-backed task store (\<open>src/task_queue/store.py\<close>) and queue (\<open>src/task_queue/queue.py\<close>):
  their keys, every operation, and the invariant of the keyspace they maintain. A stored record is
  the JSON text of a task under its id; the project set lists the ids of a project; a digest key
  names a task that is not finished.
\<close>

section \<open>Keys\<close>

definition task_key :: "string \<Rightarrow> string" where
  "task_key i = ''cio:task:'' @ i"

definition project_tasks_key :: "string \<Rightarrow> string" where
  "project_tasks_key p = ''cio:project:'' @ p @ '':tasks''"

definition digest_of :: "'r env \<Rightarrow> string \<Rightarrow> string \<Rightarrow> string" where
  "digest_of E p r = sha256 E (p @ [char_of (0::nat)] @ r)"

definition digest_entry :: "string \<Rightarrow> string" where
  "digest_entry h = ''cio:task:digest:'' @ h"

definition digest_key :: "'r env \<Rightarrow> string \<Rightarrow> string \<Rightarrow> string" where
  "digest_key E p r = digest_entry (digest_of E p r)"

definition queue_key :: string where
  "queue_key = ''cio:queue:tasks''"

section \<open>The store\<close>

definition task_exists :: "string \<Rightarrow> exn" where
  "task_exists i = ValueError (''Task '' @ py_repr i @ '' already exists'')"

definition store_save :: "'r env \<Rightarrow> obj \<Rightarrow> ('r, unit) prog" where
  "store_save E x =
     py_then get_redis
       (py_bind (load x) (\<lambda>t.
        py_bind (model_dump_json E x) (\<lambda>payload.
        py_bind (on_redis (r_set (redis E) (task_key (task_id t)) payload True None)) (\<lambda>set_result.
          if \<not> set_result then py_raise (task_exists (task_id t))
          else
            py_then (on_redis (r_sadd (redis E) (project_tasks_key (project_name t)) (task_id t)))
              (if requirement t \<noteq> []
               then py_then (on_redis (r_set (redis E) (digest_key E (project_name t) (requirement t))
                       (task_id t) False None)) (py_return ())
               else py_return ())))))"

definition async_update :: "'r env \<Rightarrow> obj \<Rightarrow> ('r, unit) prog" where
  "async_update E x =
     py_then get_redis
       (py_bind (load x) (\<lambda>t.
        py_bind (model_dump_json E x) (\<lambda>payload.
        py_then (on_redis (r_set (redis E) (task_key (task_id t)) payload False None))
          (if is_terminal t \<and> requirement t \<noteq> []
           then py_then (on_redis (r_delete (redis E)
                   (digest_key E (project_name t) (requirement t)))) (py_return ())
           else py_return ()))))"

definition store_get :: "'r env \<Rightarrow> string \<Rightarrow> ('r, obj option) prog" where
  "store_get E i =
     py_then get_redis
       (py_bind (on_redis (r_get (redis E) (task_key i))) (\<lambda>raw.
          case raw of
            None \<Rightarrow> py_return None
          | Some s \<Rightarrow> py_bind (model_validate_json E s) (\<lambda>x. py_return (Some x))))"

text \<open>The loop over the pipeline's answers: a missing record is skipped, one that does not parse is
  logged and skipped.\<close>

fun parse_tasks :: "'r env \<Rightarrow> string option list \<Rightarrow> ('r, obj list) prog" where
  "parse_tasks E [] = py_return []"
| "parse_tasks E (None # raws) = parse_tasks E raws"
| "parse_tasks E (Some raw # raws) =
     py_bind
       (py_try (py_bind (model_validate_json E raw) (\<lambda>x. py_return [x]))
          (\<lambda>e. if is_Exception e then py_return [] else py_raise e))
       (\<lambda>xs. py_bind (parse_tasks E raws) (\<lambda>ys. py_return (xs @ ys)))"

definition pipe_get :: "'r env \<Rightarrow> string \<Rightarrow> ('r, string option) prog" where
  "pipe_get E i = on_redis (r_get (redis E) (task_key i))"

definition list_by_project :: "'r env \<Rightarrow> string \<Rightarrow> ('r, obj list) prog" where
  "list_by_project E p =
     py_then get_redis
       (py_bind (on_redis (r_smembers (redis E) (project_tasks_key p))) (\<lambda>task_ids.
          if task_ids = [] then py_return []
          else
            py_bind (py_collect (pipe_get E) task_ids) (parse_tasks E)))"

definition has_running_task :: "'r env \<Rightarrow> string \<Rightarrow> ('r, bool) prog" where
  "has_running_task E p =
     py_bind (list_by_project E p) (\<lambda>xs.
       py_get (\<lambda>w. \<exists>x \<in> set xs. status (heap w x) = RUNNING))"

definition find_incomplete :: "'r env \<Rightarrow> string \<Rightarrow> ('r, obj option) prog" where
  "find_incomplete E p =
     py_bind (list_by_project E p) (\<lambda>xs.
       py_get (\<lambda>w. find (\<lambda>x. is_incomplete (heap w x)) xs))"

definition find_by_digest :: "'r env \<Rightarrow> string \<Rightarrow> string \<Rightarrow> ('r, obj option) prog" where
  "find_by_digest E p r =
     py_then get_redis
       (py_bind (on_redis (r_get (redis E) (digest_key E p r))) (\<lambda>task_id.
          case task_id of
            None \<Rightarrow> py_return None
          | Some i \<Rightarrow> store_get E i))"

section \<open>The queue\<close>

definition enqueue :: "'r env \<Rightarrow> obj \<Rightarrow> ('r, unit) prog" where
  "enqueue E x =
     py_then get_redis
       (py_bind (model_dump_json E x) (\<lambda>payload.
        py_then (on_redis (r_lpush (redis E) queue_key payload)) (py_return ())))"

definition dequeue :: "'r env \<Rightarrow> rat \<Rightarrow> ('r, obj option) prog" where
  "dequeue E timeout =
     py_then get_redis
       (py_bind (on_redis (r_brpop (redis E) queue_key \<lfloor>max 1 timeout\<rfloor>)) (\<lambda>result.
          case result of
            None \<Rightarrow> py_return None
          | Some (k, raw) \<Rightarrow>
              py_try (py_bind (model_validate_json E raw) (\<lambda>x. py_return (Some x)))
                (\<lambda>e. if is_Exception e then py_return None else py_raise e)))"

definition qsize :: "'r env \<Rightarrow> ('r, nat) prog" where
  "qsize E = py_then get_redis (on_redis (r_llen (redis E) queue_key))"

lemmas store_defs = store_save_def async_update_def store_get_def list_by_project_def
  has_running_task_def find_incomplete_def find_by_digest_def enqueue_def dequeue_def qsize_def

section \<open>Which keys differ\<close>

lemma task_key_inject [simp]: "task_key i = task_key j \<longleftrightarrow> i = j"
  by (simp add: task_key_def)

lemma project_tasks_key_inject [simp]: "project_tasks_key p = project_tasks_key q \<longleftrightarrow> p = q"
  by (simp add: project_tasks_key_def)

lemma digest_entry_inject [simp]: "digest_entry h = digest_entry h' \<longleftrightarrow> h = h'"
  by (simp add: digest_entry_def)

lemma store_keys_differ [simp]:
  "task_key i \<noteq> project_tasks_key p" "project_tasks_key p \<noteq> task_key i"
  "task_key i \<noteq> queue_key" "queue_key \<noteq> task_key i"
  "project_tasks_key p \<noteq> queue_key" "queue_key \<noteq> project_tasks_key p"
  "digest_entry h \<noteq> project_tasks_key p" "project_tasks_key p \<noteq> digest_entry h"
  "digest_entry h \<noteq> queue_key" "queue_key \<noteq> digest_entry h"
  by (simp_all add: task_key_def project_tasks_key_def queue_key_def digest_entry_def)

lemma hex32_not_digest: "hex32 i \<Longrightarrow> i \<noteq> ''digest:'' @ h"
  by (auto simp: hex32_def hex_chars_def)

lemma task_key_digest_entry [simp]:
  assumes "hex32 i"
  shows "task_key i \<noteq> digest_entry h" "digest_entry h \<noteq> task_key i"
  using hex32_not_digest [OF assms] by (auto simp: task_key_def digest_entry_def)

lemma digest_key_differs [simp]:
  "digest_key E q r \<noteq> project_tasks_key p" "project_tasks_key p \<noteq> digest_key E q r"
  "digest_key E q r \<noteq> queue_key" "queue_key \<noteq> digest_key E q r"
  "hex32 i \<Longrightarrow> task_key i \<noteq> digest_key E p r" "hex32 i \<Longrightarrow> digest_key E p r \<noteq> task_key i"
  by (simp_all add: digest_key_def)

end
