(* ===== verification/Store_Invariant.thy ===== *)
theory Store_Invariant
  imports Store
begin

text \<open>
  The keyspace invariant of the task store and queue, and what every operation of theory \<open>Store\<close>
  returns and does to it: saving, updating, reading back, listing a project, the two lookups that
  deduplicate, and the queue.
\<close>

section \<open>The invariant\<close>

definition holds :: "'r env \<Rightarrow> keyspace \<Rightarrow> string \<Rightarrow> task \<Rightarrow> bool" where
  "holds E K i t = (ks_keys K (task_key i) = Some (RStr (enc E t)))"

definition members :: "keyspace \<Rightarrow> string \<Rightarrow> string set" where
  "members K p = (case ks_keys K (project_tasks_key p) of Some (RSet xs) \<Rightarrow> set xs | _ \<Rightarrow> {})"

text \<open>Records: under an id is a task with that id, and the id is in the set of its project.\<close>

definition records_inv :: "'r env \<Rightarrow> keyspace \<Rightarrow> bool" where
  "records_inv E K =
     (\<forall>i. hex32 i \<longrightarrow> ks_keys K (task_key i) \<noteq> None \<longrightarrow>
        (\<exists>t. holds E K i t \<and> task_id t = i \<and> i \<in> members K (project_name t)))"

text \<open>Project sets: sets of ids of stored tasks of the project.\<close>

definition projects_inv :: "'r env \<Rightarrow> keyspace \<Rightarrow> bool" where
  "projects_inv E K =
     ((\<forall>p v. ks_keys K (project_tasks_key p) = Some v \<longrightarrow> (\<exists>xs. v = RSet xs))
      \<and> (\<forall>p. \<forall>i \<in> members K p. hex32 i \<and> (\<exists>t. holds E K i t \<and> project_name t = p)))"

text \<open>Digest keys: each names a stored task with a requirement that is not finished.\<close>

definition live_digest :: "'r env \<Rightarrow> keyspace \<Rightarrow> string \<Rightarrow> rval \<Rightarrow> bool" where
  "live_digest E K h v =
     (\<exists>i t. v = RStr i \<and> hex32 i \<and> holds E K i t \<and> requirement t \<noteq> [] \<and> \<not> is_terminal t
        \<and> h = digest_of E (project_name t) (requirement t))"

definition digests_inv :: "'r env \<Rightarrow> keyspace \<Rightarrow> bool" where
  "digests_inv E K = (\<forall>h v. ks_keys K (digest_entry h) = Some v \<longrightarrow> live_digest E K h v)"

text \<open>The queue: its payloads, the next one to pop last, are snapshots of stored tasks.\<close>

definition queue_of :: "keyspace \<Rightarrow> string list" where
  "queue_of K = (case ks_keys K queue_key of Some (RList xs) \<Rightarrow> xs | _ \<Rightarrow> [])"

definition snapshot :: "'r env \<Rightarrow> keyspace \<Rightarrow> string \<Rightarrow> bool" where
  "snapshot E K s =
     (\<exists>t t'. s = enc E t \<and> hex32 (task_id t) \<and> holds E K (task_id t) t' \<and> same_identity t t')"

definition queue_inv :: "'r env \<Rightarrow> keyspace \<Rightarrow> bool" where
  "queue_inv E K =
     ((\<forall>v. ks_keys K queue_key = Some v \<longrightarrow> v = RList (queue_of K))
      \<and> (\<forall>s \<in> set (queue_of K). snapshot E K s))"

definition store_inv :: "'r env \<Rightarrow> keyspace \<Rightarrow> bool" where
  "store_inv E K = (records_inv E K \<and> projects_inv E K \<and> digests_inv E K \<and> queue_inv E K)"

lemmas store_inv_defs = store_inv_def records_inv_def projects_inv_def digests_inv_def queue_inv_def

section \<open>The effect of the writes on the keyspace\<close>

definition ks_put :: "string \<Rightarrow> rval \<Rightarrow> keyspace \<Rightarrow> keyspace" where
  "ks_put k v K = K\<lparr>ks_keys := (ks_keys K)(k \<mapsto> v), ks_ttl := (ks_ttl K)(k := None)\<rparr>"

lemma ks_put_sel [simp]:
  "ks_keys (ks_put k v K) = (ks_keys K)(k \<mapsto> v)" "ks_pub (ks_put k v K) = ks_pub K"
  "ks_keys (ks_remove k K) = (ks_keys K)(k := None)" "ks_pub (ks_remove k K) = ks_pub K"
  by (simp_all add: ks_put_def ks_remove_def)

lemma cmd_set_put:
  "cmd_set k v nx None K =
     (if nx \<and> ks_keys K k \<noteq> None then (Inr False, K) else (Inr True, ks_put k (RStr v) K))"
  by (simp add: cmd_set_def ks_put_def)

definition saved :: "'r env \<Rightarrow> task \<Rightarrow> keyspace \<Rightarrow> keyspace" where
  "saved E t K =
     (let K1 = ks_put (task_key (task_id t)) (RStr (enc E t)) K;
          K2 = snd (cmd_sadd (project_tasks_key (project_name t)) (task_id t) K1)
      in if requirement t \<noteq> []
         then ks_put (digest_key E (project_name t) (requirement t)) (RStr (task_id t)) K2 else K2)"

definition updated :: "'r env \<Rightarrow> task \<Rightarrow> keyspace \<Rightarrow> keyspace" where
  "updated E t K =
     (let K1 = ks_put (task_key (task_id t)) (RStr (enc E t)) K
      in if is_terminal t \<and> requirement t \<noteq> []
         then ks_remove (digest_key E (project_name t) (requirement t)) K1 else K1)"

definition queued :: "'r env \<Rightarrow> task \<Rightarrow> keyspace \<Rightarrow> keyspace" where
  "queued E t K =
     K\<lparr>ks_keys := (ks_keys K)(queue_key \<mapsto> RList (enc E t # queue_of K))\<rparr>"

lemma redis_only_store_ops [redis_only_intros]:
  "redis_only (store_save E x)" "redis_only (async_update E x)" "redis_only (enqueue E x)"
  "redis_only (model_dump_json E x)"
  unfolding store_defs model_dump_json_def by (intro redis_only_intros)+

lemmas store_op_frame [simp] =
  redis_only_frame [OF redis_only_store_ops(1)] redis_only_frame [OF redis_only_store_ops(2)]
  redis_only_frame [OF redis_only_store_ops(3)]

text \<open>Under the invariant a project key holds a set or nothing.\<close>

lemma project_key_cases:
  assumes "projects_inv E K"
  obtains (absent) "ks_keys K (project_tasks_key p) = None" "members K p = {}"
  | (present) xs where "ks_keys K (project_tasks_key p) = Some (RSet xs)" "members K p = set xs"
proof (cases "ks_keys K (project_tasks_key p)")
  case None
  then show thesis by (intro absent) (simp_all add: members_def)
next
  case (Some v)
  with assms obtain xs where "v = RSet xs" by (auto simp: projects_inv_def)
  with Some show thesis by (intro present) (simp_all add: members_def)
qed

lemma queue_key_cases:
  assumes "queue_inv E K"
  obtains (no_queue) "ks_keys K queue_key = None" "queue_of K = []"
  | (queue) xs where "ks_keys K queue_key = Some (RList xs)" "queue_of K = xs"
proof (cases "ks_keys K queue_key")
  case None
  then show thesis by (intro no_queue) (simp_all add: queue_of_def)
next
  case (Some v)
  with assms have "v = RList (queue_of K)" by (simp add: queue_inv_def)
  with Some show thesis by (intro queue [of "queue_of K"]) simp_all
qed

lemma saved_keys:
  assumes "projects_inv E K"
  shows "\<exists>xs. set xs = insert (task_id t) (members K (project_name t))
    \<and> ks_keys (saved E t K) =
        (if requirement t \<noteq> []
         then (ks_keys K)(task_key (task_id t) \<mapsto> RStr (enc E t),
                project_tasks_key (project_name t) \<mapsto> RSet xs,
                digest_key E (project_name t) (requirement t) \<mapsto> RStr (task_id t))
         else (ks_keys K)(task_key (task_id t) \<mapsto> RStr (enc E t),
                project_tasks_key (project_name t) \<mapsto> RSet xs))"
  using assms
proof (cases rule: project_key_cases [where p = "project_name t"])
  case absent
  then show ?thesis
    by (intro exI [of _ "[task_id t]"]) (simp add: saved_def Let_def cmd_sadd_def)
next
  case (present xs)
  then show ?thesis
    by (intro exI [of _ "List.insert (task_id t) xs"]) (simp add: saved_def Let_def cmd_sadd_def)
qed

lemma updated_keys:
  "ks_keys (updated E t K) =
     (if is_terminal t \<and> requirement t \<noteq> []
      then (ks_keys K)(task_key (task_id t) \<mapsto> RStr (enc E t),
             digest_key E (project_name t) (requirement t) := None)
      else (ks_keys K)(task_key (task_id t) \<mapsto> RStr (enc E t)))"
  by (simp add: updated_def Let_def)

lemma queued_keys: "ks_keys (queued E t K) = (ks_keys K)(queue_key \<mapsto> RList (enc E t # queue_of K))"
  by (simp add: queued_def)

lemma write_pub [simp]:
  "ks_pub (saved E t K) = ks_pub K" "ks_pub (updated E t K) = ks_pub K"
  "ks_pub (queued E t K) = ks_pub K"
  by (auto simp: saved_def updated_def queued_def Let_def cmd_sadd_def split: option.split rval.split)

section \<open>What the operations return\<close>

context deployment
begin

lemma store_save_run:
  assumes "client_ready w" "projects_inv E (view (svc w))"
  shows "ks_keys (view (svc w)) (task_key (task_id (heap w x))) = None \<Longrightarrow>
      fst (store_save E x w) = Inr ()
      \<and> view (svc (snd (store_save E x w))) = saved E (heap w x) (view (svc w))"
    and "ks_keys (view (svc w)) (task_key (task_id (heap w x))) \<noteq> None \<Longrightarrow>
      fst (store_save E x w) = Inl (task_exists (task_id (heap w x)))
      \<and> view (svc (snd (store_save E x w))) = view (svc w)"
  using assms
  by (cases rule: project_key_cases [OF assms(2), of "project_name (heap w x)"];
      auto simp: store_save_def py_simps cmd_set_put saved_def Let_def cmd_sadd_def)+

lemma async_update_run:
  assumes "client_ready w"
  shows "fst (async_update E x w) = Inr ()"
    and "view (svc (snd (async_update E x w))) = updated E (heap w x) (view (svc w))"
  using assms
  by (auto simp: async_update_def py_simps cmd_set_put cmd_delete_def updated_def Let_def)

lemma enqueue_run:
  assumes "client_ready w" "queue_inv E (view (svc w))"
  shows "fst (enqueue E x w) = Inr ()"
    and "view (svc (snd (enqueue E x w))) = queued E (heap w x) (view (svc w))"
  using assms
  by (cases rule: queue_key_cases [OF assms(2)]; simp add: enqueue_def py_simps cmd_lpush_def queued_def)+

text \<open>\<open>brpop\<close> and parsing: the oldest snapshot becomes a new object.\<close>

lemma dequeue_run:
  assumes "client_ready w" "queue_inv E (view (svc w))"
  shows "queue_of (view (svc w)) = [] \<Longrightarrow> fst (dequeue E timeout w) = Inr None
      \<and> view (svc (snd (dequeue E timeout w))) = view (svc w)
      \<and> heap (snd (dequeue E timeout w)) = heap w"
    and "queue_of (view (svc w)) = q @ [enc E t] \<Longrightarrow> fst (dequeue E timeout w) = Inr (Some (next_obj w))
      \<and> heap (snd (dequeue E timeout w)) = (heap w)(next_obj w := t)
      \<and> next_obj (snd (dequeue E timeout w)) = Suc (next_obj w)
      \<and> client_ready (snd (dequeue E timeout w)) \<and> pending (snd (dequeue E timeout w)) = pending w
      \<and> engine_cache (snd (dequeue E timeout w)) = engine_cache w
      \<and> queue_of (view (svc (snd (dequeue E timeout w)))) = q
      \<and> (\<forall>k. k \<noteq> queue_key \<longrightarrow> ks_keys (view (svc (snd (dequeue E timeout w)))) k
            = ks_keys (view (svc w)) k)"
  using assms
  by (cases rule: queue_key_cases [OF assms(2)];
      auto simp: dequeue_def py_simps cmd_brpop_def queue_of_def ks_remove_def split: if_splits)+

lemma qsize_run:
  assumes "client_ready w" "queue_inv E (view (svc w))"
  shows "fst (qsize E w) = Inr (length (queue_of (view (svc w))))"
  using assms
  by (cases rule: queue_key_cases [OF assms(2)]; simp add: qsize_def py_simps cmd_llen_def)

lemma store_get_run:
  assumes "client_ready w"
  shows "holds E (view (svc w)) i t \<Longrightarrow> fst (store_get E i w) = Inr (Some (next_obj w))
      \<and> heap (snd (store_get E i w)) = (heap w)(next_obj w := t)
      \<and> view (svc (snd (store_get E i w))) = view (svc w)"
    and "ks_keys (view (svc w)) (task_key i) = None \<Longrightarrow>
      fst (store_get E i w) = Inr None \<and> heap (snd (store_get E i w)) = heap w
      \<and> view (svc (snd (store_get E i w))) = view (svc w)"
  using assms by (simp_all add: store_get_def py_simps cmd_get_def holds_def)

end

section \<open>The invariant is kept\<close>

lemma holds_unique:
  "deployment E view \<Longrightarrow> holds E K i t \<Longrightarrow> holds E K i t' \<Longrightarrow> t = t'"
  by (simp add: holds_def deployment.enc_inject)

lemma store_inv_empty: "ks_keys K = (\<lambda>_. None) \<Longrightarrow> store_inv E K"
  by (simp add: store_inv_defs members_def queue_of_def)

lemma records_invD:
  "store_inv E K \<Longrightarrow> hex32 i \<Longrightarrow> holds E K i t \<Longrightarrow>
    \<exists>u. holds E K i u \<and> task_id u = i \<and> i \<in> members K (project_name u)"
  unfolding store_inv_def records_inv_def holds_def by blast

lemma projects_inv_memberD:
  "projects_inv E K \<Longrightarrow> i \<in> members K p \<Longrightarrow> hex32 i \<and> (\<exists>t. holds E K i t \<and> project_name t = p)"
  unfolding projects_inv_def by blast

lemma projects_invD:
  "store_inv E K \<Longrightarrow> i \<in> members K p \<Longrightarrow> hex32 i \<and> (\<exists>t. holds E K i t \<and> project_name t = p)"
  unfolding store_inv_def by (blast dest: projects_inv_memberD)

text \<open>A write that carries every stored task over, at most in a later state, keeps what the invariant
  says of the other tasks.\<close>

definition carries :: "'r env \<Rightarrow> keyspace \<Rightarrow> keyspace \<Rightarrow> bool" where
  "carries E K K' =
     (\<forall>i u. hex32 i \<longrightarrow> holds E K i u \<longrightarrow> (\<exists>u'. holds E K' i u' \<and> same_identity u u'))"

lemma carriesD:
  "carries E K K' \<Longrightarrow> hex32 i \<Longrightarrow> holds E K i u \<Longrightarrow> \<exists>u'. holds E K' i u' \<and> same_identity u u'"
  unfolding carries_def by blast

lemma records_carried:
  assumes "records_inv E K" "carries E K K'" "\<And>p. members K p \<subseteq> members K' p"
    and "\<And>i. hex32 i \<Longrightarrow> ks_keys K' (task_key i) \<noteq> None \<Longrightarrow> ks_keys K (task_key i) = None \<Longrightarrow>
      \<exists>u. holds E K' i u \<and> task_id u = i \<and> i \<in> members K' (project_name u)"
  shows "records_inv E K'"
  unfolding records_inv_def
proof (intro allI impI)
  fix i assume i: "hex32 i" "ks_keys K' (task_key i) \<noteq> None"
  show "\<exists>u. holds E K' i u \<and> task_id u = i \<and> i \<in> members K' (project_name u)"
  proof (cases "ks_keys K (task_key i)")
    case None
    with assms(4) i show ?thesis by blast
  next
    case (Some v)
    with assms(1) i(1) obtain u where u: "holds E K i u" "task_id u = i" "i \<in> members K (project_name u)"
      by (auto simp: records_inv_def)
    obtain u' where u': "holds E K' i u'" "same_identity u u'"
      using carriesD [OF assms(2) i(1) u(1)] by blast
    with u(2,3) assms(3) have "task_id u' = i" "i \<in> members K' (project_name u')"
      by (auto simp: same_identity_def)
    with u'(1) show ?thesis by blast
  qed
qed

lemma projects_carried:
  assumes "projects_inv E K" "carries E K K'"
    and "\<And>p v. ks_keys K' (project_tasks_key p) = Some v \<Longrightarrow> \<exists>xs. v = RSet xs"
    and "\<And>p i. i \<in> members K' p \<Longrightarrow> i \<notin> members K p \<Longrightarrow>
      hex32 i \<and> (\<exists>u. holds E K' i u \<and> project_name u = p)"
  shows "projects_inv E K'"
proof -
  have "hex32 i \<and> (\<exists>u. holds E K' i u \<and> project_name u = p)" if "i \<in> members K' p" for p i
  proof (cases "i \<in> members K p")
    case True
    with assms(1) obtain u where u: "hex32 i" "holds E K i u" "project_name u = p"
      unfolding projects_inv_def by blast
    from carriesD [OF assms(2) u(1,2)] u show ?thesis by (auto simp: same_identity_def)
  qed (use assms(4) that in blast)
  with assms(3) show ?thesis by (simp add: projects_inv_def)
qed

lemma snapshot_carried:
  assumes "snapshot E K s" "carries E K K'"
  shows "snapshot E K' s"
proof -
  obtain u u' where u: "s = enc E u" "hex32 (task_id u)" "holds E K (task_id u) u'" "same_identity u u'"
    using assms(1) by (auto simp: snapshot_def)
  obtain v where v: "holds E K' (task_id u) v" "same_identity u' v"
    using carriesD [OF assms(2) u(2,3)] by blast
  show ?thesis
    unfolding snapshot_def
    by (intro exI [of _ u] exI [of _ v] conjI u v same_identity_trans [OF u(4) v(2)])
qed

lemma queue_carried:
  assumes "queue_inv E K" "carries E K K'" "ks_keys K' queue_key = ks_keys K queue_key"
  shows "queue_inv E K'"
proof -
  have "queue_of K' = queue_of K" using assms(3) by (simp add: queue_of_def)
  with assms snapshot_carried [OF _ assms(2)] show ?thesis by (simp add: queue_inv_def)
qed

context deployment
begin

lemma saved_carries:
  assumes "projects_inv E K" "hex32 (task_id t)" "ks_keys K (task_key (task_id t)) = None"
  shows "carries E K (saved E t K)"
    and "queue_inv E K \<Longrightarrow> queue_inv E (saved E t K)"
proof -
  obtain xs where keys: "ks_keys (saved E t K) =
        (if requirement t \<noteq> []
         then (ks_keys K)(task_key (task_id t) \<mapsto> RStr (enc E t),
                project_tasks_key (project_name t) \<mapsto> RSet xs,
                digest_key E (project_name t) (requirement t) \<mapsto> RStr (task_id t))
         else (ks_keys K)(task_key (task_id t) \<mapsto> RStr (enc E t),
                project_tasks_key (project_name t) \<mapsto> RSet xs))"
    using saved_keys [OF assms(1)] by blast
  have "holds E (saved E t K) i u" if "hex32 i" "holds E K i u" for i u
    using keys that assms(2,3) by (auto simp: holds_def)
  then show carried: "carries E K (saved E t K)"
    unfolding carries_def using same_identity_refl by blast
  show "queue_inv E (saved E t K)" if "queue_inv E K"
    by (rule queue_carried [OF that carried]) (use keys in simp)
qed

lemma saved_inv:
  assumes inv: "store_inv E K" and hex: "hex32 (task_id t)"
    and fresh: "ks_keys K (task_key (task_id t)) = None" and live: "\<not> is_terminal t"
  shows "store_inv E (saved E t K)"
proof -
  let ?K = "saved E t K" and ?i = "task_id t"
  have parts: "records_inv E K" "projects_inv E K" "digests_inv E K" "queue_inv E K"
    using inv by (simp_all add: store_inv_def)
  obtain xs where xs: "set xs = insert ?i (members K (project_name t))"
    and keys: "ks_keys ?K =
        (if requirement t \<noteq> []
         then (ks_keys K)(task_key ?i \<mapsto> RStr (enc E t), project_tasks_key (project_name t) \<mapsto> RSet xs,
                digest_key E (project_name t) (requirement t) \<mapsto> RStr ?i)
         else (ks_keys K)(task_key ?i \<mapsto> RStr (enc E t), project_tasks_key (project_name t) \<mapsto> RSet xs))"
    using saved_keys [OF parts(2)] by blast
  have mem: "members ?K p = (if p = project_name t then insert ?i (members K p) else members K p)" for p
    using keys xs by (simp add: members_def)
  have old: "holds E ?K i u = (if i = ?i then u = t else holds E K i u)" if "hex32 i" for i u
    using keys that by (auto simp: holds_def)
  have keep: "holds E ?K i u" if "hex32 i" "holds E K i u" for i u
    using old that fresh by (auto simp: holds_def)
  have new: "holds E ?K ?i t" using old hex by simp
  have carried: "carries E K ?K" by (rule saved_carries(1) [OF parts(2) hex fresh])
  have "records_inv E ?K"
    by (rule records_carried [OF parts(1) carried]) (use keys new mem in \<open>auto split: if_splits\<close>)
  moreover have "projects_inv E ?K"
    by (rule projects_carried [OF parts(2) carried])
      (use keys parts(2) hex new mem in \<open>auto simp: projects_inv_def split: if_splits\<close>)
  moreover have "live_digest E ?K h v" if v: "ks_keys ?K (digest_entry h) = Some v" for h v
  proof (cases "requirement t \<noteq> [] \<and> h = digest_of E (project_name t) (requirement t)")
    case True
    with v keys hex live new show ?thesis by (auto simp: live_digest_def digest_key_def)
  next
    case False
    with v keys hex have "ks_keys K (digest_entry h) = Some v"
      by (auto simp: digest_key_def split: if_splits)
    with parts(3) keep show ?thesis unfolding digests_inv_def live_digest_def by blast
  qed
  moreover have "queue_inv E ?K"
    by (rule saved_carries(2) [OF parts(2) hex fresh parts(4)])
  ultimately show ?thesis by (simp add: store_inv_def digests_inv_def)
qed

text \<open>An update writes a task over an older state of itself.\<close>

lemma updated_inv:
  assumes inv: "store_inv E K" and hex: "hex32 (task_id t)"
    and prev: "holds E K (task_id t) t'" and same: "same_identity t t'"
  shows "store_inv E (updated E t K)"
proof -
  let ?K = "updated E t K" and ?i = "task_id t"
  have parts: "records_inv E K" "projects_inv E K" "digests_inv E K" "queue_inv E K"
    using inv by (simp_all add: store_inv_def)
  have mem: "members ?K p = members K p" for p
    by (simp add: members_def updated_keys)
  have old: "holds E ?K i u = (if i = ?i then u = t else holds E K i u)" if "hex32 i" for i u
    using that by (auto simp: holds_def updated_keys)
  have new: "holds E ?K ?i t" using old hex by simp
  have is_prev: "u = t'" if "holds E K ?i u" for u using that prev by (simp add: holds_def)
  have carried: "carries E K ?K"
    unfolding carries_def using old is_prev same_identity_refl same_identity_sym [OF same] by metis
  have "records_inv E ?K"
    by (rule records_carried [OF parts(1) carried])
      (use prev mem in \<open>auto simp: holds_def updated_keys split: if_splits\<close>)
  moreover have "projects_inv E ?K"
    by (rule projects_carried [OF parts(2) carried])
      (use parts(2) mem in \<open>auto simp: projects_inv_def updated_keys split: if_splits\<close>)
  moreover have "live_digest E ?K h v" if v: "ks_keys ?K (digest_entry h) = Some v" for h v
  proof -
    from v hex have "ks_keys K (digest_entry h) = Some v"
      by (simp add: updated_keys split: if_splits)
    with parts(3) obtain i u where iu: "v = RStr i" "hex32 i" "holds E K i u" "requirement u \<noteq> []"
      "\<not> is_terminal u" "h = digest_of E (project_name u) (requirement u)"
      unfolding digests_inv_def live_digest_def by blast
    show ?thesis
    proof (cases "i = ?i")
      case True
      with iu is_prev same have t: "requirement t \<noteq> []" "h = digest_of E (project_name t) (requirement t)"
        by (auto simp: same_identity_def)
      with v have "\<not> is_terminal t" by (auto simp: updated_keys digest_key_def)
      with iu True t new show ?thesis by (auto simp: live_digest_def)
    next
      case False
      with iu old show ?thesis by (auto simp: live_digest_def)
    qed
  qed
  moreover have "queue_inv E ?K"
    by (rule queue_carried [OF parts(4) carried]) (simp add: updated_keys)
  ultimately show ?thesis by (simp add: store_inv_def digests_inv_def)
qed

lemma queued_inv:
  assumes inv: "store_inv E K" and hex: "hex32 (task_id t)"
    and prev: "holds E K (task_id t) t'" and same: "same_identity t t'"
  shows "store_inv E (queued E t K)"
proof -
  let ?K = "queued E t K"
  have mem: "members ?K p = members K p" for p
    by (simp add: members_def queued_keys)
  have old: "holds E ?K i u = holds E K i u" for i u
    by (simp add: holds_def queued_keys)
  have "records_inv E ?K" "projects_inv E ?K" "digests_inv E ?K"
    using inv by (simp_all add: store_inv_defs live_digest_def mem old queued_keys)
  moreover have "queue_of ?K = enc E t # queue_of K"
    by (simp add: queue_of_def queued_keys)
  then have "queue_inv E ?K"
    using inv hex prev same by (auto simp: store_inv_def queue_inv_def snapshot_def old queued_keys)
  ultimately show ?thesis by (simp add: store_inv_def)
qed

text \<open>Popping a snapshot, or changing any key that is not the store's, keeps the invariant.\<close>

lemma popped_inv:
  assumes inv: "store_inv E K"
    and other: "\<And>k. k \<noteq> queue_key \<Longrightarrow> ks_keys K' k = ks_keys K k"
    and queue: "ks_keys K' queue_key = None \<or> ks_keys K' queue_key = Some (RList (queue_of K'))"
      "set (queue_of K') \<subseteq> set (queue_of K)"
  shows "store_inv E K'"
proof -
  have mem: "members K' p = members K p" for p
    by (simp add: members_def other)
  have old: "holds E K' i u = holds E K i u" for i u
    by (simp add: holds_def other)
  have "records_inv E K'" "projects_inv E K'" "digests_inv E K'"
    using inv by (simp_all add: store_inv_defs live_digest_def mem old other)
  moreover have "queue_inv E K'"
    using inv queue by (auto simp: store_inv_def queue_inv_def snapshot_def old)
  ultimately show ?thesis by (simp add: store_inv_def)
qed

lemma store_inv_cong:
  assumes "store_inv E K"
    and "\<And>i. hex32 i \<Longrightarrow> ks_keys K' (task_key i) = ks_keys K (task_key i)"
    and "\<And>p. ks_keys K' (project_tasks_key p) = ks_keys K (project_tasks_key p)"
    and "\<And>h. ks_keys K' (digest_entry h) = ks_keys K (digest_entry h)"
    and "ks_keys K' queue_key = ks_keys K queue_key"
  shows "store_inv E K'"
proof -
  have mem: "members K' p = members K p" for p
    by (simp add: members_def assms)
  have old: "hex32 i \<Longrightarrow> holds E K' i u = holds E K i u" for i u
    by (simp add: holds_def assms)
  have q: "queue_of K' = queue_of K" by (simp add: queue_of_def assms)
  have "records_inv E K'"
    using assms(1) by (auto simp: store_inv_def records_inv_def mem old assms)
  moreover have "projects_inv E K'"
    using assms(1) by (auto simp: store_inv_def projects_inv_def mem old assms)
  moreover have "digests_inv E K'"
    using assms(1) unfolding store_inv_def digests_inv_def live_digest_def assms(4)
    using old by blast
  moreover have "queue_inv E K'"
    using assms(1) unfolding store_inv_def queue_inv_def snapshot_def assms(5) q
    using old by blast
  ultimately show ?thesis by (simp add: store_inv_def)
qed

end

section \<open>Listing a project and looking for duplicates\<close>

context deployment
begin

lemma parse_tasks_run:
  "\<exists>h. parse_tasks E (map (\<lambda>t. Some (enc E t)) ts) w
      = (Inr [next_obj w..<next_obj w + length ts],
         w\<lparr>heap := h, next_obj := next_obj w + length ts\<rparr>)
    \<and> map h [next_obj w..<next_obj w + length ts] = ts \<and> (\<forall>x < next_obj w. h x = heap w x)"
proof (induction ts arbitrary: w)
  case Nil
  show ?case by (intro exI [of _ "heap w"]) (simp add: py_simps)
next
  case (Cons t ts)
  let ?n = "next_obj w"
  let ?w = "w\<lparr>heap := (heap w)(?n := t), next_obj := Suc ?n\<rparr>"
  obtain h where h: "parse_tasks E (map (\<lambda>t. Some (enc E t)) ts) ?w
      = (Inr [Suc ?n..<Suc ?n + length ts], ?w\<lparr>heap := h, next_obj := Suc ?n + length ts\<rparr>)"
    "map h [Suc ?n..<Suc ?n + length ts] = ts" "\<forall>x < Suc ?n. h x = ((heap w)(?n := t)) x"
    using Cons.IH [of ?w] by auto
  have upt: "[?n..<?n + length (t # ts)] = ?n # [Suc ?n..<Suc ?n + length ts]"
    by (simp add: upt_conv_Cons del: upt_Suc)
  have "h ?n = t" "\<forall>x < ?n. h x = heap w x" using h(3) by simp_all
  moreover have "parse_tasks E (map (\<lambda>t. Some (enc E t)) (t # ts)) w
      = (Inr [?n..<?n + length (t # ts)], w\<lparr>heap := h, next_obj := ?n + length (t # ts)\<rparr>)"
    using h(1) upt by (simp add: py_simps del: upt_Suc)
  ultimately show ?case
    using h(2) upt by (intro exI [of _ h]) (simp del: upt_Suc)
qed

lemma collect_gets:
  assumes "client_ready w" "\<forall>i \<in> set ids. holds E (view (svc w)) i (f i)"
  shows "fst (py_collect (pipe_get E) ids w)
      = Inr (map (\<lambda>i. Some (enc E (f i))) ids)"
    and "extends view w (snd (py_collect (pipe_get E) ids w))"
proof -
  let ?m = "\<lambda>ids. py_collect (pipe_get E) ids :: ('r, _) prog"
  have "fst (?m ids w) = Inr (map (\<lambda>i. Some (enc E (f i))) ids) \<and> extends view w (snd (?m ids w))"
    using assms
  proof (induction ids arbitrary: w)
    case Nil
    show ?case by (simp add: py_simps)
  next
    case (Cons i ids)
    let ?w = "w\<lparr>svc := snd (r_get (redis E) (task_key i) (svc w))\<rparr>"
    have "extends view w ?w" by (simp add: extends_def)
    moreover have "fst (?m ids ?w) = Inr (map (\<lambda>i. Some (enc E (f i))) ids)
        \<and> extends view ?w (snd (?m ids ?w))"
      using Cons.prems by (intro Cons.IH) simp_all
    moreover have "pipe_get E i w = (Inr (Some (enc E (f i))), ?w)"
      using Cons.prems by (simp add: pipe_get_def on_redis_def cmd_get_def holds_def)
    ultimately show ?case
      by (auto simp: py_bind_def py_return_def intro: extends_trans)
  qed
  then show "fst (?m ids w) = Inr (map (\<lambda>i. Some (enc E (f i))) ids)"
    and "extends view w (snd (?m ids w))"
    by simp_all
qed

text \<open>The tasks stored for a project; of the invariant only what it says of the project sets is needed.\<close>

lemma list_by_project_sets:
  assumes "client_ready w" and proj: "projects_inv E (view (svc w))"
  shows "\<exists>xs. fst (list_by_project E p w) = Inr xs
    \<and> extends view w (snd (list_by_project E p w))
    \<and> (\<forall>x \<in> set xs. next_obj w \<le> x)
    \<and> heap (snd (list_by_project E p w)) ` set xs
        = {t. \<exists>i \<in> members (view (svc w)) p. holds E (view (svc w)) i t}"
proof -
  let ?K = "view (svc w)"
  let ?w = "w\<lparr>svc := snd (r_smembers (redis E) (project_tasks_key p) (svc w))\<rparr>"
  have w: "extends view w ?w" by (simp add: extends_def)
  obtain ids where ids: "fst (r_smembers (redis E) (project_tasks_key p) (svc w)) = Inr ids"
    "set ids = members ?K p"
    using proj
  proof (cases rule: project_key_cases [where p = p])
    case absent
    with smembers_none [OF absent(1)] that show thesis by simp
  next
    case (present xs)
    with smembers_set [OF present(1)] that show thesis by auto
  qed
  show ?thesis
  proof (cases "ids = []")
    case True
    with ids w \<open>client_ready w\<close> show ?thesis
      by (auto simp: list_by_project_def py_simps)
  next
    case False
    define f where "f = (\<lambda>i. SOME t. holds E ?K i t)"
    have f: "holds E ?K i (f i)" if "i \<in> members ?K p" for i
    proof -
      from projects_inv_memberD [OF proj that] obtain t where "holds E ?K i t" by blast
      then show ?thesis unfolding f_def by (rule someI)
    qed
    let ?m = "py_collect (pipe_get E) ids :: ('r, _) prog"
    have get: "fst (?m ?w) = Inr (map (\<lambda>i. Some (enc E (f i))) ids)" "extends view ?w (snd (?m ?w))"
      using collect_gets [of ?w ids f] f ids \<open>client_ready w\<close> by simp_all
    let ?v = "snd (?m ?w)" and ?ts = "map f ids"
    obtain h where h: "parse_tasks E (map (\<lambda>t. Some (enc E t)) ?ts) ?v
        = (Inr [next_obj ?v..<next_obj ?v + length ?ts],
           ?v\<lparr>heap := h, next_obj := next_obj ?v + length ?ts\<rparr>)"
      "map h [next_obj ?v..<next_obj ?v + length ?ts] = ?ts" "\<forall>x < next_obj ?v. h x = heap ?v x"
      using parse_tasks_run [of ?ts ?v] by blast
    let ?u = "?v\<lparr>heap := h, next_obj := next_obj ?v + length ?ts\<rparr>"
    have run: "list_by_project E p w = (Inr [next_obj ?v..<next_obj ?v + length ?ts], ?u)"
      using False ids get(1) h(1) \<open>client_ready w\<close>
      by (simp add: list_by_project_def py_simps comp_def)
    have "extends view ?v ?u" using h(3) by (simp add: extends_def)
    with w get(2) have ext: "extends view w ?u" by (blast intro: extends_trans)
    have "h ` set [next_obj ?v..<next_obj ?v + length ?ts] = set ?ts"
      using h(2) by (metis set_map)
    also have "\<dots> = {t. \<exists>i \<in> members ?K p. holds E ?K i t}"
      using f ids(2) by (auto simp: holds_def)
    finally have img: "h ` set [next_obj ?v..<next_obj ?v + length ?ts]
        = {t. \<exists>i \<in> members ?K p. holds E ?K i t}" .
    have "next_obj w \<le> next_obj ?v"
      using extendsD(6) [OF w] extendsD(6) [OF get(2)] by simp
    with run ext img show ?thesis by auto
  qed
qed

lemma list_by_project_run:
  assumes "client_ready w" "store_inv E (view (svc w))"
  shows "\<exists>xs. fst (list_by_project E p w) = Inr xs
    \<and> extends view w (snd (list_by_project E p w))
    \<and> (\<forall>x \<in> set xs. next_obj w \<le> x)
    \<and> heap (snd (list_by_project E p w)) ` set xs
        = {t. \<exists>i \<in> members (view (svc w)) p. holds E (view (svc w)) i t}"
  by (rule list_by_project_sets) (use assms in \<open>simp_all add: store_inv_def\<close>)

lemma find_incomplete_sets:
  assumes "client_ready w" and proj: "projects_inv E (view (svc w))"
  shows "\<exists>r. fst (find_incomplete E p w) = Inr r
    \<and> extends view w (snd (find_incomplete E p w))
    \<and> (case r of
         None \<Rightarrow> \<forall>i \<in> members (view (svc w)) p. \<forall>t. holds E (view (svc w)) i t \<longrightarrow> \<not> is_incomplete t
       | Some x \<Rightarrow> next_obj w \<le> x \<and> is_incomplete (heap (snd (find_incomplete E p w)) x)
           \<and> (\<exists>i \<in> members (view (svc w)) p. holds E (view (svc w)) i (heap (snd (find_incomplete E p w)) x)))"
proof -
  let ?K = "view (svc w)"
  let ?v = "snd (list_by_project E p w)"
  obtain xs where xs: "fst (list_by_project E p w) = Inr xs" "extends view w ?v"
    "\<forall>x \<in> set xs. next_obj w \<le> x"
    "heap ?v ` set xs = {t. \<exists>i \<in> members ?K p. holds E ?K i t}"
    using list_by_project_sets [OF assms] by blast
  have run: "find_incomplete E p w = (Inr (find (\<lambda>x. is_incomplete (heap ?v x)) xs), ?v)"
    using xs(1) by (simp add: find_incomplete_def py_simps)
  show ?thesis
  proof (cases "find (\<lambda>x. is_incomplete (heap ?v x)) xs")
    case None
    then have none: "\<forall>t \<in> heap ?v ` set xs. \<not> is_incomplete t" by (auto simp: find_None_iff)
    have "\<forall>i \<in> members ?K p. \<forall>t. holds E ?K i t \<longrightarrow> \<not> is_incomplete t"
      using none unfolding xs(4) by blast
    with run xs(2) None show ?thesis by simp
  next
    case (Some x)
    then have x: "x \<in> set xs" "is_incomplete (heap ?v x)" by (auto simp: find_Some_iff)
    from x(1) have "heap ?v x \<in> heap ?v ` set xs" by blast
    with run xs x Some show ?thesis by auto
  qed
qed

lemma find_incomplete_run:
  assumes "client_ready w" "store_inv E (view (svc w))"
  shows "\<exists>r. fst (find_incomplete E p w) = Inr r
    \<and> extends view w (snd (find_incomplete E p w))
    \<and> (case r of
         None \<Rightarrow> \<forall>i \<in> members (view (svc w)) p. \<forall>t. holds E (view (svc w)) i t \<longrightarrow> \<not> is_incomplete t
       | Some x \<Rightarrow> next_obj w \<le> x \<and> is_incomplete (heap (snd (find_incomplete E p w)) x)
           \<and> (\<exists>i \<in> members (view (svc w)) p. holds E (view (svc w)) i (heap (snd (find_incomplete E p w)) x)))"
  by (rule find_incomplete_sets) (use assms in \<open>simp_all add: store_inv_def\<close>)

lemma has_running_task_run:
  assumes "client_ready w" and inv: "store_inv E (view (svc w))"
  shows "fst (has_running_task E p w) = Inr (\<exists>i \<in> members (view (svc w)) p. \<exists>t.
      holds E (view (svc w)) i t \<and> status t = RUNNING)"
proof -
  let ?K = "view (svc w)"
  let ?v = "snd (list_by_project E p w)"
  obtain xs where xs: "fst (list_by_project E p w) = Inr xs"
    "heap ?v ` set xs = {t. \<exists>i \<in> members ?K p. holds E ?K i t}"
    using list_by_project_run [OF assms] by blast
  have "(\<exists>x \<in> set xs. status (heap ?v x) = RUNNING) = (\<exists>t \<in> heap ?v ` set xs. status t = RUNNING)"
    by blast
  also have "\<dots> = (\<exists>i \<in> members ?K p. \<exists>t. holds E ?K i t \<and> status t = RUNNING)"
    unfolding xs(2) by blast
  finally show ?thesis using xs(1) by (simp add: has_running_task_def py_simps)
qed

text \<open>The digest lookup finds nothing, or an unfinished stored task with this digest.\<close>

lemma find_by_digest_digests:
  assumes "client_ready w" and inv: "digests_inv E (view (svc w))"
  shows "\<exists>res. fst (find_by_digest E p r w) = Inr res
    \<and> extends view w (snd (find_by_digest E p r w))
    \<and> (case res of
         None \<Rightarrow> ks_keys (view (svc w)) (digest_key E p r) = None
       | Some x \<Rightarrow> next_obj w \<le> x
           \<and> (\<exists>i. hex32 i \<and> holds E (view (svc w)) i (heap (snd (find_by_digest E p r w)) x)
               \<and> ks_keys (view (svc w)) (digest_key E p r) = Some (RStr i))
           \<and> requirement (heap (snd (find_by_digest E p r w)) x) \<noteq> []
           \<and> \<not> is_terminal (heap (snd (find_by_digest E p r w)) x)
           \<and> digest_of E (project_name (heap (snd (find_by_digest E p r w)) x))
                 (requirement (heap (snd (find_by_digest E p r w)) x)) = digest_of E p r)"
proof (cases "ks_keys (view (svc w)) (digest_key E p r)")
  case None
  with \<open>client_ready w\<close> show ?thesis
    by (simp add: find_by_digest_def py_simps cmd_get_def extends_def)
next
  case (Some v)
  with inv obtain i t where it: "v = RStr i" "hex32 i" "holds E (view (svc w)) i t"
    "requirement t \<noteq> []" "\<not> is_terminal t"
    "digest_of E p r = digest_of E (project_name t) (requirement t)"
    unfolding digests_inv_def digest_key_def live_digest_def by blast
  let ?w = "w\<lparr>svc := snd (r_get (redis E) (digest_key E p r) (svc w))\<rparr>"
  have get: "fst (store_get E i ?w) = Inr (Some (next_obj w))"
    "heap (snd (store_get E i ?w)) = (heap w)(next_obj w := t)"
    using store_get_run(1) [of ?w i t] it \<open>client_ready w\<close> by simp_all
  have run: "find_by_digest E p r w = store_get E i ?w"
    using Some it \<open>client_ready w\<close> by (simp add: find_by_digest_def py_simps cmd_get_def)
  have "extends view w (snd (store_get E i ?w))"
    using it \<open>client_ready w\<close>
    by (simp add: store_get_def py_simps cmd_get_def holds_def extends_def)
  with run get it Some show ?thesis by auto
qed

lemma find_by_digest_run:
  assumes "client_ready w" "store_inv E (view (svc w))"
  shows "\<exists>res. fst (find_by_digest E p r w) = Inr res
    \<and> extends view w (snd (find_by_digest E p r w))
    \<and> (case res of
         None \<Rightarrow> ks_keys (view (svc w)) (digest_key E p r) = None
       | Some x \<Rightarrow> next_obj w \<le> x
           \<and> (\<exists>i. hex32 i \<and> holds E (view (svc w)) i (heap (snd (find_by_digest E p r w)) x)
               \<and> ks_keys (view (svc w)) (digest_key E p r) = Some (RStr i))
           \<and> requirement (heap (snd (find_by_digest E p r w)) x) \<noteq> []
           \<and> \<not> is_terminal (heap (snd (find_by_digest E p r w)) x)
           \<and> digest_of E (project_name (heap (snd (find_by_digest E p r w)) x))
                 (requirement (heap (snd (find_by_digest E p r w)) x)) = digest_of E p r)"
  by (rule find_by_digest_digests) (use assms in \<open>simp_all add: store_inv_def\<close>)

end

section \<open>Many operations on the queue\<close>

lemma queue_of_last:
  "queue_of K = rev (map (enc E) (t # ts)) \<Longrightarrow> queue_of K = rev (map (enc E) ts) @ [enc E t]"
  by simp

context deployment
begin

lemma dequeue_inv:
  assumes w: "client_ready w" and inv: "store_inv E (view (svc w))"
  shows "store_inv E (view (svc (snd (dequeue E timeout w))))"
    and "client_ready (snd (dequeue E timeout w))"
proof -
  let ?K = "view (svc w)" and ?w' = "snd (dequeue E timeout w)"
  have q: "queue_inv E ?K" using inv by (simp add: store_inv_def)
  have "store_inv E (view (svc ?w')) \<and> client_ready ?w'"
  proof (cases "queue_of ?K = []")
    case True
    have "client_ready ?w'"
      using w True by (cases rule: queue_key_cases [OF q])
        (auto simp: dequeue_def py_simps cmd_brpop_def)
    with True dequeue_run(1) [OF w q] inv show ?thesis by simp
  next
    case False
    then obtain ss s where ss: "queue_of ?K = ss @ [s]" by (metis rev_exhaust)
    then have "s \<in> set (queue_of ?K)" by simp
    with q have "snapshot E ?K s" unfolding queue_inv_def by blast
    then obtain t where s: "s = enc E t" by (auto simp: snapshot_def)
    have run: "queue_of (view (svc ?w')) = ss"
      "\<And>k. k \<noteq> queue_key \<Longrightarrow> ks_keys (view (svc ?w')) k = ks_keys ?K k"
      using dequeue_run(2) [OF w q] ss s by auto
    have shape: "ks_keys (view (svc ?w')) queue_key = None
        \<or> ks_keys (view (svc ?w')) queue_key = Some (RList (queue_of (view (svc ?w'))))"
      using w q ss s by (cases rule: queue_key_cases [OF q])
        (auto simp: dequeue_def py_simps cmd_brpop_def ks_remove_def queue_of_def)
    have "store_inv E (view (svc ?w'))"
      by (rule popped_inv [OF inv run(2) shape]) (use run(1) ss in auto)
    moreover have "client_ready ?w'"
      using w q ss s by (cases rule: queue_key_cases [OF q])
        (auto simp: dequeue_def py_simps cmd_brpop_def)
    ultimately show ?thesis by simp
  qed
  then show "store_inv E (view (svc ?w'))" "client_ready ?w'" by simp_all
qed

lemma enqueue_all:
  assumes "client_ready w" "store_inv E (view (svc w))"
    and "\<forall>x \<in> set xs. hex32 (task_id (heap w x))
      \<and> holds E (view (svc w)) (task_id (heap w x)) (heap w x)"
  shows "fst (py_for (enqueue E) xs w) = Inr ()
    \<and> client_ready (snd (py_for (enqueue E) xs w)) \<and> heap (snd (py_for (enqueue E) xs w)) = heap w
    \<and> next_obj (snd (py_for (enqueue E) xs w)) = next_obj w
    \<and> store_inv E (view (svc (snd (py_for (enqueue E) xs w))))
    \<and> queue_of (view (svc (snd (py_for (enqueue E) xs w))))
        = rev (map (\<lambda>x. enc E (heap w x)) xs) @ queue_of (view (svc w))"
  using assms
proof (induction xs arbitrary: w)
  case Nil
  then show ?case by (simp add: py_simps)
next
  case (Cons x xs)
  let ?w1 = "snd (enqueue E x w)"
  have one: "fst (enqueue E x w) = Inr ()" "view (svc ?w1) = queued E (heap w x) (view (svc w))"
    using enqueue_run [of w x] Cons.prems(1,2) by (simp_all add: store_inv_def)
  have "store_inv E (view (svc ?w1))"
    unfolding one(2) using Cons.prems by (intro queued_inv [where t' = "heap w x"]) simp_all
  moreover have "\<forall>y \<in> set xs. hex32 (task_id (heap ?w1 y))
      \<and> holds E (view (svc ?w1)) (task_id (heap ?w1 y)) (heap ?w1 y)"
    using Cons.prems(3) one(2) by (simp add: holds_def queued_keys)
  ultimately have IH: "fst (py_for (enqueue E) xs ?w1) = Inr ()
      \<and> client_ready (snd (py_for (enqueue E) xs ?w1)) \<and> heap (snd (py_for (enqueue E) xs ?w1)) = heap w
      \<and> next_obj (snd (py_for (enqueue E) xs ?w1)) = next_obj w
      \<and> store_inv E (view (svc (snd (py_for (enqueue E) xs ?w1))))
      \<and> queue_of (view (svc (snd (py_for (enqueue E) xs ?w1))))
          = rev (map (\<lambda>x. enc E (heap w x)) xs) @ queue_of (view (svc ?w1))"
    using Cons.IH [of ?w1] Cons.prems(1) by simp
  have "py_for (enqueue E) (x # xs) w = py_for (enqueue E) xs ?w1"
    using one(1) by (simp add: py_then_def py_bind_def)
  then show ?case using IH one(2) by (simp add: queue_of_def queued_keys)
qed

lemma dequeue_all:
  assumes "client_ready w" "store_inv E (view (svc w))"
    and "queue_of (view (svc w)) = rev (map (enc E) ts)"
  shows "fst (py_collect (\<lambda>_. dequeue E timeout) ts w)
      = Inr (map Some [next_obj w..<next_obj w + length ts])
    \<and> map (heap (snd (py_collect (\<lambda>_. dequeue E timeout) ts w)))
        [next_obj w..<next_obj w + length ts] = ts
    \<and> (\<forall>x < next_obj w. heap (snd (py_collect (\<lambda>_. dequeue E timeout) ts w)) x = heap w x)
    \<and> queue_of (view (svc (snd (py_collect (\<lambda>_. dequeue E timeout) ts w)))) = []"
  using assms
proof (induction ts arbitrary: w)
  case Nil
  then show ?case by (simp add: py_simps)
next
  case (Cons t ts)
  let ?w1 = "snd (dequeue E timeout w)"
  let ?rest = "py_collect (\<lambda>_. dequeue E timeout) ts ?w1"
  have q: "queue_inv E (view (svc w))" using Cons.prems(2) by (simp add: store_inv_def)
  have one: "fst (dequeue E timeout w) = Inr (Some (next_obj w))"
    "heap ?w1 = (heap w)(next_obj w := t)" "next_obj ?w1 = Suc (next_obj w)"
    "queue_of (view (svc ?w1)) = rev (map (enc E) ts)"
    using dequeue_run(2) [OF Cons.prems(1) q] Cons.prems(3) by auto
  note IH = Cons.IH [OF dequeue_inv(2) [OF Cons.prems(1,2)] dequeue_inv(1) [OF Cons.prems(1,2)]
      one(4), unfolded one(3)]
  have "py_collect (\<lambda>_. dequeue E timeout) (t # ts) w
      = (Inr (Some (next_obj w) # map Some [Suc (next_obj w)..<Suc (next_obj w) + length ts]),
         snd ?rest)"
    using one(1) IH by (simp add: py_bind_def py_return_def)
  moreover have "[next_obj w..<next_obj w + length (t # ts)]
      = next_obj w # [Suc (next_obj w)..<Suc (next_obj w) + length ts]"
    by (subst upt_rec) simp
  ultimately show ?case using IH one(2) by simp
qed

end

section \<open>Properties\<close>

text \<open>A task as \<open>save\<close> leaves it: stored, in the set of its project, named by its digest key.\<close>

definition saved_facts :: "'r env \<Rightarrow> task \<Rightarrow> keyspace \<Rightarrow> bool" where
  "saved_facts E t K =
     (holds E K (task_id t) t \<and> task_id t \<in> members K (project_name t)
      \<and> (requirement t \<noteq> [] \<longrightarrow>
           ks_keys K (digest_key E (project_name t) (requirement t)) = Some (RStr (task_id t))))"

lemma saved_facts_saved:
  assumes "projects_inv E K" "hex32 (task_id t)"
  shows "saved_facts E t (saved E t K)"
proof -
  obtain xs where "set xs = insert (task_id t) (members K (project_name t))"
    "ks_keys (saved E t K) =
        (if requirement t \<noteq> []
         then (ks_keys K)(task_key (task_id t) \<mapsto> RStr (enc E t),
                project_tasks_key (project_name t) \<mapsto> RSet xs,
                digest_key E (project_name t) (requirement t) \<mapsto> RStr (task_id t))
         else (ks_keys K)(task_key (task_id t) \<mapsto> RStr (enc E t),
                project_tasks_key (project_name t) \<mapsto> RSet xs))"
    using saved_keys [OF assms(1)] by blast
  with assms(2) show ?thesis by (simp add: saved_facts_def holds_def members_def)
qed

lemma saved_facts_queued: "saved_facts E t (queued E t K) \<longleftrightarrow> saved_facts E t K"
  by (simp add: saved_facts_def holds_def members_def queued_keys)

text \<open>C7: saving keeps the store consistent. \<open>TaskStore.save\<close> of an unfinished task keeps the
  invariant of the keyspace (every record is under its id and in the set of its project, every member
  of a project set is a record of that project, every digest key names an unfinished task with this
  digest, every queued payload is a snapshot of a stored task). Under a free id the task is stored, is
  in the set of its project and, when it has a requirement, is named by its digest key; an id that is
  taken is refused with a \<open>ValueError\<close> and nothing is written.\<close>

theorem save_keeps_invariant:
  assumes "deployment E view" "client_ready w" "store_inv E (view (svc w))"
    and "hex32 (task_id (heap w x))" "\<not> is_terminal (heap w x)"
  shows "store_inv E (view (svc (snd (store_save E x w))))
    \<and> (if ks_keys (view (svc w)) (task_key (task_id (heap w x))) = None
       then fst (store_save E x w) = Inr ()
            \<and> saved_facts E (heap w x) (view (svc (snd (store_save E x w))))
       else fst (store_save E x w) = Inl (task_exists (task_id (heap w x)))
            \<and> view (svc (snd (store_save E x w))) = view (svc w))"
proof -
  have proj: "projects_inv E (view (svc w))" using assms(3) by (simp add: store_inv_def)
  show ?thesis
    using deployment.store_save_run [OF assms(1,2) proj, of x] saved_facts_saved [OF proj assms(4)]
      deployment.saved_inv [OF assms(1,3,4) _ assms(5)] assms(3)
    by auto
qed

theorem save_keeps_invariant_witness:
  "store_inv mem_env (mem_view (svc (snd (store_save mem_env 0 start_world))))"
  using save_keeps_invariant [OF memory.deployment_axioms, of start_world 0]
  by (simp add: store_inv_empty fun_eq_iff is_terminal_def)

text \<open>The state of the examples: one saved task.\<close>

definition saved_world :: "mem world" where
  "saved_world = snd (store_save mem_env 0 start_world)"

lemma saved_world_facts [simp]:
  "client_ready saved_world" "heap saved_world x = no_task" "pending saved_world = []"
  "next_obj saved_world = 1" "ticks saved_world = 0" "engine_cache saved_world = []"
  by (simp_all add: saved_world_def)

lemma saved_world_view:
  "mem_view (svc saved_world) = saved mem_env no_task (mem_view (svc start_world))"
  using memory.store_save_run(1) [of start_world 0]
  by (simp add: saved_world_def projects_inv_def members_def)

lemma saved_world_inv: "store_inv mem_env (mem_view (svc saved_world))"
  unfolding saved_world_view
  by (rule memory.saved_inv) (simp_all add: store_inv_empty fun_eq_iff is_terminal_def)

lemma saved_world_keys:
  "ks_keys (mem_view (svc saved_world)) =
     [task_key (task_id no_task) \<mapsto> RStr (enc mem_env no_task),
      project_tasks_key ''demo'' \<mapsto> RSet [task_id no_task],
      digest_key mem_env ''demo'' ''build'' \<mapsto> RStr (task_id no_task)]"
  unfolding saved_world_view
  by (rule ext) (simp add: saved_def Let_def cmd_sadd_def)

lemma saved_world_holds:
  "holds mem_env (mem_view (svc saved_world)) (task_id no_task) no_task"
  by (simp add: holds_def saved_world_keys)

text \<open>A pending task in the store and in the queue: what \<open>POST /tasks\<close> leaves behind.\<close>

definition queued_world :: "mem world" where
  "queued_world = snd (enqueue mem_env 0 saved_world)"

lemma queued_world_facts [simp]:
  "client_ready queued_world" "heap queued_world x = no_task" "next_obj queued_world = 1"
  by (simp_all add: queued_world_def)

lemma queued_world_view:
  "mem_view (svc queued_world) = queued mem_env no_task (mem_view (svc saved_world))"
  using memory.enqueue_run(2) [of saved_world 0] saved_world_inv
  by (simp add: store_inv_def queued_world_def)

lemma queued_world_inv: "store_inv mem_env (mem_view (svc queued_world))"
  unfolding queued_world_view using saved_world_inv saved_world_holds
  by (intro memory.queued_inv [where t' = no_task]) simp_all

lemma queued_world_holds: "holds mem_env (mem_view (svc queued_world)) (task_id no_task) no_task"
  using saved_world_holds by (simp add: queued_world_view holds_def queued_keys)

lemma queued_world_queue: "queue_of (mem_view (svc queued_world)) = [] @ [enc mem_env no_task]"
  unfolding queued_world_view by (simp add: queue_of_def queued_keys saved_world_keys)

text \<open>C8: updating keeps the store consistent. Writing a task over an older state of itself returns and
  keeps the invariant; a finished task with a requirement loses its digest key, so it is never
  found by digest again.\<close>

theorem update_keeps_invariant:
  assumes "deployment E view" "client_ready w" "store_inv E (view (svc w))"
    and "hex32 (task_id (heap w x))" "holds E (view (svc w)) (task_id (heap w x)) t"
    and "same_identity (heap w x) t"
  shows "fst (async_update E x w) = Inr ()
    \<and> store_inv E (view (svc (snd (async_update E x w))))
    \<and> holds E (view (svc (snd (async_update E x w)))) (task_id (heap w x)) (heap w x)
    \<and> (is_terminal (heap w x) \<and> requirement (heap w x) \<noteq> [] \<longrightarrow>
         ks_keys (view (svc (snd (async_update E x w))))
           (digest_key E (project_name (heap w x)) (requirement (heap w x))) = None)"
  using deployment.async_update_run [OF assms(1,2), of x]
    deployment.updated_inv [OF assms(1,3,4,5,6)] assms(4)
  by (simp add: holds_def updated_keys)

theorem update_keeps_invariant_witness:
  "store_inv mem_env (mem_view (svc (snd (async_update mem_env 0 saved_world))))"
  using update_keeps_invariant [OF memory.deployment_axioms, of saved_world 0 no_task]
    saved_world_inv saved_world_holds
  by simp

text \<open>the queue keeps the store consistent. Queueing a stored task and taking one off, whatever is
  in the queue, keep the invariant.\<close>

theorem queue_keeps_invariant:
  assumes "deployment E view" "client_ready w" "store_inv E (view (svc w))"
  shows "store_inv E (view (svc (snd (dequeue E timeout w))))
    \<and> (\<forall>x t. hex32 (task_id (heap w x)) \<longrightarrow> holds E (view (svc w)) (task_id (heap w x)) t \<longrightarrow>
         same_identity (heap w x) t \<longrightarrow> store_inv E (view (svc (snd (enqueue E x w)))))"
proof -
  have q: "queue_inv E (view (svc w))" using assms(3) by (simp add: store_inv_def)
  show ?thesis
    using deployment.dequeue_inv(1) [OF assms] deployment.queued_inv [OF assms(1,3)]
      deployment.enqueue_run(2) [OF assms(1,2) q]
    by simp
qed

theorem queue_keeps_invariant_witness:
  "store_inv mem_env (mem_view (svc (snd (enqueue mem_env 0 saved_world))))"
  using queue_keeps_invariant [OF memory.deployment_axioms, of saved_world]
    saved_world_inv saved_world_holds
  by (metis same_identity_refl saved_world_facts(1,2) no_task_simps(1))

text \<open>what is saved can be read. After \<open>save\<close> of a task with a new id, \<open>get\<close> of this id returns a
  new object equal to the task, and the lookup for the project finds an unfinished task.\<close>

theorem save_then_get:
  assumes "deployment E view" "client_ready w" "store_inv E (view (svc w))"
    and "hex32 (task_id (heap w x))" "is_incomplete (heap w x)"
    and "ks_keys (view (svc w)) (task_key (task_id (heap w x))) = None"
  shows "\<exists>y. fst (store_get E (task_id (heap w x)) (snd (store_save E x w))) = Inr (Some y)
      \<and> heap (snd (store_get E (task_id (heap w x)) (snd (store_save E x w)))) y = heap w x
      \<and> fst (find_incomplete E (project_name (heap w x)) (snd (store_save E x w))) \<noteq> Inr None"
proof -
  let ?t = "heap w x" and ?w1 = "snd (store_save E x w)"
  have proj: "projects_inv E (view (svc w))" using assms(3) by (simp add: store_inv_def)
  have live: "\<not> is_terminal ?t" using assms(5) by (auto simp: is_terminal_def is_incomplete_def)
  have w1: "client_ready ?w1" "view (svc ?w1) = saved E ?t (view (svc w))"
    using deployment.store_save_run(1) [OF assms(1,2) proj assms(6)] assms(2) by simp_all
  have inv: "store_inv E (view (svc ?w1))"
    unfolding w1(2) using deployment.saved_inv [OF assms(1,3,4,6) live] .
  have h: "holds E (view (svc ?w1)) (task_id ?t) ?t"
    and m: "task_id ?t \<in> members (view (svc ?w1)) (project_name ?t)"
    using saved_keys [OF proj, of ?t] assms(4) unfolding w1(2)
    by (auto simp: holds_def members_def)
  let ?p = "project_name ?t"
  obtain r where r: "fst (find_incomplete E ?p ?w1) = Inr r"
    and cs: "case r of
         None \<Rightarrow> \<forall>i \<in> members (view (svc ?w1)) ?p. \<forall>u. holds E (view (svc ?w1)) i u \<longrightarrow> \<not> is_incomplete u
       | Some y \<Rightarrow> next_obj ?w1 \<le> y \<and> is_incomplete (heap (snd (find_incomplete E ?p ?w1)) y)
           \<and> (\<exists>i \<in> members (view (svc ?w1)) ?p.
                 holds E (view (svc ?w1)) i (heap (snd (find_incomplete E ?p ?w1)) y))"
    using deployment.find_incomplete_run [OF assms(1) w1(1) inv, of ?p] by blast
  have "r \<noteq> None" using cs h m assms(5) by (cases r) auto
  with r deployment.store_get_run(1) [OF assms(1) w1(1) h] show ?thesis by auto
qed

theorem save_then_get_witness:
  "\<exists>y. fst (store_get mem_env (task_id no_task) saved_world) = Inr (Some y)"
proof -
  have "store_inv mem_env (mem_view (svc start_world))"
    by (simp add: store_inv_empty fun_eq_iff)
  moreover have "is_incomplete no_task" by (simp add: is_incomplete_def)
  ultimately obtain y where "fst (store_get mem_env (task_id (heap start_world 0))
      (snd (store_save mem_env 0 start_world))) = Inr (Some y)"
    using save_then_get [OF memory.deployment_axioms start_world_simps(1), of 0]
      no_task_simps(1)
    unfolding start_world_simps by blast
  then show ?thesis by (simp only: saved_world_def start_world_simps) blast
qed

text \<open>C35: the queue is first in, first out, and loses nothing. Queueing any stored tasks one after the
  other on an empty queue and taking as many off returns tasks equal to them in the same order, and
  leaves the queue empty.\<close>

theorem queue_fifo:
  assumes "deployment E view" "client_ready w" "store_inv E (view (svc w))"
    and "queue_of (view (svc w)) = []"
    and "\<forall>x \<in> set xs. x < next_obj w \<and> hex32 (task_id (heap w x))
      \<and> holds E (view (svc w)) (task_id (heap w x)) (heap w x)"
  shows "\<exists>ys w'. py_then (py_for (enqueue E) xs) (py_collect (\<lambda>_. dequeue E timeout) xs) w
      = (Inr (map Some ys), w')
    \<and> map (heap w') ys = map (heap w) xs \<and> queue_of (view (svc w')) = []"
proof -
  let ?w1 = "snd (py_for (enqueue E) xs w)"
  let ?ts = "map (heap w) xs"
  have enq: "fst (py_for (enqueue E) xs w) = Inr ()" "client_ready ?w1"
    "store_inv E (view (svc ?w1))" "queue_of (view (svc ?w1)) = rev (map (enc E) ?ts)"
    using deployment.enqueue_all [OF assms(1-3), of xs] assms(4,5) by (simp_all add: comp_def)
  have same: "py_collect (\<lambda>_. dequeue E timeout) us = py_collect (\<lambda>_. dequeue E timeout) vs"
    if "length us = length vs" for us :: "obj list" and vs :: "task list"
    using that by (induction us vs rule: list_induct2) simp_all
  let ?res = "py_collect (\<lambda>_. dequeue E timeout) ?ts ?w1"
  have "py_then (py_for (enqueue E) xs) (py_collect (\<lambda>_. dequeue E timeout) xs) w = ?res"
    using enq(1) same [of xs ?ts] by (simp add: py_then_def py_bind_def)
  with deployment.dequeue_all [OF assms(1) enq(2,3,4), of timeout] show ?thesis
    by (intro exI [of _ "[next_obj ?w1..<next_obj ?w1 + length ?ts]"] exI [of _ "snd ?res"])
      (simp add: prod_eq_iff)
qed

theorem queue_fifo_witness:
  "\<exists>ys w'. py_then (py_for (enqueue mem_env) [0, 0]) (py_collect (\<lambda>_. dequeue mem_env 1) [0, 0])
      saved_world = (Inr (map Some ys), w')
    \<and> map (heap w') ys = [no_task, no_task] \<and> queue_of (mem_view (svc w')) = []"
  using queue_fifo [OF memory.deployment_axioms, of saved_world "[0, 0]" 1]
    saved_world_inv saved_world_holds
  by (simp add: queue_of_def saved_world_keys)

text \<open>the lookup for an unfinished task is right. For a project it returns nothing exactly when no
  stored task of the project is pending or running, else one that is; it changes nothing stored.\<close>

theorem find_incomplete_correct:
  assumes "deployment E view" "client_ready w" "store_inv E (view (svc w))"
  shows "\<exists>r. fst (find_incomplete E p w) = Inr r
    \<and> view (svc (snd (find_incomplete E p w))) = view (svc w)
    \<and> (r = None \<longleftrightarrow> \<not> (\<exists>i t. i \<in> members (view (svc w)) p \<and> holds E (view (svc w)) i t \<and> is_incomplete t))
    \<and> (\<forall>x. r = Some x \<longrightarrow>
         is_incomplete (heap (snd (find_incomplete E p w)) x)
         \<and> project_name (heap (snd (find_incomplete E p w)) x) = p
         \<and> holds E (view (svc w)) (task_id (heap (snd (find_incomplete E p w)) x))
             (heap (snd (find_incomplete E p w)) x))"
proof -
  let ?K = "view (svc w)" and ?w' = "snd (find_incomplete E p w)"
  obtain r where r: "fst (find_incomplete E p w) = Inr r" "extends view w ?w'"
    and cs: "case r of
         None \<Rightarrow> \<forall>i \<in> members ?K p. \<forall>t. holds E ?K i t \<longrightarrow> \<not> is_incomplete t
       | Some x \<Rightarrow> next_obj w \<le> x \<and> is_incomplete (heap ?w' x)
           \<and> (\<exists>i \<in> members ?K p. holds E ?K i (heap ?w' x))"
    using deployment.find_incomplete_run [OF assms] by blast
  have stored: "project_name t = p \<and> holds E ?K (task_id t) t"
    if "i \<in> members ?K p" "holds E ?K i t" for i t
  proof -
    note h = that(2)
    from projects_invD [OF assms(3) that(1)] h holds_unique [OF assms(1)]
    have "hex32 i" "project_name t = p" by blast+
    moreover obtain u where "holds E ?K i u" "task_id u = i"
      using records_invD [OF assms(3) \<open>hex32 i\<close> h] by blast
    ultimately show ?thesis using h holds_unique [OF assms(1)] by blast
  qed
  show ?thesis
    using r(1) cs stored extendsD(1) [OF r(2)]
    by (cases r) auto
qed

theorem find_incomplete_correct_witness:
  "\<exists>x. fst (find_incomplete mem_env ''demo'' saved_world) = Inr (Some x)"
proof -
  obtain r where "fst (find_incomplete mem_env ''demo'' saved_world) = Inr r"
    "r = None \<longleftrightarrow> \<not> (\<exists>i t. i \<in> members (mem_view (svc saved_world)) ''demo''
       \<and> holds mem_env (mem_view (svc saved_world)) i t \<and> is_incomplete t)"
    using find_incomplete_correct [OF memory.deployment_axioms _ saved_world_inv, of "''demo''"] by auto
  moreover have "task_id no_task \<in> members (mem_view (svc saved_world)) ''demo''"
    by (simp add: members_def saved_world_keys)
  moreover have "is_incomplete no_task" by (simp add: is_incomplete_def)
  ultimately show ?thesis using saved_world_holds by (metis not_Some_eq)
qed

text \<open>the lookup by digest is right. It returns nothing exactly when no digest key exists, else a
  stored task that has a requirement, is not finished and has the digest asked for; an empty
  requirement is never registered, so with a collision-free hash it is never found.\<close>

theorem find_by_digest_correct:
  assumes "deployment E view" "client_ready w" "store_inv E (view (svc w))"
  shows "\<exists>res. fst (find_by_digest E p r w) = Inr res
    \<and> view (svc (snd (find_by_digest E p r w))) = view (svc w)
    \<and> (res = None \<longleftrightarrow> ks_keys (view (svc w)) (digest_key E p r) = None)
    \<and> (\<forall>x. res = Some x \<longrightarrow>
         (let t = heap (snd (find_by_digest E p r w)) x
          in \<not> is_terminal t \<and> requirement t \<noteq> []
             \<and> digest_of E (project_name t) (requirement t) = digest_of E p r
             \<and> (\<exists>i. holds E (view (svc w)) i t)))"
proof -
  let ?K = "view (svc w)" and ?w' = "snd (find_by_digest E p r w)"
  obtain res where res: "fst (find_by_digest E p r w) = Inr res" "extends view w ?w'"
    and cs: "case res of None \<Rightarrow> ks_keys ?K (digest_key E p r) = None
      | Some x \<Rightarrow> next_obj w \<le> x
          \<and> (\<exists>i. hex32 i \<and> holds E ?K i (heap ?w' x)
               \<and> ks_keys ?K (digest_key E p r) = Some (RStr i))
          \<and> requirement (heap ?w' x) \<noteq> [] \<and> \<not> is_terminal (heap ?w' x)
          \<and> digest_of E (project_name (heap ?w' x)) (requirement (heap ?w' x)) = digest_of E p r"
    using deployment.find_by_digest_run [OF assms, of p r] by blast
  show ?thesis
    using res(1) cs extendsD(1) [OF res(2)] by (cases res) (auto simp: Let_def)
qed

theorem find_by_digest_correct_witness:
  "\<exists>x. fst (find_by_digest mem_env ''demo'' ''build'' saved_world) = Inr (Some x)"
proof -
  have "ks_keys (mem_view (svc saved_world)) (digest_key mem_env ''demo'' ''build'') \<noteq> None"
    by (simp add: saved_world_keys)
  with find_by_digest_correct [OF memory.deployment_axioms _ saved_world_inv, of "''demo''" "''build''"]
  show ?thesis by auto
qed

end
