(* ===== verification/Event_Bus.thy ===== *)
theory Event_Bus
  imports Runtime
begin

text \<open>
  The event bus (\<open>src/event_bus.py\<close>) and the SSE frames (\<open>src/sse_utils.py\<close>, \<open>SSEPayload\<close> of
  \<open>src/models/api_schemas.py\<close>): publishing an event on the channel of its task, closing the channel,
  the loop of a subscriber over what it polls, and the frame an event becomes.
\<close>

section \<open>Publishing\<close>

definition channel :: "string \<Rightarrow> string" where
  "channel tid = ''cio:events:'' @ tid"

definition done_message :: string where
  "done_message = ''__DONE__''"

text \<open>\<open>getattr(event.event_type, "value", str(event.event_type))\<close>, with \<open>"info"\<close> for a missing one.\<close>

definition published_type :: "type_attr \<Rightarrow> string" where
  "published_type ty =
     (case ty of NoType \<Rightarrow> ''info'' | TypeNone \<Rightarrow> ''None'' | TypeValue v \<Rightarrow> v | TypeStr s \<Rightarrow> s)"

text \<open>An attribute with a default, on its way into \<open>json.dumps\<close>.\<close>

definition serialisable :: "attr \<Rightarrow> json \<Rightarrow> exn + json" where
  "serialisable a dflt =
     (case a of
        Missing \<Rightarrow> Inr dflt
      | Attr j \<Rightarrow> Inr j
      | Opaque \<Rightarrow> Inl (TypeError ''Object is not JSON serializable''))"

definition event_payload :: "cio_event \<Rightarrow> exn + json" where
  "event_payload ev =
     (case serialisable (ev_message ev) (JStr []) of
        Inl e \<Rightarrow> Inl e
      | Inr msg \<Rightarrow>
          (case serialisable (ev_metadata ev) (JObj []) of
             Inl e \<Rightarrow> Inl e
           | Inr meta \<Rightarrow>
               (case serialisable (ev_timestamp ev) (JStr []) of
                  Inl e \<Rightarrow> Inl e
                | Inr ts \<Rightarrow>
                    Inr (JObj
                      [(''event_type'', JStr (published_type (ev_type ev))),
                       (''message'', msg),
                       (''metadata'', if truthy meta then meta else JObj []),
                       (''timestamp'', ts)]))))"

definition bus_publish :: "'r env \<Rightarrow> string \<Rightarrow> cio_event \<Rightarrow> ('r, unit) prog" where
  "bus_publish E tid ev =
     py_then get_redis
       (py_bind (py_of_sum (event_payload ev)) (\<lambda>payload.
        py_then (on_redis (r_publish (redis E) (channel tid) (py_dumps E payload)))
          (py_return ())))"

definition bus_close :: "'r env \<Rightarrow> string \<Rightarrow> ('r, unit) prog" where
  "bus_close E tid =
     py_then get_redis
       (py_then (on_redis (r_publish (redis E) (channel tid) done_message)) (py_return ()))"

lemma redis_only_bus [redis_only_intros]:
  "redis_only (bus_close E i)" "redis_only (bus_publish E i ev)"
proof -
  have "redis_only (py_of_sum r)" for r :: "exn + json"
    by (simp add: redis_only_def py_simps)
  then show "redis_only (bus_close E i)" "redis_only (bus_publish E i ev)"
    unfolding bus_close_def bus_publish_def by (intro redis_only_intros | assumption)+
qed

section \<open>Subscribing\<close>

text \<open>
  One \<open>pubsub.get_message\<close> under \<open>wait_for\<close>: nothing (the poll returned \<open>None\<close> or timed out), a
  message, or an error of the connection. A message has a type and its data, each possibly absent.
\<close>

record pubsub_message =
  msg_type :: "string option"
  msg_data :: "string option"

datatype poll = Nothing | Message pubsub_message | Broken exn

text \<open>\<open>str(v)\<close> of a JSON value; a float is shown by its literal.\<close>

fun py_str :: "json \<Rightarrow> string"
  and repr_json :: "json \<Rightarrow> string"
  and repr_elems :: "json list \<Rightarrow> string"
  and repr_items :: "(string \<times> json) list \<Rightarrow> string" where
  "py_str (JStr s) = s"
| "py_str j = repr_json j"
| "repr_json JNull = ''None''"
| "repr_json (JBool b) = (if b then ''True'' else ''False'')"
| "repr_json (JInt i) = show_int i"
| "repr_json (JReal s) = s"
| "repr_json (JStr s) = py_repr s"
| "repr_json (JArr xs) = ''['' @ repr_elems xs @ '']''"
| "repr_json (JObj m) = ''{'' @ repr_items m @ ''}''"
| "repr_elems [] = []"
| "repr_elems [x] = repr_json x"
| "repr_elems (x # y # xs) = repr_json x @ '', '' @ repr_elems (y # xs)"
| "repr_items [] = []"
| "repr_items [(k, v)] = py_repr k @ '': '' @ repr_json v"
| "repr_items ((k, v) # p # m) =
     py_repr k @ '': '' @ repr_json v @ '', '' @ repr_items (p # m)"

text \<open>\<open>raw.get(k, default)\<close>.\<close>

definition get_default :: "(string \<times> json) list \<Rightarrow> string \<Rightarrow> json \<Rightarrow> json" where
  "get_default m k dflt = (case map_of m k of None \<Rightarrow> dflt | Some v \<Rightarrow> v)"

text \<open>\<open>_EventProxy\<close>: an event whose attributes are all there.\<close>

definition event_proxy :: "json \<Rightarrow> json \<Rightarrow> json \<Rightarrow> json \<Rightarrow> cio_event" where
  "event_proxy ty msg meta ts =
     \<lparr>ev_type = (if ty = JNull then TypeNone else TypeStr (py_str ty)), ev_message = Attr msg,
      ev_metadata = Attr meta, ev_timestamp = Attr ts\<rparr>"

datatype bus_item = Keepalive | Proxy cio_event

text \<open>
  One turn of the subscriber's loop, at time \<open>nw\<close>: poll again, yield and remember the time, return,
  or raise. \<open>last_yield\<close> is the time of the last yield.
\<close>

datatype bus_turn = Again | Yield bus_item | Return | Raise exn

definition subscribe_turn :: "'r env \<Rightarrow> rat \<Rightarrow> rat \<Rightarrow> poll \<Rightarrow> rat \<Rightarrow> bus_turn" where
  "subscribe_turn E keepalive_interval last_yield p nw =
     (case p of
        Broken e \<Rightarrow> Raise e
      | Nothing \<Rightarrow> (if keepalive_interval \<le> nw - last_yield then Yield Keepalive else Again)
      | Message msg \<Rightarrow>
          (if msg_type msg \<noteq> Some ''message'' then Again
           else if or_empty (msg_data msg) = done_message then Return
           else case loads E (or_empty (msg_data msg)) of
             None \<Rightarrow> Again
           | Some (JObj raw) \<Rightarrow>
               Yield (Proxy (event_proxy
                 (get_default raw ''event_type'' (JStr ''info''))
                 (get_default raw ''message'' (JStr []))
                 (get_default raw ''metadata'' (JObj []))
                 (get_default raw ''timestamp'' (JStr []))))
           | Some j \<Rightarrow> Raise (AttributeError (''object has no attribute '' @ py_repr ''get''))))"

text \<open>The loop over the turns a subscriber has taken so far: what it yielded, and where it is.\<close>

datatype bus_end = Polling rat | Returned | Raised exn

fun bus_subscribe :: "'r env \<Rightarrow> rat \<Rightarrow> rat \<Rightarrow> (poll \<times> rat) list \<Rightarrow> bus_item list \<times> bus_end" where
  "bus_subscribe E keepalive_interval last_yield [] = ([], Polling last_yield)"
| "bus_subscribe E keepalive_interval last_yield ((p, nw) # ps) =
     (case subscribe_turn E keepalive_interval last_yield p nw of
        Again \<Rightarrow> bus_subscribe E keepalive_interval last_yield ps
      | Yield it \<Rightarrow>
          (let (its, fin) = bus_subscribe E keepalive_interval nw ps in (it # its, fin))
      | Return \<Rightarrow> ([], Returned)
      | Raise e \<Rightarrow> ([], Raised e))"

text \<open>What the \<open>PubSub\<close> object of a subscription answers when it is opened and closed.\<close>

record pubsub =
  ps_subscribe :: "exn + unit"
  ps_unsubscribe :: "exn + unit"
  ps_aclose :: "exn + unit"

text \<open>The \<open>finally\<close> block: an \<open>Exception\<close> of the two calls is passed over, a cancellation is not. A
  generator that still polls has not come to it.\<close>

definition unsubscribed :: "pubsub \<Rightarrow> bus_end \<Rightarrow> bus_end" where
  "unsubscribed ps fin =
     (case fin of
        Polling t \<Rightarrow> Polling t
      | _ \<Rightarrow>
          (case (case ps_unsubscribe ps of Inl e \<Rightarrow> Inl e | Inr _ \<Rightarrow> ps_aclose ps) of
             Inl e \<Rightarrow> (if is_Exception e then fin else Raised e)
           | Inr _ \<Rightarrow> fin))"

text \<open>The generator \<open>EventBus.subscribe\<close>, started at time \<open>t\<close> with a client that is \<open>ready\<close> or not.\<close>

definition subscription ::
  "'r env \<Rightarrow> bool \<Rightarrow> pubsub \<Rightarrow> rat \<Rightarrow> rat \<Rightarrow> (poll \<times> rat) list \<Rightarrow> bus_item list \<times> bus_end" where
  "subscription E ready ps keepalive_interval t polls =
     (if \<not> ready then ([], Raised not_initialised)
      else case ps_subscribe ps of
        Inl e \<Rightarrow> ([], Raised e)
      | Inr _ \<Rightarrow>
          (let (its, fin) = bus_subscribe E keepalive_interval t polls in (its, unsubscribed ps fin)))"

section \<open>Frames\<close>

definition terminal_sse_events :: "string list" where
  "terminal_sse_events = [''workflow_complete'', ''workflow_failed'']"

definition is_terminal_event :: "string \<Rightarrow> bool" where
  "is_terminal_event event_type = (event_type \<in> set terminal_sse_events)"

record sse_payload =
  pay_message :: string
  pay_metadata :: "(string \<times> json) list"
  pay_timestamp :: string

definition validate_attr :: "string \<Rightarrow> (json \<Rightarrow> 'a option) \<Rightarrow> attr \<Rightarrow> 'a \<Rightarrow> exn + 'a" where
  "validate_attr field conv a dflt =
     (case a of
        Missing \<Rightarrow> Inr dflt
      | Opaque \<Rightarrow> Inl (ValidationError field)
      | Attr j \<Rightarrow> (case conv j of None \<Rightarrow> Inl (ValidationError field) | Some x \<Rightarrow> Inr x))"

text \<open>\<open>SSEPayload.from_cio_event\<close>; a falsy \<open>metadata\<close> counts as an empty dict.\<close>

definition as_dict :: "json \<Rightarrow> (string \<times> json) list option" where
  "as_dict j = (if \<not> truthy j then Some [] else case j of JObj m \<Rightarrow> Some m | _ \<Rightarrow> None)"

definition from_cio_event :: "pydantic \<Rightarrow> cio_event \<Rightarrow> exn + sse_payload" where
  "from_cio_event P ev =
     (case validate_attr ''message'' (as_str P) (ev_message ev) [] of
        Inl e \<Rightarrow> Inl e
      | Inr msg \<Rightarrow>
          (case validate_attr ''metadata'' as_dict (ev_metadata ev) [] of
             Inl e \<Rightarrow> Inl e
           | Inr meta \<Rightarrow>
               (case validate_attr ''timestamp'' (as_str P) (ev_timestamp ev) [] of
                  Inl e \<Rightarrow> Inl e
                | Inr ts \<Rightarrow>
                    Inr \<lparr>pay_message = msg, pay_metadata = meta, pay_timestamp = ts\<rparr>)))"

definition payload_dump :: "sse_payload \<Rightarrow> json" where
  "payload_dump p = JObj
     [(''message'', JStr (pay_message p)), (''metadata'', JObj (pay_metadata p)),
      (''timestamp'', JStr (pay_timestamp p))]"

text \<open>What the endpoint yields: a keepalive comment or a frame of an event type and a JSON text.\<close>

datatype sse_item = KeepaliveFrame | Frame string string

definition frame_type :: "type_attr \<Rightarrow> string" where
  "frame_type ty =
     (case ty of NoType \<Rightarrow> ''info'' | TypeNone \<Rightarrow> ''info'' | TypeValue v \<Rightarrow> v | TypeStr s \<Rightarrow> s)"

definition build_sse_frame :: "'r env \<Rightarrow> cio_event \<Rightarrow> exn + string \<times> string" where
  "build_sse_frame E ev =
     (case from_cio_event (pyd E) ev of
        Inl e \<Rightarrow> Inl e
      | Inr payload \<Rightarrow> Inr (frame_type (ev_type ev), py_dumps E (payload_dump payload)))"

section \<open>What a subscriber sees\<close>

text \<open>The messages of a poll script, and what they mean with no clock and no keepalive: the events
  before the first end of the channel, in order.\<close>

fun messages :: "(poll \<times> rat) list \<Rightarrow> string list" where
  "messages [] = []"
| "messages ((Message msg, nw) # ps) =
     (if msg_type msg = Some ''message'' then or_empty (msg_data msg) # messages ps else messages ps)"
| "messages ((_, nw) # ps) = messages ps"

fun delivered :: "'r env \<Rightarrow> string list \<Rightarrow> cio_event list" where
  "delivered E [] = []"
| "delivered E (s # ss) =
     (if s = done_message then []
      else case loads E s of
        None \<Rightarrow> delivered E ss
      | Some (JObj raw) \<Rightarrow>
          event_proxy (get_default raw ''event_type'' (JStr ''info''))
            (get_default raw ''message'' (JStr [])) (get_default raw ''metadata'' (JObj []))
            (get_default raw ''timestamp'' (JStr [])) # delivered E ss
      | Some j \<Rightarrow> [])"

fun events_of :: "bus_item list \<Rightarrow> cio_event list" where
  "events_of [] = []"
| "events_of (Keepalive # its) = events_of its"
| "events_of (Proxy ev # its) = ev # events_of its"

lemma bus_subscribe_events:
  assumes "\<forall>p \<in> fst ` set ps. \<forall>e. p \<noteq> Broken e"
  shows "events_of (fst (bus_subscribe E ka t ps)) = delivered E (messages ps)"
  using assms
proof (induction ps arbitrary: t)
  case (Cons x ps)
  obtain p nw where x: "x = (p, nw)" by (cases x)
  from Cons have IH: "events_of (fst (bus_subscribe E ka t ps)) = delivered E (messages ps)" for t
    by simp
  show ?case
  proof (cases p)
    case Nothing
    with x IH show ?thesis by (simp add: subscribe_turn_def split_beta)
  next
    case (Message msg)
    with x IH show ?thesis
      by (auto simp: subscribe_turn_def split_beta split: option.split json.split)
  next
    case (Broken e)
    with Cons.prems x show ?thesis by simp
  qed
qed simp

text \<open>A subscriber that still polls has met no end of the channel; one that returned has.\<close>

lemma bus_subscribe_returned:
  assumes "snd (bus_subscribe E ka t ps) = Returned"
  shows "done_message \<in> set (messages ps)"
  using assms
proof (induction ps arbitrary: t)
  case (Cons x ps)
  obtain p nw where "x = (p, nw)" by (cases x)
  with Cons show ?case
    by (cases p) (auto simp: subscribe_turn_def split_beta split: option.splits json.splits if_splits)
qed simp

lemma bus_subscribe_polling:
  assumes "snd (bus_subscribe E ka t ps) = Polling t'"
  shows "done_message \<notin> set (messages ps)"
  using assms
proof (induction ps arbitrary: t)
  case (Cons x ps)
  obtain p nw where "x = (p, nw)" by (cases x)
  with Cons show ?case
    by (cases p) (auto simp: subscribe_turn_def split_beta split: option.splits json.splits if_splits)
qed simp

text \<open>An event that has a frame is published as the fields of its payload.\<close>

definition published_json :: "cio_event \<Rightarrow> sse_payload \<Rightarrow> json" where
  "published_json ev pay = JObj
     [(''event_type'', JStr (published_type (ev_type ev))), (''message'', JStr (pay_message pay)),
      (''metadata'', JObj (pay_metadata pay)), (''timestamp'', JStr (pay_timestamp pay))]"

context pydantic_scalars
begin

lemma validate_str:
  "validate_attr k (as_str P) a [] = Inr s \<Longrightarrow> serialisable a (JStr []) = Inr (JStr s)"
  by (auto simp: validate_attr_def serialisable_def split: attr.splits option.splits dest: as_str_type)

lemma validate_dict:
  "validate_attr k as_dict a [] = Inr m \<Longrightarrow>
    \<exists>j. serialisable a (JObj []) = Inr j \<and> (if truthy j then j else JObj []) = JObj m"
  by (auto simp: validate_attr_def serialisable_def as_dict_def split: attr.splits option.splits
      if_splits json.splits)

lemma from_cio_event_fields:
  "from_cio_event P \<lparr>ev_type = ty, ev_message = Attr (JStr a), ev_metadata = Attr (JObj m),
     ev_timestamp = Attr (JStr b)\<rparr> = Inr \<lparr>pay_message = a, pay_metadata = m, pay_timestamp = b\<rparr>"
  by (simp add: from_cio_event_def validate_attr_def as_dict_def as_str_JStr)

lemma event_payload_frame:
  assumes "from_cio_event P ev = Inr pay"
  shows "event_payload ev = Inr (published_json ev pay)"
proof -
  from assms have v: "validate_attr ''message'' (as_str P) (ev_message ev) [] = Inr (pay_message pay)"
    "validate_attr ''metadata'' as_dict (ev_metadata ev) [] = Inr (pay_metadata pay)"
    "validate_attr ''timestamp'' (as_str P) (ev_timestamp ev) [] = Inr (pay_timestamp pay)"
    by (auto simp: from_cio_event_def split: sum.splits)
  obtain j where "serialisable (ev_metadata ev) (JObj []) = Inr j"
    "(if truthy j then j else JObj []) = JObj (pay_metadata pay)"
    using validate_dict [OF v(2)] by blast
  with validate_str [OF v(1)] validate_str [OF v(3)] show ?thesis
    by (simp add: event_payload_def published_json_def)
qed

end

context deployment
begin

lemma bus_close_run:
  assumes "client_ready w"
  shows "fst (bus_close E i w) = Inr ()"
    and "view (svc (snd (bus_close E i w))) = cmd_publish (channel i) done_message (view (svc w))"
proof -
  obtain n where "fst (r_publish (redis E) (channel i) done_message (svc w)) = Inr n"
    using publish_answers by blast
  with assms show "fst (bus_close E i w) = Inr ()"
    and "view (svc (snd (bus_close E i w))) = cmd_publish (channel i) done_message (view (svc w))"
    by (simp_all add: bus_close_def py_simps)
qed

lemma bus_publish_run:
  assumes "client_ready w" "event_payload ev = Inr j"
  shows "fst (bus_publish E i ev w) = Inr ()"
    and "view (svc (snd (bus_publish E i ev w))) = cmd_publish (channel i) (py_dumps E j) (view (svc w))"
proof -
  obtain n where "fst (r_publish (redis E) (channel i) (py_dumps E j) (svc w)) = Inr n"
    using publish_answers by blast
  with assms show "fst (bus_publish E i ev w) = Inr ()"
    and "view (svc (snd (bus_publish E i ev w))) = cmd_publish (channel i) (py_dumps E j) (view (svc w))"
    by (simp_all add: bus_publish_def py_simps)
qed

lemma bus_publish_refused:
  assumes "client_ready w" "event_payload ev = Inl e"
  shows "bus_publish E i ev w = (Inl e, w)"
  using assms by (simp add: bus_publish_def py_simps)

text \<open>Reading back the text of a published event gives a proxy with the same frame.\<close>

lemma published_proxy:
  assumes pay: "from_cio_event (pyd E) ev = Inr pay" and ty: "ev_type ev \<noteq> TypeNone"
    and wf: "wf_json (JObj (pay_metadata pay))"
  shows "\<exists>p. subscribe_turn E ka t
      (Message \<lparr>msg_type = Some ''message'', msg_data = Some (py_dumps E (published_json ev pay))\<rparr>) t'
        = Yield (Proxy p) \<and> build_sse_frame E p = build_sse_frame E ev"
proof -
  have loads: "loads E (py_dumps E (published_json ev pay)) = Some (published_json ev pay)"
    by (rule json_text.loads_dumps) (use wf in \<open>simp add: published_json_def\<close>)
  then have "py_dumps E (published_json ev pay) \<noteq> done_message"
    using done_no_json by (auto simp: done_message_def)
  moreover have "frame_type (TypeStr (published_type (ev_type ev))) = frame_type (ev_type ev)"
    using ty by (simp add: frame_type_def published_type_def split: type_attr.split)
  ultimately show ?thesis
    using loads pay
    by (simp add: subscribe_turn_def get_default_def published_json_def event_proxy_def
        build_sse_frame_def from_cio_event_fields payload_dump_def)
qed

lemma publish_delivers:
  assumes "client_ready w" and f: "build_sse_frame E ev = Inr f" and ty: "ev_type ev \<noteq> TypeNone"
    and wf: "\<And>pay. from_cio_event (pyd E) ev = Inr pay \<Longrightarrow> wf_json (JObj (pay_metadata pay))"
  shows "\<exists>s p. fst (bus_publish E i ev w) = Inr ()
    \<and> view (svc (snd (bus_publish E i ev w))) = cmd_publish (channel i) s (view (svc w))
    \<and> subscribe_turn E ka t (Message \<lparr>msg_type = Some ''message'', msg_data = Some s\<rparr>) t'
        = Yield (Proxy p)
    \<and> build_sse_frame E p = Inr f"
proof -
  obtain pay where pay: "from_cio_event (pyd E) ev = Inr pay"
    using f by (auto simp: build_sse_frame_def split: sum.splits)
  have "event_payload ev = Inr (published_json ev pay)"
    by (rule event_payload_frame [OF pay])
  note run = bus_publish_run [OF assms(1) this, of i]
  obtain p where p: "subscribe_turn E ka t
      (Message \<lparr>msg_type = Some ''message'', msg_data = Some (py_dumps E (published_json ev pay))\<rparr>) t'
        = Yield (Proxy p)" "build_sse_frame E p = build_sse_frame E ev"
    using published_proxy [OF pay ty wf [OF pay]] by blast
  show ?thesis
    by (intro exI [of _ "py_dumps E (published_json ev pay)"] exI [of _ p] conjI run p(1))
      (simp add: p(2) f)
qed

end

text \<open>One more poll, for a subscriber that still polls: what it yields and when it last yielded.\<close>

lemma bus_subscribe_snoc:
  assumes "bus_subscribe E ka t ps = (its, Polling last_yield)"
  shows "bus_subscribe E ka t (ps @ [(p, nw)]) =
    (case subscribe_turn E ka last_yield p nw of
       Again \<Rightarrow> (its, Polling last_yield)
     | Yield it \<Rightarrow> (its @ [it], Polling nw)
     | Return \<Rightarrow> (its, Returned)
     | Raise e \<Rightarrow> (its, Raised e))"
  using assms
proof (induction ps arbitrary: t its)
  case Nil
  then show ?case by (simp split: bus_turn.split)
next
  case (Cons x ps)
  obtain q n where x: "x = (q, n)" by (cases x)
  show ?case
  proof (cases "subscribe_turn E ka t q n")
    case Again
    with Cons.prems Cons.IH [of t its] show ?thesis by (simp add: x)
  next
    case (Yield it)
    obtain its' fin where rest: "bus_subscribe E ka n ps = (its', fin)" by (cases "bus_subscribe E ka n ps")
    with Yield Cons.prems have "its = it # its'" "fin = Polling last_yield" by (simp_all add: x)
    with Yield rest Cons.IH [of n its'] show ?thesis by (simp add: x split: bus_turn.split)
  qed (use Cons.prems in \<open>simp_all add: x\<close>)
qed

text \<open>After an idle poll the client has been heard from within the keepalive interval.\<close>

lemma keepalive_step:
  assumes "0 < ka" "snd (bus_subscribe E ka t (qs @ [(Nothing, nw)])) = Polling t'"
  shows "nw - t' < ka"
  using assms(2)
proof (induction qs arbitrary: t)
  case Nil
  with assms(1) show ?case by (auto simp: subscribe_turn_def split: if_splits)
next
  case (Cons x qs)
  obtain p n where "x = (p, n)" by (cases x)
  with Cons show ?case by (auto simp: split_beta split: bus_turn.splits)
qed

section \<open>Properties\<close>

text \<open>C16: what a frontend sees is what the engine emitted. Publishing an event that has an SSE frame
  sends one message on the channel of its task, and a subscriber that polls this message yields a
  proxy with exactly the frame of the event itself. (An event whose type is \<open>None\<close> is excepted: it is
  published as \<open>"None"\<close> but framed as \<open>"info"\<close>.)\<close>

theorem bus_roundtrip:
  assumes "deployment E view" "client_ready w" "build_sse_frame E ev = Inr f"
    and "ev_type ev \<noteq> TypeNone"
    and "\<And>pay. from_cio_event (pyd E) ev = Inr pay \<Longrightarrow> wf_json (JObj (pay_metadata pay))"
  shows "\<exists>s p. fst (bus_publish E i ev w) = Inr ()
    \<and> view (svc (snd (bus_publish E i ev w))) = cmd_publish (channel i) s (view (svc w))
    \<and> subscribe_turn E ka t (Message \<lparr>msg_type = Some ''message'', msg_data = Some s\<rparr>) t'
        = Yield (Proxy p)
    \<and> build_sse_frame E p = Inr f"
  by (rule deployment.publish_delivers [OF assms])

definition demo_event :: cio_event where
  "demo_event =
     \<lparr>ev_type = TypeValue ''step_start'', ev_message = Attr (JStr ''hello''), ev_metadata = Missing,
      ev_timestamp = Missing\<rparr>"

theorem bus_roundtrip_witness:
  "\<exists>s p. subscribe_turn mem_env 20 0 (Message \<lparr>msg_type = Some ''message'', msg_data = Some s\<rparr>) 1
      = Yield (Proxy p)
    \<and> (\<exists>body. build_sse_frame mem_env p = Inr (''step_start'', body))"
proof -
  have pay: "from_cio_event (pyd mem_env) demo_event
      = Inr \<lparr>pay_message = ''hello'', pay_metadata = [], pay_timestamp = []\<rparr>"
    by (simp add: from_cio_event_def validate_attr_def demo_event_def strict_pydantic_def)
  then have f: "build_sse_frame mem_env demo_event = Inr (''step_start'', json_dumps (payload_dump
      \<lparr>pay_message = ''hello'', pay_metadata = [], pay_timestamp = []\<rparr>))"
    by (simp add: build_sse_frame_def frame_type_def demo_event_def)
  show ?thesis
    using bus_roundtrip [OF memory.deployment_axioms start_world_simps(1) f, of "''i''" 20 0 1] pay
    by (auto simp: demo_event_def)
qed

text \<open>a subscriber loses, repeats and reorders nothing. Once the channel is subscribed to, whatever idle
  polls, keepalives, other kinds of messages and unparsable messages come between, the events the
  generator yields are exactly those of the messages on the channel before its end, in order. When the
  closing calls raise nothing worse than an \<open>Exception\<close>, it returns only at the end of the channel, and
  while it still polls it has not met one.\<close>

theorem subscribe_delivers:
  assumes "\<forall>p \<in> fst ` set polls. \<forall>e. p \<noteq> Broken e" "ps_subscribe ps = Inr ()"
  shows "events_of (fst (subscription E True ps ka t polls)) = delivered E (messages polls)
    \<and> (snd (subscription E True ps ka t polls) = Returned \<longrightarrow> done_message \<in> set (messages polls))
    \<and> (\<forall>t'. snd (subscription E True ps ka t polls) = Polling t' \<longrightarrow>
        done_message \<notin> set (messages polls))"
proof -
  have "snd (subscription E True ps ka t polls) = unsubscribed ps (snd (bus_subscribe E ka t polls))"
    "fst (subscription E True ps ka t polls) = fst (bus_subscribe E ka t polls)"
    using assms(2) by (simp_all add: subscription_def split_beta)
  moreover have "unsubscribed ps fin = Returned \<Longrightarrow> fin = Returned"
    "unsubscribed ps fin = Polling t' \<Longrightarrow> fin = Polling t'" for fin t'
    by (auto simp: unsubscribed_def split: bus_end.splits sum.splits if_splits)
  ultimately show ?thesis
    using bus_subscribe_events [OF assms(1)] bus_subscribe_returned bus_subscribe_polling by metis
qed

theorem subscribe_delivers_witness:
  "events_of (fst (subscription mem_env True
      \<lparr>ps_subscribe = Inr (), ps_unsubscribe = Inl (OtherError ''gone''), ps_aclose = Inr ()\<rparr> 20 0
      [(Nothing, 25), (Message \<lparr>msg_type = Some ''message'', msg_data = Some ''__DONE__''\<rparr>, 26)])) = []"
  using subscribe_delivers [of "[(Nothing, 25),
      (Message \<lparr>msg_type = Some ''message'', msg_data = Some ''__DONE__''\<rparr>, 26)]"
      "\<lparr>ps_subscribe = Inr (), ps_unsubscribe = Inl (OtherError ''gone''), ps_aclose = Inr ()\<rparr>" mem_env 20 0]
  by (simp add: done_message_def)

text \<open>C37: keepalives come in time. A subscriber that polls at time \<open>nw\<close> and finds nothing, and last
  yielded at \<open>last_yield\<close>, polls on whatever it has seen before: it yields a keepalive, and counts from
  \<open>nw\<close> on, exactly when the keepalive interval has passed, and yields nothing and keeps its time
  otherwise. So after an idle poll less than the interval has passed since the last yield, and when
  the poll before was idle too, the keepalive comes less than the time between the two polls after
  the interval. A message that is an event is yielded and restarts the interval.\<close>

theorem keepalive_in_time:
  assumes "0 < keepalive_interval"
    and "bus_subscribe E keepalive_interval t ps = (items, Polling last_yield)"
  shows "bus_subscribe E keepalive_interval t (ps @ [(Nothing, nw)]) =
      (if keepalive_interval \<le> nw - last_yield then (items @ [Keepalive], Polling nw)
       else (items, Polling last_yield))
    \<and> (\<forall>t'. snd (bus_subscribe E keepalive_interval t (ps @ [(Nothing, nw)])) = Polling t' \<longrightarrow>
         nw - t' < keepalive_interval)
    \<and> (\<forall>qs before. ps = qs @ [(Nothing, before)] \<longrightarrow>
         nw - last_yield < keepalive_interval + (nw - before))
    \<and> (\<forall>m ev. subscribe_turn E keepalive_interval last_yield (Message m) nw = Yield (Proxy ev) \<longrightarrow>
         bus_subscribe E keepalive_interval t (ps @ [(Message m, nw)]) = (items @ [Proxy ev], Polling nw))"
proof (intro conjI allI impI)
  show "bus_subscribe E keepalive_interval t (ps @ [(Nothing, nw)]) =
      (if keepalive_interval \<le> nw - last_yield then (items @ [Keepalive], Polling nw)
       else (items, Polling last_yield))"
    by (simp add: bus_subscribe_snoc [OF assms(2)] subscribe_turn_def)
  show "nw - t' < keepalive_interval"
    if "snd (bus_subscribe E keepalive_interval t (ps @ [(Nothing, nw)])) = Polling t'" for t'
    using keepalive_step [OF assms(1) that] .
  show "nw - last_yield < keepalive_interval + (nw - before)" if "ps = qs @ [(Nothing, before)]" for qs before
    using keepalive_step [OF assms(1), of E t qs before last_yield] assms(2) that by simp
qed (simp add: bus_subscribe_snoc [OF assms(2)])

theorem keepalive_in_time_witness:
  "bus_subscribe mem_env 20 0 ([(Nothing, 15)] @ [(Nothing, 25)]) = ([Keepalive], Polling 25)
    \<and> bus_subscribe mem_env 20 0 (([(Nothing, 15)] @ [(Nothing, 25)]) @ [(Nothing, 40)])
        = ([Keepalive], Polling 25)"
proof
  have run: "bus_subscribe mem_env 20 0 [(Nothing, 15)] = ([], Polling 0)"
    by (simp add: subscribe_turn_def)
  show first: "bus_subscribe mem_env 20 0 ([(Nothing, 15)] @ [(Nothing, 25)]) = ([Keepalive], Polling 25)"
    using keepalive_in_time [OF _ run, of 25] by simp
  show "bus_subscribe mem_env 20 0 (([(Nothing, 15)] @ [(Nothing, 25)]) @ [(Nothing, 40)])
        = ([Keepalive], Polling 25)"
    using keepalive_in_time [OF _ first, of 40] by simp
qed

end
