(* ===== verification/Api.thy ===== *)
theory Api
  imports Store_Invariant Event_Bus Config_Schema
begin

text \<open>
  The HTTP endpoints (\<open>src/api.py\<close>) and the request and response models of
  \<open>src/models/api_schemas.py\<close>: validation of \<open>POST /tasks\<close>, creation with its two deduplicating
  lookups, \<open>GET /tasks/{task_id}\<close> and the SSE stream of a task.
\<close>

section \<open>Requests and responses\<close>

record task_create_request =
  req_project_name :: string
  req_requirement :: string
  req_work_dir :: "string option"
  req_config_json :: "string option"

definition request_field ::
  "(string \<times> json) list \<Rightarrow> string \<Rightarrow> (json \<Rightarrow> 'a option) \<Rightarrow> exn + 'a \<Rightarrow> exn + 'a" where
  "request_field m k conv dflt =
     (case map_of m k of
        None \<Rightarrow> dflt
      | Some j \<Rightarrow> (case conv j of None \<Rightarrow> Inl (ValidationError k) | Some x \<Rightarrow> Inr x))"

text \<open>\<open>min_length=1, max_length=128\<close> count code points.\<close>

definition as_project_name :: "pydantic \<Rightarrow> json \<Rightarrow> string option" where
  "as_project_name P j =
     (case as_str P j of
        None \<Rightarrow> None
      | Some s \<Rightarrow> (if 1 \<le> py_len s \<and> py_len s \<le> 128 then Some s else None))"

definition as_optional_str :: "pydantic \<Rightarrow> json \<Rightarrow> string option option" where
  "as_optional_str P j = (if j = JNull then Some None else map_option Some (as_str P j))"

definition request_keys :: "string list" where
  "request_keys = [''project_name'', ''requirement'', ''work_dir'', ''config_json'']"

text \<open>The validator that runs after the fields: a \<open>ValueError\<close> becomes the 422 answer, any other
  exception leaves the request.\<close>

definition check_request :: "'r env \<Rightarrow> task_create_request \<Rightarrow> exn + task_create_request" where
  "check_request E body =
     (let raw = py_strip (or_empty (req_config_json body))
      in if raw = [] then Inr body
         else case validate_config_json E raw of
           Inl e \<Rightarrow> (if is_ValueError e then Inl (ValidationError (exn_str e)) else Inl e)
         | Inr _ \<Rightarrow> Inr body)"

definition parse_request :: "'r env \<Rightarrow> json \<Rightarrow> exn + task_create_request" where
  "parse_request E j =
     (case j of
        JObj m \<Rightarrow>
          (case filter (\<lambda>k. k \<notin> set request_keys) (map fst m) of
             k # _ \<Rightarrow> Inl (ValidationError k)
           | [] \<Rightarrow>
          (case request_field m ''project_name'' (as_project_name (pyd E))
                  (Inl (ValidationError ''project_name'')) of
             Inl e \<Rightarrow> Inl e
           | Inr p \<Rightarrow>
          (case request_field m ''requirement'' (as_str (pyd E)) (Inr []) of
             Inl e \<Rightarrow> Inl e
           | Inr r \<Rightarrow>
          (case request_field m ''work_dir'' (as_optional_str (pyd E)) (Inr None) of
             Inl e \<Rightarrow> Inl e
           | Inr wd \<Rightarrow>
          (case request_field m ''config_json'' (as_optional_str (pyd E)) (Inr None) of
             Inl e \<Rightarrow> Inl e
           | Inr cj \<Rightarrow>
               check_request E
                 \<lparr>req_project_name = p, req_requirement = r, req_work_dir = wd,
                  req_config_json = cj\<rparr>)))))
      | _ \<Rightarrow> Inl (ValidationError ''body''))"

record task_response =
  resp_task_id :: string
  resp_project_name :: string
  resp_requirement :: string
  resp_work_dir :: string
  resp_config_json :: string
  resp_mode :: task_mode
  resp_status :: task_status
  resp_created_at :: int
  resp_updated_at :: int
  resp_retry_count :: int
  resp_status_detail :: string

definition from_task :: "task \<Rightarrow> task_response" where
  "from_task t =
     \<lparr>resp_task_id = task_id t, resp_project_name = project_name t,
      resp_requirement = requirement t, resp_work_dir = work_dir t,
      resp_config_json = config_json t, resp_mode = mode t, resp_status = status t,
      resp_created_at = created_at t, resp_updated_at = updated_at t,
      resp_retry_count = retry_count t, resp_status_detail = status_detail t\<rparr>"

definition respond :: "obj \<Rightarrow> ('r, task_response) prog" where
  "respond x = py_bind (load x) (\<lambda>t. py_return (from_task t))"

section \<open>Endpoints\<close>

definition create_task :: "'r env \<Rightarrow> task_create_request \<Rightarrow> ('r, task_response) prog" where
  "create_task E body =
     py_bind (find_incomplete E (req_project_name body)) (\<lambda>existing.
     py_bind
       (case existing of
          None \<Rightarrow> find_by_digest E (req_project_name body) (req_requirement body)
        | Some x \<Rightarrow> py_return (Some x)) (\<lambda>existing.
       case existing of
         Some x \<Rightarrow> respond x
       | None \<Rightarrow>
           py_bind (new_task E (req_project_name body) (req_requirement body)
                      (or_empty (req_work_dir body)) (or_empty (req_config_json body))) (\<lambda>x.
           py_then (store_save E x)
             (py_then (enqueue E x) (respond x)))))"

definition not_found :: "string \<Rightarrow> exn" where
  "not_found i = HTTPException 404 (''Task '' @ py_repr i @ '' not found'')"

definition get_task :: "'r env \<Rightarrow> string \<Rightarrow> ('r, task_response) prog" where
  "get_task E i =
     py_bind (store_get E i) (\<lambda>res.
       case res of None \<Rightarrow> py_raise (not_found i) | Some x \<Rightarrow> respond x)"

text \<open>The answer of the stream endpoint: an empty stream for a finished task, or the stream of
  \<open>event_generator\<close>, with its keepalive interval.\<close>

datatype stream_response = EmptyStream | EventStream rat

definition stream_task :: "'r env \<Rightarrow> string \<Rightarrow> ('r, stream_response) prog" where
  "stream_task E i =
     py_bind (store_get E i) (\<lambda>res.
       case res of
         None \<Rightarrow> py_raise (not_found i)
       | Some x \<Rightarrow>
           py_bind (load x) (\<lambda>t.
             if is_terminal t then py_return EmptyStream
             else py_return (EventStream (sse_keepalive_interval (settings E)))))"

text \<open>
  The generator over the turns of its subscription; the flag of a turn is what
  \<open>request.is_disconnected()\<close> would answer then. It yields items and is either still waiting, done,
  or ended by an exception.
\<close>

datatype stream_end = Waiting | Done | Failed exn

fun event_generator ::
  "'r env \<Rightarrow> string \<Rightarrow> rat \<Rightarrow> rat \<Rightarrow> (poll \<times> rat \<times> bool) list \<Rightarrow>
   ('r, sse_item list \<times> stream_end) prog" where
  "event_generator E i ka t [] = py_return ([], Waiting)"
| "event_generator E i ka t ((p, nw, disconnected) # ps) =
     (case subscribe_turn E ka t p nw of
        Again \<Rightarrow> event_generator E i ka t ps
      | Return \<Rightarrow> py_return ([], Done)
      | Raise e \<Rightarrow> py_return ([], Failed e)
      | Yield it \<Rightarrow>
          (if disconnected then py_return ([], Done)
           else case it of
             Keepalive \<Rightarrow>
               py_bind (event_generator E i ka nw ps) (\<lambda>(fs, fin).
                 py_return (KeepaliveFrame # fs, fin))
           | Proxy ev \<Rightarrow>
               (case build_sse_frame E ev of
                  Inl e \<Rightarrow> py_return ([], Failed e)
                | Inr (ty, body) \<Rightarrow>
                    (if is_terminal_event ty
                     then py_try (py_then (bus_close E i) (py_return ([Frame ty body], Done)))
                            (\<lambda>e. py_return ([Frame ty body], Failed e))
                     else py_bind (event_generator E i ka nw ps) (\<lambda>(fs, fin).
                            py_return (Frame ty body # fs, fin))))))"

definition health :: json where
  "health = JObj [(''status'', JStr ''ok'')]"

section \<open>What creating a task does\<close>

text \<open>The task a request is answered with when it is a duplicate: an unfinished task of the project,
  or else the task its digest names.\<close>

definition duplicate :: "'r env \<Rightarrow> keyspace \<Rightarrow> task_create_request \<Rightarrow> task \<Rightarrow> bool" where
  "duplicate E K body t =
     ((\<exists>i \<in> members K (req_project_name body). holds E K i t \<and> is_incomplete t)
      \<or> (\<forall>i \<in> members K (req_project_name body). \<forall>u. holds E K i u \<longrightarrow> \<not> is_incomplete u)
        \<and> (\<exists>i. ks_keys K (digest_key E (req_project_name body) (req_requirement body))
              = Some (RStr i) \<and> hex32 i \<and> holds E K i t))"

text \<open>The task made for a request when \<open>n\<close> is the count of readings of clock and id generator.\<close>

definition created_task :: "'r env \<Rightarrow> nat \<Rightarrow> task_create_request \<Rightarrow> task" where
  "created_task E n body =
     \<lparr>task_id = uuid_at E n, project_name = req_project_name body,
      requirement = req_requirement body, work_dir = or_empty (req_work_dir body),
      config_json = or_empty (req_config_json body), mode = UNKNOWN, status = PENDING,
      created_at = time_at E (Suc n), updated_at = time_at E (Suc (Suc n)), retry_count = 0,
      status_detail = []\<rparr>"

text \<open>The end of \<open>create_task\<close>, for a request without a duplicate.\<close>

definition make_task :: "'r env \<Rightarrow> task_create_request \<Rightarrow> ('r, task_response) prog" where
  "make_task E body =
     py_bind (new_task E (req_project_name body) (req_requirement body)
        (or_empty (req_work_dir body)) (or_empty (req_config_json body))) (\<lambda>x.
       py_then (store_save E x) (py_then (enqueue E x) (respond x)))"

text \<open>The hash does not give a stored task the digest of another pair of project and requirement, and no
  stored project name has the separator. Of SHA-256 this can be asked for the texts that are stored.\<close>

definition hash_separates :: "'r env \<Rightarrow> keyspace \<Rightarrow> string \<Rightarrow> string \<Rightarrow> bool" where
  "hash_separates E K p r =
     (\<forall>i t. hex32 i \<longrightarrow> holds E K i t \<longrightarrow>
        char_of (0::nat) \<notin> set (project_name t)
        \<and> (digest_of E (project_name t) (requirement t) = digest_of E p r \<longrightarrow>
             project_name t @ [char_of (0::nat)] @ requirement t = p @ [char_of (0::nat)] @ r))"

lemma created_task_live [simp]:
  "is_incomplete (created_task E n body)" "\<not> is_terminal (created_task E n body)"
  "task_id (created_task E n body) = uuid_at E n"
  "project_name (created_task E n body) = req_project_name body"
  "requirement (created_task E n body) = req_requirement body"
  by (simp_all add: created_task_def is_incomplete_def is_terminal_def)

text \<open>A separator that is in neither prefix splits a list in one way.\<close>

lemma split_at: "a @ x # b = c @ x # d \<Longrightarrow> x \<notin> set a \<Longrightarrow> x \<notin> set c \<Longrightarrow> a = c \<and> b = d"
  by (induction a arbitrary: c) (auto simp: Cons_eq_append_conv)

context deployment
begin

lemma saved_holds:
  assumes "projects_inv E K" "hex32 (task_id t)" "hex32 i"
  shows "holds E (saved E t K) i u \<longleftrightarrow> (if i = task_id t then u = t else holds E K i u)"
    and "members (saved E t K) p =
      (if p = project_name t then insert (task_id t) (members K p) else members K p)"
proof -
  obtain xs where xs: "set xs = insert (task_id t) (members K (project_name t))"
    "ks_keys (saved E t K) =
        (if requirement t \<noteq> []
         then (ks_keys K)(task_key (task_id t) \<mapsto> RStr (enc E t),
                project_tasks_key (project_name t) \<mapsto> RSet xs,
                digest_key E (project_name t) (requirement t) \<mapsto> RStr (task_id t))
         else (ks_keys K)(task_key (task_id t) \<mapsto> RStr (enc E t),
                project_tasks_key (project_name t) \<mapsto> RSet xs))"
    using saved_keys [OF assms(1)] by blast
  then show "holds E (saved E t K) i u \<longleftrightarrow> (if i = task_id t then u = t else holds E K i u)"
    using assms by (auto simp: holds_def)
  from xs show "members (saved E t K) p =
      (if p = project_name t then insert (task_id t) (members K p) else members K p)"
    by (simp add: members_def)
qed

lemma queued_holds [simp]:
  "holds E (queued E t K) i u \<longleftrightarrow> holds E K i u" "members (queued E t K) p = members K p"
  "queue_of (queued E t K) = enc E t # queue_of K"
  by (simp_all add: holds_def members_def queued_keys queue_of_def)

lemma saved_queue [simp]: "projects_inv E K \<Longrightarrow> queue_of (saved E t K) = queue_of K"
  using saved_keys [of E K t] by (auto simp: queue_of_def)

text \<open>The branch that makes a task.\<close>

lemma create_new:
  assumes w: "client_ready w" and proj: "projects_inv E (view (svc w))"
    and queue: "queue_inv E (view (svc w))"
    and fresh: "ks_keys (view (svc w)) (task_key (uuid_at E (ticks w))) = None"
    and t: "t = created_task E (ticks w) body"
  defines "m \<equiv> make_task E body"
  shows "fst (m w) = Inr (from_task t)"
    and "view (svc (snd (m w))) = queued E t (saved E t (view (svc w)))"
    and "client_ready (snd (m w))"
    and "pending (snd (m w)) = pending w" "engine_cache (snd (m w)) = engine_cache w"
proof -
  let ?x = "next_obj w"
  let ?w1 = "w\<lparr>heap := (heap w)(?x := t), next_obj := Suc ?x, ticks := Suc (Suc (Suc (ticks w)))\<rparr>"
  let ?w2 = "snd (store_save E ?x ?w1)"
  let ?w3 = "snd (enqueue E ?x ?w2)"
  have proj1: "projects_inv E (view (svc ?w1))" using proj by simp
  have fresh1: "ks_keys (view (svc ?w1)) (task_key (task_id (heap ?w1 ?x))) = None"
    using fresh t by simp
  have s: "fst (store_save E ?x ?w1) = Inr ()" "view (svc ?w2) = saved E t (view (svc w))"
    using store_save_run(1) [OF _ proj1 fresh1] w by simp_all
  have queue2: "queue_inv E (view (svc ?w2))"
    unfolding s(2) using proj queue fresh t uuid_hex by (intro saved_carries(2)) simp_all
  have e: "fst (enqueue E ?x ?w2) = Inr ()"
    "view (svc ?w3) = queued E t (view (svc ?w2))"
    using enqueue_run [of ?w2 ?x] queue2 w by simp_all
  have run: "m w = (Inr (from_task t), ?w3)"
    using s(1) e(1) t
    by (simp add: m_def make_task_def py_simps new_task_run respond_def created_task_def)
  show "fst (m w) = Inr (from_task t)" "client_ready (snd (m w))"
    "view (svc (snd (m w))) = queued E t (saved E t (view (svc w)))"
    using run w e(2) s(2) by simp_all
  show "pending (snd (m w)) = pending w" "engine_cache (snd (m w)) = engine_cache w"
    by (simp_all add: run)
qed

lemma queued_saved_inv:
  assumes inv: "store_inv E K" and hex: "hex32 (task_id t)"
    and fresh: "ks_keys K (task_key (task_id t)) = None" and live: "\<not> is_terminal t"
  shows "store_inv E (queued E t (saved E t K))"
proof -
  have "holds E (saved E t K) (task_id t) t"
    using saved_holds(1) [of K t "task_id t" t] inv hex by (simp add: store_inv_def)
  with saved_inv [OF assms] hex show ?thesis by (intro queued_inv [where t' = t]) simp_all
qed

text \<open>The two ways of a request. The lookups rest on the project sets and the digest keys only.\<close>

lemma create_task_lookup:
  assumes w: "client_ready w" and proj: "projects_inv E (view (svc w))"
    and digs: "digests_inv E (view (svc w))"
  obtains (existing) t where "fst (create_task E body w) = Inr (from_task t)"
      "duplicate E (view (svc w)) body t" "extends view w (snd (create_task E body w))"
  | (missing) w2 where "\<forall>u. \<not> duplicate E (view (svc w)) body u" "extends view w w2"
      "create_task E body w = make_task E body w2"
proof -
  let ?K = "view (svc w)" and ?p = "req_project_name body" and ?r = "req_requirement body"
  let ?w1 = "snd (find_incomplete E ?p w)"
  obtain f where f: "fst (find_incomplete E ?p w) = Inr f" and ext1: "extends view w ?w1"
    and fr: "case f of
         None \<Rightarrow> \<forall>i \<in> members ?K ?p. \<forall>t. holds E ?K i t \<longrightarrow> \<not> is_incomplete t
       | Some x \<Rightarrow> next_obj w \<le> x \<and> is_incomplete (heap ?w1 x)
           \<and> (\<exists>i \<in> members ?K ?p. holds E ?K i (heap ?w1 x))"
    using find_incomplete_sets [OF w proj] by blast
  show thesis
  proof (cases f)
    case (Some x)
    with f have "create_task E body w = (Inr (from_task (heap ?w1 x)), ?w1)"
      by (simp add: create_task_def respond_def py_simps)
    with Some fr ext1 show thesis by (intro existing) (auto simp: duplicate_def)
  next
    case None
    with fr have none: "\<forall>i \<in> members ?K ?p. \<forall>t. holds E ?K i t \<longrightarrow> \<not> is_incomplete t" by simp
    have w1: "client_ready ?w1" "view (svc ?w1) = ?K"
      using extendsD(1-2) [OF ext1] w by simp_all
    let ?w2 = "snd (find_by_digest E ?p ?r ?w1)"
    obtain d where d: "fst (find_by_digest E ?p ?r ?w1) = Inr d" and ext2: "extends view ?w1 ?w2"
      and dr: "case d of None \<Rightarrow> ks_keys ?K (digest_key E ?p ?r) = None
         | Some x \<Rightarrow> next_obj ?w1 \<le> x
             \<and> (\<exists>i. hex32 i \<and> holds E ?K i (heap ?w2 x)
                  \<and> ks_keys ?K (digest_key E ?p ?r) = Some (RStr i))
             \<and> requirement (heap ?w2 x) \<noteq> [] \<and> \<not> is_terminal (heap ?w2 x)
             \<and> digest_of E (project_name (heap ?w2 x)) (requirement (heap ?w2 x)) = digest_of E ?p ?r"
      using find_by_digest_digests [OF w1(1), of ?p ?r] digs unfolding w1(2) by blast
    have ext: "extends view w ?w2" using ext1 ext2 by (rule extends_trans)
    show thesis
    proof (cases d)
      case (Some x)
      with f None d have "create_task E body w = (Inr (from_task (heap ?w2 x)), ?w2)"
        by (simp add: create_task_def respond_def py_simps)
      with Some dr ext none show thesis by (intro existing) (auto simp: duplicate_def)
    next
      case nodig: None
      have "create_task E body w = make_task E body ?w2"
        using f None d nodig by (simp add: create_task_def make_task_def py_simps)
      moreover have "\<forall>u. \<not> duplicate E ?K body u"
        using none dr nodig by (auto simp: duplicate_def)
      ultimately show thesis using ext by (intro missing)
    qed
  qed
qed

lemma create_task_paths:
  assumes w: "client_ready w" and proj: "projects_inv E (view (svc w))"
    and digs: "digests_inv E (view (svc w))" and queue: "queue_inv E (view (svc w))"
    and fresh: "ks_keys (view (svc w)) (task_key (uuid_at E (ticks w))) = None"
  obtains (existing) t where "fst (create_task E body w) = Inr (from_task t)"
      "duplicate E (view (svc w)) body t" "extends view w (snd (create_task E body w))"
  | (created) t where "t = created_task E (ticks w) body"
      "\<forall>u. \<not> duplicate E (view (svc w)) body u"
      "fst (create_task E body w) = Inr (from_task t)"
      "view (svc (snd (create_task E body w))) = queued E t (saved E t (view (svc w)))"
      "client_ready (snd (create_task E body w))"
      "pending (snd (create_task E body w)) = pending w"
      "engine_cache (snd (create_task E body w)) = engine_cache w"
proof (cases rule: create_task_lookup [OF w proj digs, of body])
  case (1 t)
  then show thesis by (rule existing)
next
  case (2 w2)
  then have w2: "client_ready w2" "view (svc w2) = view (svc w)" "ticks w2 = ticks w"
    "pending w2 = pending w" "engine_cache w2 = engine_cache w"
    using w by (simp_all add: extends_def)
  from 2(1,3) show thesis
    using create_new [OF w2(1) _ _ _ refl, of body] proj queue fresh
    by (intro created) (simp_all add: w2)
qed

text \<open>A new id that is taken: the save raises, and nothing is queued.\<close>

lemma create_task_taken:
  assumes w: "client_ready w" and inv: "store_inv E (view (svc w))"
    and taken: "ks_keys (view (svc w)) (task_key (uuid_at E (ticks w))) \<noteq> None"
    and nodup: "\<forall>t. \<not> duplicate E (view (svc w)) body t"
  shows "fst (create_task E body w) = Inl (task_exists (uuid_at E (ticks w)))
    \<and> view (svc (snd (create_task E body w))) = view (svc w)"
proof -
  have parts: "projects_inv E (view (svc w))" "digests_inv E (view (svc w))"
    using inv by (simp_all add: store_inv_def)
  show ?thesis
  proof (cases rule: create_task_lookup [OF w parts, of body])
    case (1 t)
    with nodup show ?thesis by blast
  next
    case (2 w2)
    then have w2: "client_ready w2" "view (svc w2) = view (svc w)" "ticks w2 = ticks w"
      using w by (simp_all add: extends_def)
    let ?x = "next_obj w2" and ?t = "created_task E (ticks w2) body"
    let ?w3 = "w2\<lparr>heap := (heap w2)(?x := ?t), next_obj := Suc ?x, ticks := Suc (Suc (Suc (ticks w2)))\<rparr>"
    have s: "fst (store_save E ?x ?w3) = Inl (task_exists (uuid_at E (ticks w2)))"
      "view (svc (snd (store_save E ?x ?w3))) = view (svc w2)"
      using store_save_run(2) [of ?w3 ?x] parts taken w2 by simp_all
    have "make_task E body w2 = (Inl (task_exists (uuid_at E (ticks w2))), snd (store_save E ?x ?w3))"
      using s(1) by (simp add: make_task_def py_simps new_task_run created_task_def)
    with 2(3) s(2) show ?thesis by (simp add: w2)
  qed
qed

lemma create_task_cases:
  assumes w: "client_ready w" and inv: "store_inv E (view (svc w))"
    and fresh: "ks_keys (view (svc w)) (task_key (uuid_at E (ticks w))) = None"
  obtains (existing) t where "fst (create_task E body w) = Inr (from_task t)"
      "duplicate E (view (svc w)) body t" "extends view w (snd (create_task E body w))"
  | (created) t where "t = created_task E (ticks w) body"
      "\<forall>u. \<not> duplicate E (view (svc w)) body u"
      "fst (create_task E body w) = Inr (from_task t)"
      "view (svc (snd (create_task E body w))) = queued E t (saved E t (view (svc w)))"
      "client_ready (snd (create_task E body w))"
      "store_inv E (view (svc (snd (create_task E body w))))"
      "pending (snd (create_task E body w)) = pending w"
      "engine_cache (snd (create_task E body w)) = engine_cache w"
proof -
  have parts: "projects_inv E (view (svc w))" "digests_inv E (view (svc w))" "queue_inv E (view (svc w))"
    using inv by (simp_all add: store_inv_def)
  show thesis
  proof (cases rule: create_task_paths [OF w parts fresh, of body])
    case (1 t)
    then show thesis by (rule existing)
  next
    case (2 t)
    then show thesis using inv fresh uuid_hex by (intro created) (simp_all add: queued_saved_inv)
  qed
qed

lemma create_task_existing:
  assumes w: "client_ready w" and inv: "store_inv E (view (svc w))"
    and some: "i \<in> members (view (svc w)) (req_project_name body)" "holds E (view (svc w)) i t"
      "is_incomplete t"
  shows "\<exists>u. fst (create_task E body w) = Inr (from_task u) \<and> is_incomplete u
    \<and> (\<exists>j \<in> members (view (svc w)) (req_project_name body). holds E (view (svc w)) j u)
    \<and> extends view w (snd (create_task E body w))"
proof -
  let ?w1 = "snd (find_incomplete E (req_project_name body) w)"
  obtain f where f: "fst (find_incomplete E (req_project_name body) w) = Inr f" "extends view w ?w1"
    and fr: "case f of
         None \<Rightarrow> \<forall>i \<in> members (view (svc w)) (req_project_name body).
             \<forall>t. holds E (view (svc w)) i t \<longrightarrow> \<not> is_incomplete t
       | Some x \<Rightarrow> next_obj w \<le> x \<and> is_incomplete (heap ?w1 x)
           \<and> (\<exists>i \<in> members (view (svc w)) (req_project_name body).
                 holds E (view (svc w)) i (heap ?w1 x))"
    using find_incomplete_run [OF w inv] by blast
  have "f \<noteq> None" using fr some by (cases f) auto
  with f fr obtain x where
    x: "fst (find_incomplete E (req_project_name body) w) = Inr (Some x)" "extends view w ?w1"
    "is_incomplete (heap ?w1 x)"
    "\<exists>i \<in> members (view (svc w)) (req_project_name body). holds E (view (svc w)) i (heap ?w1 x)"
    by auto
  then have "create_task E body w = (Inr (from_task (heap ?w1 x)), ?w1)"
    by (simp add: create_task_def respond_def py_simps)
  with x show ?thesis by auto
qed

text \<open>A task that was just created is the only incomplete one of its project, so the next request for
  the project finds it.\<close>

lemma created_only:
  assumes inv: "store_inv E K" and hex: "hex32 (task_id t)" and p: "project_name t = req_project_name body"
    and nodup: "\<forall>u. \<not> duplicate E K body u"
    and u: "is_incomplete u" "j \<in> members (queued E t (saved E t K)) (req_project_name body)"
      "holds E (queued E t (saved E t K)) j u"
  shows "u = t"
proof -
  have "projects_inv E K" using inv by (simp add: store_inv_def)
  note s = saved_holds [OF this hex]
  show ?thesis
  proof (cases "j = task_id t")
    case True
    with u(3) s(1) [OF hex] show ?thesis by simp
  next
    case False
    with u(2) s(2) [OF hex] p have j: "j \<in> members K (req_project_name body)" by simp
    with projects_invD [OF inv] have "hex32 j" by blast
    with False u(3) s(1) have "holds E K j u" by simp
    with j u(1) nodup show ?thesis unfolding duplicate_def by blast
  qed
qed

lemma create_task_again:
  assumes "client_ready w" and inv: "store_inv E (view (svc w))"
    and fresh: "ks_keys (view (svc w)) (task_key (uuid_at E (ticks w))) = None"
    and nodup: "\<forall>t. \<not> duplicate E (view (svc w)) body t"
    and same: "req_project_name body' = req_project_name body"
  defines "w1 \<equiv> snd (create_task E body w)"
  shows "fst (create_task E body' w1) = fst (create_task E body w)
    \<and> view (svc (snd (create_task E body' w1))) = view (svc w1)"
proof (cases rule: create_task_cases [OF assms(1) inv fresh, of body])
  case (1 t)
  with nodup show ?thesis by blast
next
  case (2 t)
  let ?K = "view (svc w)" and ?p = "req_project_name body"
  have hex: "hex32 (task_id t)" and p: "project_name t = ?p" and inc: "is_incomplete t"
    using 2(1) uuid_hex by simp_all
  have K1: "view (svc w1) = queued E t (saved E t ?K)" using 2(4) by (simp add: w1_def)
  have "task_id t \<in> members (view (svc w1)) (req_project_name body')"
    "holds E (view (svc w1)) (task_id t) t"
    using saved_holds [OF _ hex hex, of ?K] inv p same by (simp_all add: K1 store_inv_def)
  from create_task_existing [OF _ _ this inc] obtain u j where
    u: "fst (create_task E body' w1) = Inr (from_task u)" "is_incomplete u"
      "j \<in> members (view (svc w1)) ?p" "holds E (view (svc w1)) j u"
    and ext: "extends view w1 (snd (create_task E body' w1))"
    using 2(5,6) unfolding same w1_def by blast
  have "u = t" by (rule created_only [OF inv hex p nodup u(2-4) [unfolded K1]])
  with u(1) 2(3) extendsD(1) [OF ext] show ?thesis by simp
qed

lemma get_task_run:
  assumes "client_ready w"
  shows "holds E (view (svc w)) i t \<Longrightarrow> fst (get_task E i w) = Inr (from_task t)"
    and "ks_keys (view (svc w)) (task_key i) = None \<Longrightarrow> fst (get_task E i w) = Inl (not_found i)"
  using store_get_run [OF assms]
  by (simp_all add: get_task_def respond_def py_simps)

text \<open>What the duplicate of a request has in common with it, where the hash does not confuse the request
  with a stored task and no name has the separator.\<close>

lemma digest_of_same:
  assumes nul: "char_of (0::nat) \<notin> set p" "char_of (0::nat) \<notin> set (project_name t)"
    and digest: "digest_of E (project_name t) (requirement t) = digest_of E p r"
    and sha: "digest_of E (project_name t) (requirement t) = digest_of E p r \<longrightarrow>
      project_name t @ [char_of (0::nat)] @ requirement t = p @ [char_of (0::nat)] @ r"
  shows "project_name t = p \<and> requirement t = r"
  using split_at [of "project_name t" "char_of (0::nat)" "requirement t" p r] nul digest sha by auto

lemma record_id: "store_inv E K \<Longrightarrow> hex32 i \<Longrightarrow> holds E K i t \<Longrightarrow> task_id t = i"
  by (auto simp: store_inv_def records_inv_def holds_def)

lemma duplicate_sound:
  assumes inv: "store_inv E K" and dup: "duplicate E K body t"
    and nul: "char_of (0::nat) \<notin> set (req_project_name body)"
    and sep: "hash_separates E K (req_project_name body) (req_requirement body)"
  shows "hex32 (task_id t) \<and> holds E K (task_id t) t \<and> project_name t = req_project_name body
    \<and> (is_incomplete t \<or> is_resumable t \<and> requirement t = req_requirement body
         \<and> requirement t \<noteq> [])"
  using dup unfolding duplicate_def
proof
  assume "\<exists>i \<in> members K (req_project_name body). holds E K i t \<and> is_incomplete t"
  then obtain i where i: "i \<in> members K (req_project_name body)" "holds E K i t" "is_incomplete t"
    by blast
  with projects_invD [OF inv i(1)] record_id [OF inv] show ?thesis by (auto simp: holds_def)
next
  assume asm: "(\<forall>i \<in> members K (req_project_name body). \<forall>u. holds E K i u \<longrightarrow> \<not> is_incomplete u)
    \<and> (\<exists>i. ks_keys K (digest_key E (req_project_name body) (req_requirement body))
          = Some (RStr i) \<and> hex32 i \<and> holds E K i t)"
  then obtain i where i: "ks_keys K (digest_key E (req_project_name body) (req_requirement body))
      = Some (RStr i)" "hex32 i" "holds E K i t" by blast
  from inv i(1) have "live_digest E K
      (digest_of E (req_project_name body) (req_requirement body)) (RStr i)"
    by (simp add: store_inv_def digests_inv_def digest_key_def)
  with i(3) have t: "requirement t \<noteq> []" "\<not> is_terminal t"
    "digest_of E (project_name t) (requirement t)
      = digest_of E (req_project_name body) (req_requirement body)"
    by (auto simp: live_digest_def holds_def)
  have eq: "project_name t = req_project_name body \<and> requirement t = req_requirement body"
    using digest_of_same [OF nul _ t(3)] sep i(2,3) unfolding hash_separates_def by blast
  from inv i obtain u where "holds E K i u" "i \<in> members K (project_name u)"
    by (auto simp: store_inv_def records_inv_def holds_def)
  with i(3) have "i \<in> members K (project_name t)" by (simp add: holds_def)
  with asm eq i(3) have "\<not> is_incomplete t" by auto
  with t(2) have "is_resumable t" using status_trichotomy [of t] by blast
  with eq t(1) i(2,3) record_id [OF inv i(2,3)] show ?thesis by simp
qed

lemma digest_hit_sound:
  assumes w: "client_ready w" and inv: "store_inv E (view (svc w))"
    and nul: "char_of (0::nat) \<notin> set p" and sep: "hash_separates E (view (svc w)) p r"
    and hit: "fst (find_by_digest E p r w) = Inr (Some x)"
  shows "let t = heap (snd (find_by_digest E p r w)) x
    in holds E (view (svc w)) (task_id t) t \<and> project_name t = p \<and> requirement t = r \<and> r \<noteq> []
      \<and> \<not> is_terminal t"
proof -
  let ?t = "heap (snd (find_by_digest E p r w)) x"
  have "digests_inv E (view (svc w))" using inv by (simp add: store_inv_def)
  from find_by_digest_digests [OF w this, of p r] hit obtain i where
    i: "hex32 i" "holds E (view (svc w)) i ?t" and t: "requirement ?t \<noteq> []" "\<not> is_terminal ?t"
      "digest_of E (project_name ?t) (requirement ?t) = digest_of E p r"
    by auto
  have "project_name ?t = p \<and> requirement ?t = r"
    using digest_of_same [OF nul _ t(3)] sep i unfolding hash_separates_def by blast
  with t i record_id [OF inv i] show ?thesis by (auto simp: Let_def)
qed

text \<open>Every answer of \<open>create_task\<close>.\<close>

lemma create_task_answers:
  assumes w: "client_ready w" and inv: "store_inv E (view (svc w))"
    and nul: "char_of (0::nat) \<notin> set (req_project_name body)"
    and sep: "hash_separates E (view (svc w)) (req_project_name body) (req_requirement body)"
    and a: "fst (create_task E body w) = Inr a"
  shows "\<exists>t. a = from_task t \<and> holds E (view (svc (snd (create_task E body w)))) (task_id t) t
    \<and> project_name t = req_project_name body
    \<and> (is_incomplete t \<or> is_resumable t \<and> requirement t = req_requirement body \<and> requirement t \<noteq> [])"
proof -
  let ?K = "view (svc w)"
  have parts: "projects_inv E ?K" "digests_inv E ?K" using inv by (simp_all add: store_inv_def)
  show ?thesis
  proof (cases rule: create_task_lookup [OF w parts, of body])
    case (1 t)
    with duplicate_sound [OF inv 1(2) nul sep] extendsD(1) [OF 1(3)] a show ?thesis
      by (intro exI [of _ t]) simp
  next
    case (2 w2)
    then have fresh: "ks_keys ?K (task_key (uuid_at E (ticks w))) = None"
      using create_task_taken [OF w inv _ 2(1)] a by (metis Inl_Inr_False)
    show ?thesis
    proof (cases rule: create_task_cases [OF w inv fresh, of body])
      case (1 t)
      with 2(1) show ?thesis by blast
    next
      case (2 t)
      have hex: "hex32 (task_id t)" using 2(1) uuid_hex by simp
      from saved_holds(1) [OF parts(1) hex hex, of t] 2(1,3,4) a show ?thesis
        by (intro exI [of _ t]) simp
    qed
  qed
qed

end

section \<open>What a stream shows\<close>

definition polls :: "(poll \<times> rat \<times> bool) list \<Rightarrow> (poll \<times> rat) list" where
  "polls ps = map (\<lambda>(p, nw, _). (p, nw)) ps"

fun sse_frames :: "sse_item list \<Rightarrow> (string \<times> string) list" where
  "sse_frames [] = []"
| "sse_frames (KeepaliveFrame # fs) = sse_frames fs"
| "sse_frames (Frame ty body # fs) = (ty, body) # sse_frames fs"

text \<open>Frames of events up to the first terminal one, or the first that has no frame.\<close>

fun frames_until_end :: "'r env \<Rightarrow> cio_event list \<Rightarrow> (string \<times> string) list" where
  "frames_until_end E [] = []"
| "frames_until_end E (ev # evs) =
     (case build_sse_frame E ev of
        Inl e \<Rightarrow> []
      | Inr f \<Rightarrow> (if is_terminal_event (fst f) then [f] else f # frames_until_end E evs))"

lemma event_generator_frames:
  assumes "\<forall>(p, nw, d) \<in> set ps. \<not> d \<and> (\<forall>e. p \<noteq> Broken e)"
  shows "\<exists>fs fin. fst (event_generator E i ka t ps w) = Inr (fs, fin)
    \<and> sse_frames fs = frames_until_end E (delivered E (messages (polls ps)))"
  using assms
proof (induction ps arbitrary: t w)
  case Nil
  then show ?case by (simp add: py_simps polls_def)
next
  case (Cons x ps)
  obtain p nw d where x: "x = (p, nw, d)" by (cases x)
  with Cons.prems have d: "\<not> d" "\<forall>e. p \<noteq> Broken e" by auto
  have IH: "\<exists>fs fin. fst (event_generator E i ka t ps w) = Inr (fs, fin)
    \<and> sse_frames fs = frames_until_end E (delivered E (messages (polls ps)))" for t w
    using Cons by simp
  show ?case
  proof (cases p)
    case Nothing
    with x d IH [of t w] IH [of nw w] show ?thesis
      by (auto simp: subscribe_turn_def polls_def py_simps)
  next
    case (Message msg)
    show ?thesis
    proof (cases "subscribe_turn E ka t p nw")
      case Again
      then have "delivered E (messages (polls (x # ps))) = delivered E (messages (polls ps))"
        using Message x by (auto simp: subscribe_turn_def polls_def split: if_splits option.splits json.splits)
      with Again x IH [of t w] show ?thesis by simp
    next
      case (Yield it)
      then obtain ev where it: "it = Proxy ev"
        and del: "delivered E (messages (polls (x # ps))) = ev # delivered E (messages (polls ps))"
        using Message x by (auto simp: subscribe_turn_def polls_def split: if_splits option.splits json.splits)
      obtain fs fin where fs: "fst (event_generator E i ka nw ps w) = Inr (fs, fin)"
        "sse_frames fs = frames_until_end E (delivered E (messages (polls ps)))"
        using IH by blast
      show ?thesis
        unfolding del using Yield it x d fs
        by (cases "build_sse_frame E ev") (auto simp: py_simps split: sum.split)
    next
      case Return
      then have "delivered E (messages (polls (x # ps))) = []"
        using Message x by (auto simp: subscribe_turn_def polls_def split: if_splits option.splits json.splits)
      with Return x show ?thesis by (simp add: py_simps)
    next
      case (Raise e)
      then have "delivered E (messages (polls (x # ps))) = []"
        using Message x by (auto simp: subscribe_turn_def polls_def split: if_splits option.splits json.splits)
      with Raise x show ?thesis by (simp add: py_simps)
    qed
  next
    case (Broken e)
    with d show ?thesis by simp
  qed
qed

section \<open>Properties\<close>

text \<open>C6: creating a task. \<open>POST /tasks\<close> answers with a stored duplicate and changes nothing stored, or,
  exactly when there is none, makes a pending task with a new id, stores it, registers it in the set of
  its project and, with a requirement, under its digest, queues it behind all others and answers with it; the invariant of the store holds afterwards.\<close>

theorem create_task_outcome:
  assumes "deployment E view" "client_ready w" "store_inv E (view (svc w))"
    and "ks_keys (view (svc w)) (task_key (uuid_at E (ticks w))) = None"
  shows "store_inv E (view (svc (snd (create_task E body w))))
    \<and> (if \<exists>t. duplicate E (view (svc w)) body t
       then view (svc (snd (create_task E body w))) = view (svc w)
            \<and> (\<exists>t. duplicate E (view (svc w)) body t
                  \<and> fst (create_task E body w) = Inr (from_task t))
       else let t = created_task E (ticks w) body
            in fst (create_task E body w) = Inr (from_task t)
               \<and> holds E (view (svc (snd (create_task E body w)))) (task_id t) t
               \<and> task_id t \<in> members (view (svc (snd (create_task E body w)))) (req_project_name body)
               \<and> (req_requirement body \<noteq> [] \<longrightarrow>
                    ks_keys (view (svc (snd (create_task E body w))))
                      (digest_key E (req_project_name body) (req_requirement body)) = Some (RStr (task_id t)))
               \<and> queue_of (view (svc (snd (create_task E body w)))) = enc E t # queue_of (view (svc w)))"
proof -
  consider (existing) t where "fst (create_task E body w) = Inr (from_task t)"
      "duplicate E (view (svc w)) body t" "extends view w (snd (create_task E body w))"
  | (created) t where "t = created_task E (ticks w) body"
      "\<forall>u. \<not> duplicate E (view (svc w)) body u"
      "fst (create_task E body w) = Inr (from_task t)"
      "view (svc (snd (create_task E body w))) = queued E t (saved E t (view (svc w)))"
      "client_ready (snd (create_task E body w))"
      "store_inv E (view (svc (snd (create_task E body w))))"
    using deployment.create_task_cases [OF assms(1-4), of body] by blast
  then show ?thesis
  proof cases
    case (existing t)
    then show ?thesis
      using assms(3) extendsD(1) [OF existing(3)] by auto
  next
    case (created t)
    have proj: "projects_inv E (view (svc w))" using assms(3) by (simp add: store_inv_def)
    have hex: "hex32 (task_id t)" using created(1) deployment.uuid_hex [OF assms(1)] by simp
    have "saved_facts E t (view (svc (snd (create_task E body w))))"
      unfolding created(4) saved_facts_queued by (rule saved_facts_saved [OF proj hex])
    then show ?thesis
      using created deployment.queued_holds [OF assms(1)] deployment.saved_queue [OF assms(1) proj]
      by (auto simp: Let_def saved_facts_def)
  qed
qed

definition demo_request :: task_create_request where
  "demo_request =
     \<lparr>req_project_name = ''demo'', req_requirement = ''build'', req_work_dir = None,
      req_config_json = None\<rparr>"

lemma start_world_inv: "store_inv mem_env (mem_view (svc start_world))"
  by (simp add: store_inv_empty fun_eq_iff)

lemma start_world_no_duplicate: "\<not> duplicate mem_env (mem_view (svc start_world)) body t"
  by (simp add: duplicate_def members_def)

theorem create_task_outcome_witness:
  "fst (create_task mem_env demo_request start_world)
    = Inr (from_task (created_task mem_env 0 demo_request))"
  using create_task_outcome [OF memory.deployment_axioms start_world_simps(1) start_world_inv,
      of demo_request] start_world_no_duplicate
  by (simp add: Let_def)

text \<open>C31: creating a task is idempotent. When a request made a task, any further request for the same
  project, whatever its other fields, is answered with this task, and nothing stored changes.\<close>

theorem create_task_idempotent:
  assumes "deployment E view" "client_ready w" "store_inv E (view (svc w))"
    and "ks_keys (view (svc w)) (task_key (uuid_at E (ticks w))) = None"
    and "\<forall>t. \<not> duplicate E (view (svc w)) body t"
    and "req_project_name body' = req_project_name body"
  shows "fst (create_task E body' (snd (create_task E body w))) = fst (create_task E body w)
    \<and> view (svc (snd (create_task E body' (snd (create_task E body w)))))
        = view (svc (snd (create_task E body w)))"
  by (rule deployment.create_task_again [OF assms])

theorem create_task_idempotent_witness:
  "fst (create_task mem_env (demo_request\<lparr>req_requirement := ''other''\<rparr>)
         (snd (create_task mem_env demo_request start_world)))
    = fst (create_task mem_env demo_request start_world)"
  using create_task_idempotent [OF memory.deployment_axioms start_world_simps(1) start_world_inv,
      of demo_request "demo_request\<lparr>req_requirement := ''other''\<rparr>"] start_world_no_duplicate
  by (simp add: demo_request_def)

text \<open>C39: deduplication confuses no tasks. On a consistent store, where the hash tells the request from
  the stored tasks and no project name has a NUL, whatever \<open>POST /tasks\<close> answers is a task that is
  stored then, of the project of the request, and it is pending or running, or else interrupted with
  the same non-empty requirement; and a hit of the lookup by digest has the project and the
  requirement it was asked for and is not finished.\<close>

theorem dedup_sound:
  assumes "deployment E view" "client_ready w" "store_inv E (view (svc w))"
    and "char_of (0::nat) \<notin> set (req_project_name body)"
    and "hash_separates E (view (svc w)) (req_project_name body) (req_requirement body)"
  shows "(\<forall>a. fst (create_task E body w) = Inr a \<longrightarrow>
      (\<exists>t. a = from_task t \<and> holds E (view (svc (snd (create_task E body w)))) (task_id t) t
         \<and> project_name t = req_project_name body
         \<and> (status t \<in> {PENDING, RUNNING}
            \<or> status t = INTERRUPTED \<and> requirement t = req_requirement body \<and> requirement t \<noteq> [])))
    \<and> (\<forall>x. fst (find_by_digest E (req_project_name body) (req_requirement body) w) = Inr (Some x) \<longrightarrow>
      (let t = heap (snd (find_by_digest E (req_project_name body) (req_requirement body) w)) x
       in holds E (view (svc w)) (task_id t) t \<and> project_name t = req_project_name body
         \<and> requirement t = req_requirement body \<and> requirement t \<noteq> [] \<and> \<not> is_terminal t))"
proof -
  have st: "is_incomplete t \<longleftrightarrow> status t \<in> {PENDING, RUNNING}" "is_resumable t \<longleftrightarrow> status t = INTERRUPTED"
    for t by (auto simp: is_incomplete_def is_resumable_def)
  show ?thesis
    using deployment.create_task_answers [OF assms] deployment.digest_hit_sound [OF assms]
    unfolding st by (auto simp: Let_def)
qed

lemma saved_world_only:
  assumes "hex32 i" "holds mem_env (mem_view (svc saved_world)) i t"
  shows "t = no_task"
  using assms(2) memory.saved_holds(1) [of "mem_view (svc start_world)" no_task i t] assms(1)
  by (auto simp: saved_world_view projects_inv_def members_def holds_def split: if_splits)

lemma demo_no_nul: "char_of (0::nat) \<notin> set ''demo''"
  by code_simp

theorem dedup_sound_witness:
  "fst (create_task mem_env demo_request saved_world) = Inr (from_task no_task)
    \<and> (\<exists>x. fst (find_by_digest mem_env ''demo'' ''build'' saved_world) = Inr (Some x)
        \<and> requirement (heap (snd (find_by_digest mem_env ''demo'' ''build'' saved_world)) x) = ''build'')"
proof -
  let ?K = "mem_view (svc saved_world)"
  have sep: "hash_separates mem_env ?K (req_project_name demo_request) (req_requirement demo_request)"
    unfolding hash_separates_def
  proof (intro allI impI conjI)
    fix i t assume "hex32 i" "holds mem_env ?K i t"
    then have "t = no_task" by (rule saved_world_only)
    then show "char_of (0::nat) \<notin> set (project_name t)" using demo_no_nul by simp
  qed (simp add: digest_of_def spell_inject)
  have nul: "char_of (0::nat) \<notin> set (req_project_name demo_request)"
    using demo_no_nul by (simp add: demo_request_def)
  note sound = dedup_sound [OF memory.deployment_axioms saved_world_facts(1) saved_world_inv nul sep]
  have mem: "task_id no_task \<in> members ?K (req_project_name demo_request)" "is_incomplete no_task"
    by (simp_all add: members_def saved_world_keys demo_request_def is_incomplete_def)
  from memory.create_task_existing [OF saved_world_facts(1) saved_world_inv mem(1) saved_world_holds mem(2)]
  obtain u k where u: "fst (create_task mem_env demo_request saved_world) = Inr (from_task u)"
    and k: "k \<in> members ?K (req_project_name demo_request)" "holds mem_env ?K k u"
    by blast
  from projects_invD [OF saved_world_inv k(1)] have "hex32 k" by blast
  from this k(2) have "u = no_task" by (rule saved_world_only)
  have "digests_inv mem_env ?K" using saved_world_inv by (simp add: store_inv_def)
  from memory.find_by_digest_digests [OF saved_world_facts(1) this, of "''demo''" "''build''"]
  obtain x where x: "fst (find_by_digest mem_env ''demo'' ''build'' saved_world) = Inr (Some x)"
    by (auto simp: saved_world_keys split: option.splits)
  show ?thesis
    using sound x u \<open>u = no_task\<close> by (auto simp: demo_request_def Let_def)
qed

text \<open>two projects can share a digest. The text that is hashed joins project and requirement by a
  NUL byte, which a project name may contain itself, so for any hash the digest keys of these two
  different pairs are equal.\<close>

theorem digest_separator_collides:
  "digest_key E (p @ [char_of (0::nat)] @ q) r = digest_key E p (q @ [char_of (0::nat)] @ r)"
  by (simp add: digest_key_def digest_of_def)

text \<open>\<open>GET /tasks/{task_id}\<close> and the stream endpoint answer from the store. For a stored task the
  first returns its current state; the second returns an empty stream when the task is finished and
  otherwise a stream with the configured keepalive interval. For an id that is not stored both raise
  404.\<close>

theorem get_and_stream:
  assumes "deployment E view" "client_ready w"
  shows "(\<forall>t. holds E (view (svc w)) i t \<longrightarrow>
            fst (get_task E i w) = Inr (from_task t)
            \<and> fst (stream_task E i w) = Inr (if is_terminal t then EmptyStream
                else EventStream (sse_keepalive_interval (settings E))))
    \<and> (ks_keys (view (svc w)) (task_key i) = None \<longrightarrow>
         fst (get_task E i w) = Inl (not_found i) \<and> fst (stream_task E i w) = Inl (not_found i))"
  using deployment.get_task_run [OF assms] deployment.store_get_run [OF assms]
  by (simp add: stream_task_def py_simps)

theorem get_and_stream_witness:
  "fst (get_task mem_env (task_id no_task) saved_world) = Inr (from_task no_task)
    \<and> fst (get_task mem_env ''x'' start_world) = Inl (not_found ''x'')"
  using get_and_stream [OF memory.deployment_axioms, of saved_world] saved_world_holds
    get_and_stream [OF memory.deployment_axioms, of start_world]
  by simp

text \<open>C17: a stream shows every event up to the terminal one. For a client that stays connected, and a
  connection that does not break, the frames of the stream are the frames of the events on the
  channel in order, up to and including the first terminal event; keepalive comments come between
  them and change nothing.\<close>

theorem stream_shows_events:
  assumes "\<forall>(p, nw, disconnected) \<in> set ps. \<not> disconnected \<and> (\<forall>e. p \<noteq> Broken e)"
  shows "\<exists>fs fin. fst (event_generator E i ka t ps w) = Inr (fs, fin)
    \<and> sse_frames fs = frames_until_end E (delivered E (messages (polls ps)))"
  by (rule event_generator_frames [OF assms])

definition event_message :: "string \<Rightarrow> poll" where
  "event_message ty =
     Message \<lparr>msg_type = Some ''message'', msg_data = Some (json_dumps (JObj [(''event_type'', JStr ty)]))\<rparr>"

lemma event_message_delivered:
  "delivered mem_env (messages ((event_message ty, nw) # ps))
    = event_proxy (JStr ty) (JStr []) (JObj []) (JStr []) # delivered mem_env (messages ps)"
proof -
  have loads: "loads mem_env (json_dumps (JObj [(''event_type'', JStr ty)]))
      = Some (JObj [(''event_type'', JStr ty)])"
    by (simp only: mem_env_simps, rule json_loads_dumps) simp
  then have "json_dumps (JObj [(''event_type'', JStr ty)]) \<noteq> done_message"
    using memory.done_no_json by (metis done_message_def option.distinct(1))
  with loads show ?thesis
    by (simp add: event_message_def get_default_def del: json_dumps.simps)
qed

lemma event_message_frame:
  "\<exists>body. build_sse_frame mem_env (event_proxy (JStr ty) (JStr []) (JObj []) (JStr [])) = Inr (ty, body)"
  by (simp add: build_sse_frame_def from_cio_event_def event_proxy_def validate_attr_def as_dict_def
      strict_pydantic_def frame_type_def)

theorem stream_shows_events_witness:
  "\<exists>fs fin. fst (event_generator mem_env ''i'' 20 0
       [(Nothing, 25, False), (event_message ''step_start'', 26, False),
        (event_message ''workflow_complete'', 27, False), (event_message ''info'', 28, False)]
       start_world) = Inr (fs, fin)
    \<and> map fst (sse_frames fs) = [''step_start'', ''workflow_complete'']"
proof -
  let ?ps = "[(Nothing, 25, False), (event_message ''step_start'', 26, False),
        (event_message ''workflow_complete'', 27, False), (event_message ''info'', 28, False)]"
  have ok: "\<forall>(p, nw, disconnected) \<in> set ?ps. \<not> disconnected \<and> (\<forall>e. p \<noteq> Broken e)"
    by (simp add: event_message_def)
  obtain b1 b2 where "build_sse_frame mem_env (event_proxy (JStr ''step_start'') (JStr []) (JObj []) (JStr []))
      = Inr (''step_start'', b1)"
    "build_sse_frame mem_env (event_proxy (JStr ''workflow_complete'') (JStr []) (JObj []) (JStr []))
      = Inr (''workflow_complete'', b2)"
    using event_message_frame by blast
  then have "frames_until_end mem_env (delivered mem_env (messages (polls ?ps)))
      = [(''step_start'', b1), (''workflow_complete'', b2)]"
    by (simp add: polls_def event_message_delivered is_terminal_event_def terminal_sse_events_def)
  with stream_shows_events [OF ok, of mem_env "''i''" 20 0 start_world] show ?thesis by auto
qed

text \<open>C38: what an accepted request looks like. A body that is accepted has only the four known fields, a
  project name of 1 to 128 code points, and a \<open>config_json\<close> that is blank or an object with its fields as documented.\<close>

theorem accepted_request:
  assumes "parse_request E (JObj m) = Inr body"
  shows "set (map fst m) \<subseteq> set request_keys
    \<and> 1 \<le> py_len (req_project_name body) \<and> py_len (req_project_name body) \<le> 128
    \<and> (py_strip (or_empty (req_config_json body)) \<noteq> [] \<longrightarrow>
         (\<exists>c. loads E (py_strip (or_empty (req_config_json body))) = Some (JObj c)
            \<and> as_documented E documented_fields c))"
proof -
  have keys: "set (map fst m) \<subseteq> set request_keys"
    using assms by (auto simp: parse_request_def filter_empty_conv split: list.splits)
  from assms obtain p where
    p: "request_field m ''project_name'' (as_project_name (pyd E)) (Inl (ValidationError ''project_name''))
      = Inr p" "req_project_name body = p"
    and c: "check_request E body = Inr body"
    by (auto simp: parse_request_def check_request_def Let_def
        split: list.splits sum.splits if_splits)
  from p have "1 \<le> py_len (req_project_name body)" "py_len (req_project_name body) \<le> 128"
    by (auto simp: request_field_def as_project_name_def split: option.splits if_splits)
  moreover have "validate_config_json E (py_strip (or_empty (req_config_json body))) = Inr ()"
    if "py_strip (or_empty (req_config_json body)) \<noteq> []"
    using c that by (auto simp: check_request_def Let_def split: sum.splits if_splits)
  ultimately show ?thesis using keys accepted_conforms [of E] config_documented by blast
qed

text \<open>A body with a project and a configuration.\<close>

definition demo_body :: "(string \<times> json) list" where
  "demo_body = [(''project_name'', JStr ''demo''), (''config_json'', JStr (json_dumps demo_config))]"

lemma demo_config_strip: "py_strip (json_dumps demo_config) = json_dumps demo_config"
  by code_simp

lemma demo_config_loads: "loads mem_env (json_dumps demo_config) = Some demo_config"
  by (simp only: mem_env_simps, rule json_loads_dumps) (simp add: demo_config_def)

theorem accepted_request_witness:
  "\<exists>body c. parse_request mem_env (JObj demo_body) = Inr body
    \<and> 1 \<le> py_len (req_project_name body) \<and> py_len (req_project_name body) \<le> 128
    \<and> loads mem_env (py_strip (or_empty (req_config_json body))) = Some (JObj c)
    \<and> as_documented mem_env documented_fields c"
proof -
  let ?body = "demo_request\<lparr>req_requirement := [], req_config_json := Some (json_dumps demo_config)\<rparr>"
  have valid: "validate_config_json mem_env (json_dumps demo_config) = Inr ()"
    unfolding validate_config_json_def demo_config_loads
    by (simp add: demo_config_def config_json_schema_def validation_schema_def coverage_range_def
        py_int_def strict_pydantic_def below_def)
  have ok: "parse_request mem_env (JObj demo_body) = Inr ?body"
    by (simp add: parse_request_def demo_body_def request_keys_def request_field_def
        as_project_name_def as_optional_str_def strict_pydantic_def check_request_def demo_request_def
        py_len_def byte_def demo_config_strip valid Let_def)
  have ne: "py_strip (or_empty (req_config_json ?body)) \<noteq> []"
    by (simp add: demo_config_strip) (simp add: demo_config_def)
  from accepted_request [OF ok] ne ok show ?thesis by blast
qed

end
