(* ===== verification/Concurrent_Creates.thy ===== *)
theory Concurrent_Creates
  imports Api
begin

text \<open>
  Requests to \<open>POST /tasks\<close> that are served at the same time (\<open>src/api.py\<close>). The handler suspends at
  its \<open>await\<close>s, and then another request may run. Here a request is its phase between two store
  operations; a step of the server lets one request do its next operation. The operations
  themselves are those of theory \<open>Store\<close>, and each is one step. A request served alone does what
  \<open>create_task\<close> does.
\<close>

section \<open>Phases of a request\<close>

datatype phase =
    Incoming task_create_request
  | NoIncomplete task_create_request
  | Unique task_create_request
  | Stored obj
  | Answered task_response
  | Raised exn

definition advance :: "'r env \<Rightarrow> phase \<Rightarrow> ('r, phase) prog" where
  "advance E ph =
     (case ph of
        Incoming body \<Rightarrow>
          py_bind (find_incomplete E (req_project_name body)) (\<lambda>existing.
            case existing of
              None \<Rightarrow> py_return (NoIncomplete body)
            | Some x \<Rightarrow> py_bind (respond x) (\<lambda>a. py_return (Answered a)))
      | NoIncomplete body \<Rightarrow>
          py_bind (find_by_digest E (req_project_name body) (req_requirement body)) (\<lambda>existing.
            case existing of
              None \<Rightarrow> py_return (Unique body)
            | Some x \<Rightarrow> py_bind (respond x) (\<lambda>a. py_return (Answered a)))
      | Unique body \<Rightarrow>
          py_bind (new_task E (req_project_name body) (req_requirement body)
                     (or_empty (req_work_dir body)) (or_empty (req_config_json body))) (\<lambda>x.
            py_then (store_save E x) (py_return (Stored x)))
      | Stored x \<Rightarrow> py_then (enqueue E x) (py_bind (respond x) (\<lambda>a. py_return (Answered a)))
      | Answered a \<Rightarrow> py_return (Answered a)
      | Raised e \<Rightarrow> py_return (Raised e))"

definition next_phase :: "exn + phase \<Rightarrow> phase" where
  "next_phase r = (case r of Inl e \<Rightarrow> Raised e | Inr ph \<Rightarrow> ph)"

text \<open>A request that is served without interruption for \<open>n\<close> steps.\<close>

fun serve :: "nat \<Rightarrow> 'r env \<Rightarrow> phase \<Rightarrow> 'r world \<Rightarrow> phase \<times> 'r world" where
  "serve 0 E ph w = (ph, w)"
| "serve (Suc n) E ph w = (let (r, w') = advance E ph w in serve n E (next_phase r) w')"

definition result_of :: "phase \<Rightarrow> exn + task_response" where
  "result_of ph =
     (case ph of Answered a \<Rightarrow> Inr a | Raised e \<Rightarrow> Inl e | _ \<Rightarrow> Inl (OtherError ''not finished''))"

lemma serve_finished [simp]:
  "serve n E (Answered a) w = (Answered a, w)" "serve n E (Raised e) w = (Raised e, w)"
  by (induction n) (simp_all add: advance_def next_phase_def py_simps)

text \<open>The four phases of a request that runs alone, as one block.\<close>

lemma serve_step: "advance E ph w = (r, w') \<Longrightarrow> serve (Suc n) E ph w = serve n E (next_phase r) w'"
  by simp

lemma next_phase_simps [simp]: "next_phase (Inl e) = Raised e" "next_phase (Inr ph) = ph"
  by (simp_all add: next_phase_def)

lemma advance_lookup:
  "fst (find_incomplete E (req_project_name body) w) = Inl e \<Longrightarrow>
     advance E (Incoming body) w = (Inl e, snd (find_incomplete E (req_project_name body) w))"
  "fst (find_incomplete E (req_project_name body) w) = Inr None \<Longrightarrow>
     advance E (Incoming body) w
       = (Inr (NoIncomplete body), snd (find_incomplete E (req_project_name body) w))"
  "fst (find_incomplete E (req_project_name body) w) = Inr (Some x) \<Longrightarrow>
     advance E (Incoming body) w
       = (Inr (Answered (from_task (heap (snd (find_incomplete E (req_project_name body) w)) x))),
          snd (find_incomplete E (req_project_name body) w))"
  by (simp_all add: advance_def respond_def py_simps)

lemma advance_digest:
  "fst (find_by_digest E (req_project_name body) (req_requirement body) w) = Inl e \<Longrightarrow>
     advance E (NoIncomplete body) w
       = (Inl e, snd (find_by_digest E (req_project_name body) (req_requirement body) w))"
  "fst (find_by_digest E (req_project_name body) (req_requirement body) w) = Inr None \<Longrightarrow>
     advance E (NoIncomplete body) w
       = (Inr (Unique body), snd (find_by_digest E (req_project_name body) (req_requirement body) w))"
  "fst (find_by_digest E (req_project_name body) (req_requirement body) w) = Inr (Some x) \<Longrightarrow>
     advance E (NoIncomplete body) w
       = (Inr (Answered (from_task
            (heap (snd (find_by_digest E (req_project_name body) (req_requirement body) w)) x))),
          snd (find_by_digest E (req_project_name body) (req_requirement body) w))"
  by (simp_all add: advance_def respond_def py_simps)

definition with_created :: "'r env \<Rightarrow> task_create_request \<Rightarrow> 'r world \<Rightarrow> 'r world" where
  "with_created E body w =
     w\<lparr>heap := (heap w)(next_obj w := created_task E (ticks w) body), next_obj := Suc (next_obj w),
       ticks := Suc (Suc (Suc (ticks w)))\<rparr>"

lemma with_created_sel [simp]:
  "svc (with_created E body w) = svc w" "client_ready (with_created E body w) = client_ready w"
  "heap (with_created E body w) = (heap w)(next_obj w := created_task E (ticks w) body)"
  "next_obj (with_created E body w) = Suc (next_obj w)"
  "ticks (with_created E body w) = Suc (Suc (Suc (ticks w)))"
  by (simp_all add: with_created_def)

lemma new_task_with_created:
  "new_task E (req_project_name body) (req_requirement body) (or_empty (req_work_dir body))
     (or_empty (req_config_json body)) w = (Inr (next_obj w), with_created E body w)"
  by (simp add: new_task_run with_created_def created_task_def)

lemma advance_unique:
  "fst (store_save E (next_obj w) (with_created E body w)) = Inl e \<Longrightarrow>
     advance E (Unique body) w = (Inl e, snd (store_save E (next_obj w) (with_created E body w)))"
  "fst (store_save E (next_obj w) (with_created E body w)) = Inr () \<Longrightarrow>
     advance E (Unique body) w
       = (Inr (Stored (next_obj w)), snd (store_save E (next_obj w) (with_created E body w)))"
  by (simp_all add: advance_def new_task_with_created py_simps)

lemma advance_stored:
  "fst (enqueue E x w) = Inl e \<Longrightarrow> advance E (Stored x) w = (Inl e, snd (enqueue E x w))"
  "fst (enqueue E x w) = Inr () \<Longrightarrow>
     advance E (Stored x) w = (Inr (Answered (from_task (heap w x))), snd (enqueue E x w))"
  by (simp_all add: advance_def respond_def py_simps)

lemma create_task_serve:
  "(result_of (fst (serve 4 E (Incoming body) w)), snd (serve 4 E (Incoming body) w))
    = create_task E body w"
proof -
  let ?r1 = "find_incomplete E (req_project_name body) w"
  let ?r2 = "find_by_digest E (req_project_name body) (req_requirement body) (snd ?r1)"
  let ?r3 = "store_save E (next_obj (snd ?r2)) (with_created E body (snd ?r2))"
  let ?r4 = "enqueue E (next_obj (snd ?r2)) (snd ?r3)"
  have four: "(4::nat) = Suc (Suc (Suc (Suc 0)))" by simp
  consider e where "fst ?r1 = Inl e" | x where "fst ?r1 = Inr (Some x)"
    | e where "fst ?r1 = Inr None" "fst ?r2 = Inl e"
    | x where "fst ?r1 = Inr None" "fst ?r2 = Inr (Some x)"
    | e where "fst ?r1 = Inr None" "fst ?r2 = Inr None" "fst ?r3 = Inl e"
    | e where "fst ?r1 = Inr None" "fst ?r2 = Inr None" "fst ?r3 = Inr ()" "fst ?r4 = Inl e"
    | "fst ?r1 = Inr None" "fst ?r2 = Inr None" "fst ?r3 = Inr ()" "fst ?r4 = Inr ()"
    by (cases "fst ?r1"; cases "projr (fst ?r1)"; cases "fst ?r2"; cases "projr (fst ?r2)";
        cases "fst ?r3"; cases "fst ?r4") auto
  then show ?thesis
    unfolding four
    by cases (simp_all only: serve_step [OF advance_lookup(1)] serve_step [OF advance_lookup(2)]
        serve_step [OF advance_lookup(3)] serve_step [OF advance_digest(1)]
        serve_step [OF advance_digest(2)] serve_step [OF advance_digest(3)]
        serve_step [OF advance_unique(1)] serve_step [OF advance_unique(2)]
        serve_step [OF advance_stored(1)] serve_step [OF advance_stored(2)] next_phase_simps
        serve_finished, simp_all add: result_of_def create_task_def new_task_with_created
          respond_def py_simps)
qed

section \<open>Servers\<close>

record 'r server =
  sv_world :: "'r world"
  sv_phase :: "nat \<Rightarrow> phase"

inductive server_step :: "'r env \<Rightarrow> 'r server \<Rightarrow> 'r server \<Rightarrow> bool" for E :: "'r env" where
  turn: "advance E (sv_phase s c) (sv_world s) = (r, w) \<Longrightarrow>
     server_step E s (s\<lparr>sv_world := w, sv_phase := (sv_phase s)(c := next_phase r)\<rparr>)"

inductive server_run :: "'r env \<Rightarrow> 'r server \<Rightarrow> 'r server \<Rightarrow> bool" for E :: "'r env" where
  start: "server_run E s s"
| more: "server_run E s t \<Longrightarrow> server_step E t u \<Longrightarrow> server_run E s u"

inductive_cases server_stepE: "server_step E s t"

section \<open>What every interleaving keeps\<close>

definition phase_ok :: "'r env \<Rightarrow> ('r \<Rightarrow> keyspace) \<Rightarrow> 'r world \<Rightarrow> phase \<Rightarrow> bool" where
  "phase_ok E view w ph =
     (case ph of
        Stored x \<Rightarrow> x < next_obj w \<and> hex32 (task_id (heap w x))
          \<and> holds E (view (svc w)) (task_id (heap w x)) (heap w x)
      | Answered a \<Rightarrow> (\<exists>i t. hex32 i \<and> holds E (view (svc w)) i t \<and> a = from_task t)
      | Raised e \<Rightarrow> (\<exists>i. e = task_exists i)
      | _ \<Rightarrow> True)"

lemma phase_ok_simps [simp]:
  "phase_ok E view w (Incoming body)" "phase_ok E view w (NoIncomplete body)"
  "phase_ok E view w (Unique body)"
  "phase_ok E view w (Raised e) = (\<exists>i. e = task_exists i)"
  by (simp_all add: phase_ok_def)

definition creates_inv :: "'r env \<Rightarrow> ('r \<Rightarrow> keyspace) \<Rightarrow> 'r server \<Rightarrow> bool" where
  "creates_inv E view s =
     (client_ready (sv_world s) \<and> store_inv E (view (svc (sv_world s)))
      \<and> (\<forall>c. phase_ok E view (sv_world s) (sv_phase s c)))"

text \<open>The world grows: objects stay, and so do stored records.\<close>

definition grows :: "'r env \<Rightarrow> ('r \<Rightarrow> keyspace) \<Rightarrow> 'r world \<Rightarrow> 'r world \<Rightarrow> bool" where
  "grows E view w w' =
     (client_ready w' = client_ready w \<and> next_obj w \<le> next_obj w'
      \<and> (\<forall>x < next_obj w. heap w' x = heap w x)
      \<and> (\<forall>i t. hex32 i \<longrightarrow> holds E (view (svc w)) i t \<longrightarrow> holds E (view (svc w')) i t))"

lemma phase_ok_answered:
  "hex32 i \<Longrightarrow> holds E (view (svc w)) i t \<Longrightarrow> phase_ok E view w (Answered (from_task t))"
  by (auto simp: phase_ok_def)

lemma phase_ok_grows: "phase_ok E view w ph \<Longrightarrow> grows E view w w' \<Longrightarrow> phase_ok E view w' ph"
proof (cases ph)
  case (Answered a)
  moreover assume "phase_ok E view w ph" "grows E view w w'"
  ultimately show ?thesis unfolding phase_ok_def grows_def by (simp, blast)
qed (simp_all add: phase_ok_def grows_def)

lemma extends_grows: "extends view w w' \<Longrightarrow> grows E view w w'"
  by (simp add: extends_def grows_def)

context deployment
begin

lemma advance_Incoming_inv:
  assumes w: "client_ready w" "store_inv E (view (svc w))"
  shows "\<exists>ph w'. advance E (Incoming body) w = (Inr ph, w') \<and> extends view w w'
    \<and> phase_ok E view w' ph
    \<and> (ph = NoIncomplete body
       \<or> (\<exists>i \<in> members (view (svc w)) (req_project_name body). \<exists>t.
            holds E (view (svc w)) i t \<and> is_incomplete t))"
proof -
  let ?p = "req_project_name body" and ?K = "view (svc w)"
  let ?w1 = "snd (find_incomplete E ?p w)"
  obtain f where f: "fst (find_incomplete E ?p w) = Inr f" and ext: "extends view w ?w1"
    and fr: "case f of None \<Rightarrow> \<forall>i \<in> members ?K ?p. \<forall>t. holds E ?K i t \<longrightarrow> \<not> is_incomplete t
       | Some x \<Rightarrow> next_obj w \<le> x \<and> is_incomplete (heap ?w1 x)
           \<and> (\<exists>i \<in> members ?K ?p. holds E ?K i (heap ?w1 x))"
    using find_incomplete_run [OF w] by blast
  show ?thesis
  proof (cases f)
    case None
    with f ext advance_lookup(2) [of E body w] show ?thesis by auto
  next
    case (Some x)
    with fr obtain i where i: "i \<in> members ?K ?p" "holds E ?K i (heap ?w1 x)"
      "is_incomplete (heap ?w1 x)" by auto
    have "phase_ok E view ?w1 (Answered (from_task (heap ?w1 x)))"
      using projects_invD [OF w(2) i(1)] i(2) extendsD(1) [OF ext]
      by (intro phase_ok_answered [of i]) simp_all
    with f Some ext i advance_lookup(3) [of E body w x] show ?thesis by auto
  qed
qed

lemma advance_NoIncomplete_inv:
  assumes w: "client_ready w" "store_inv E (view (svc w))"
  shows "\<exists>ph w'. advance E (NoIncomplete body) w = (Inr ph, w') \<and> extends view w w'
    \<and> phase_ok E view w' ph
    \<and> (ph = Unique body
       \<or> (\<exists>i t. ks_keys (view (svc w)) (digest_key E (req_project_name body) (req_requirement body))
              = Some (RStr i) \<and> hex32 i \<and> holds E (view (svc w)) i t))"
proof -
  let ?p = "req_project_name body" and ?r = "req_requirement body" and ?K = "view (svc w)"
  let ?w1 = "snd (find_by_digest E ?p ?r w)"
  obtain f where f: "fst (find_by_digest E ?p ?r w) = Inr f" and ext: "extends view w ?w1"
    and fr: "case f of None \<Rightarrow> ks_keys ?K (digest_key E ?p ?r) = None
         | Some x \<Rightarrow> next_obj w \<le> x
             \<and> (\<exists>i. hex32 i \<and> holds E ?K i (heap ?w1 x)
                  \<and> ks_keys ?K (digest_key E ?p ?r) = Some (RStr i))
             \<and> requirement (heap ?w1 x) \<noteq> [] \<and> \<not> is_terminal (heap ?w1 x)
             \<and> digest_of E (project_name (heap ?w1 x)) (requirement (heap ?w1 x)) = digest_of E ?p ?r"
    using find_by_digest_run [OF w, of ?p ?r] by blast
  show ?thesis
  proof (cases f)
    case None
    with f ext advance_digest(2) [of E body w] show ?thesis by auto
  next
    case (Some x)
    with fr obtain i where i: "hex32 i" "holds E ?K i (heap ?w1 x)"
      "ks_keys ?K (digest_key E ?p ?r) = Some (RStr i)" by auto
    then have "phase_ok E view ?w1 (Answered (from_task (heap ?w1 x)))"
      using extendsD(1) [OF ext] by (intro phase_ok_answered [of i]) simp_all
    with f Some ext i advance_digest(3) [of E body w x] show ?thesis by auto
  qed
qed

lemma advance_Unique_inv:
  assumes w: "client_ready w" "store_inv E (view (svc w))"
    and t_def: "t = created_task E (ticks w) body"
  shows "ks_keys (view (svc w)) (task_key (task_id t)) = None \<Longrightarrow>
      \<exists>w'. advance E (Unique body) w = (Inr (Stored (next_obj w)), w')
        \<and> grows E view w w' \<and> ticks w' = Suc (Suc (Suc (ticks w)))
        \<and> view (svc w') = saved E t (view (svc w)) \<and> store_inv E (view (svc w'))
        \<and> heap w' = (heap w)(next_obj w := t) \<and> next_obj w' = Suc (next_obj w)"
    and "ks_keys (view (svc w)) (task_key (task_id t)) \<noteq> None \<Longrightarrow>
      \<exists>w'. advance E (Unique body) w = (Inl (task_exists (task_id t)), w')
        \<and> grows E view w w' \<and> view (svc w') = view (svc w)"
proof -
  let ?w1 = "with_created E body w" and ?x = "next_obj w"
  have proj: "projects_inv E (view (svc ?w1))" using w(2) by (simp add: store_inv_def)
  have x: "heap ?w1 ?x = t" by (simp add: t_def)
  note run = store_save_run [of ?w1 ?x, OF _ proj, unfolded x]
  {
    assume "ks_keys (view (svc w)) (task_key (task_id t)) = None"
    then have s: "fst (store_save E ?x ?w1) = Inr ()"
      "view (svc (snd (store_save E ?x ?w1))) = saved E t (view (svc w))"
      using run(1) w(1) by simp_all
    have inv: "store_inv E (saved E t (view (svc w)))"
      using w(2) \<open>ks_keys _ _ = None\<close> uuid_hex by (intro saved_inv) (simp_all add: t_def)
    have "holds E (saved E t (view (svc w))) i u" if "hex32 i" "holds E (view (svc w)) i u" for i u
      using saved_holds(1) [of "view (svc w)" t i u] that w(2) \<open>ks_keys _ _ = None\<close> uuid_hex
      by (auto simp: t_def store_inv_def holds_def)
    then show "\<exists>w'. advance E (Unique body) w = (Inr (Stored (next_obj w)), w')
        \<and> grows E view w w' \<and> ticks w' = Suc (Suc (Suc (ticks w)))
        \<and> view (svc w') = saved E t (view (svc w)) \<and> store_inv E (view (svc w'))
        \<and> heap w' = (heap w)(next_obj w := t) \<and> next_obj w' = Suc (next_obj w)"
      using advance_unique(2) [OF s(1)] s(2) inv x by (simp add: grows_def t_def)
  }
  {
    assume "ks_keys (view (svc w)) (task_key (task_id t)) \<noteq> None"
    then have s: "fst (store_save E ?x ?w1) = Inl (task_exists (task_id t))"
      "view (svc (snd (store_save E ?x ?w1))) = view (svc w)"
      using run(2) w(1) by simp_all
    then show "\<exists>w'. advance E (Unique body) w = (Inl (task_exists (task_id t)), w')
        \<and> grows E view w w' \<and> view (svc w') = view (svc w)"
      using advance_unique(1) [OF s(1)] by (simp add: grows_def)
  }
qed

lemma advance_Stored_inv:
  assumes w: "client_ready w" "store_inv E (view (svc w))" and x: "phase_ok E view w (Stored x)"
  shows "\<exists>w'. advance E (Stored x) w = (Inr (Answered (from_task (heap w x))), w')
    \<and> grows E view w w' \<and> view (svc w') = queued E (heap w x) (view (svc w))
    \<and> store_inv E (view (svc w')) \<and> phase_ok E view w' (Answered (from_task (heap w x)))"
proof -
  let ?w' = "snd (enqueue E x w)" and ?t = "heap w x"
  have q: "fst (enqueue E x w) = Inr ()" "view (svc ?w') = queued E ?t (view (svc w))"
    using enqueue_run [of w x] w by (simp_all add: store_inv_def)
  have t: "hex32 (task_id ?t)" "holds E (view (svc w)) (task_id ?t) ?t"
    using x by (simp_all add: phase_ok_def)
  have "store_inv E (queued E ?t (view (svc w)))"
    using w t by (intro queued_inv [where t' = ?t]) simp_all
  moreover have "phase_ok E view ?w' (Answered (from_task ?t))"
    using t q(2) by (intro phase_ok_answered [of "task_id ?t"]) simp_all
  ultimately show ?thesis
    using advance_stored(2) [OF q(1)] q(2) by (simp add: grows_def)
qed

lemma advance_inv:
  assumes w: "client_ready w" "store_inv E (view (svc w))" and ph: "phase_ok E view w ph"
    and run: "advance E ph w = (r, w')"
  shows "store_inv E (view (svc w')) \<and> grows E view w w' \<and> phase_ok E view w' (next_phase r)"
proof (cases ph)
  case (Incoming body)
  with advance_Incoming_inv [OF w, of body] run show ?thesis
    using extendsD(1) [of view w w'] w(2) by (auto intro: extends_grows)
next
  case (NoIncomplete body)
  with advance_NoIncomplete_inv [OF w, of body] run show ?thesis
    using extendsD(1) [of view w w'] w(2) by (auto intro: extends_grows)
next
  case (Unique body)
  let ?t = "created_task E (ticks w) body"
  show ?thesis
  proof (cases "ks_keys (view (svc w)) (task_key (task_id ?t)) = None")
    case True
    from advance_Unique_inv(1) [OF w refl this] obtain v where
      v: "advance E (Unique body) w = (Inr (Stored (next_obj w)), v)"
      and *: "grows E view w v" "store_inv E (view (svc v))"
      "view (svc v) = saved E ?t (view (svc w))" "heap v = (heap w)(next_obj w := ?t)"
      "next_obj v = Suc (next_obj w)"
      by blast
    have r: "r = Inr (Stored (next_obj w))" "w' = v" using v run Unique by simp_all
    have "holds E (view (svc v)) (task_id ?t) ?t"
      unfolding *(3) using w(2) uuid_hex by (subst saved_holds) (simp_all add: store_inv_def)
    with *(1,2,4,5) show ?thesis unfolding r using uuid_hex by (simp add: phase_ok_def)
  next
    case False
    from advance_Unique_inv(2) [OF w refl this] Unique run w show ?thesis by auto
  qed
next
  case (Stored x)
  with advance_Stored_inv [OF w, of x] ph run show ?thesis by auto
next
  case (Answered a)
  with run have "r = Inr (Answered a)" "w' = w" by (simp_all add: advance_def py_simps)
  with Answered ph w show ?thesis by (simp add: grows_def)
next
  case (Raised e)
  with run have "r = Inr (Raised e)" "w' = w" by (simp_all add: advance_def py_simps)
  with Raised ph w show ?thesis by (simp add: grows_def)
qed

lemma server_step_inv:
  assumes "creates_inv E view s" "server_step E s t"
  shows "creates_inv E view t"
proof -
  obtain c r w where t: "t = s\<lparr>sv_world := w, sv_phase := (sv_phase s)(c := next_phase r)\<rparr>"
    "advance E (sv_phase s c) (sv_world s) = (r, w)"
    using assms(2) by (rule server_stepE)
  have s: "client_ready (sv_world s)" "store_inv E (view (svc (sv_world s)))"
    "phase_ok E view (sv_world s) (sv_phase s d)" for d
    using assms(1) by (simp_all add: creates_inv_def)
  from advance_inv [OF s t(2)]
  have w: "store_inv E (view (svc w))" "grows E view (sv_world s) w" "phase_ok E view w (next_phase r)"
    by simp_all
  have "phase_ok E view w (sv_phase t d)" for d
    using w(3) phase_ok_grows [OF s(3) w(2)] by (simp add: t(1))
  moreover have "client_ready w" using w(2) s(1) by (simp add: grows_def)
  ultimately show ?thesis using w(1) by (simp add: creates_inv_def t(1))
qed

lemma server_run_inv:
  "server_run E s t \<Longrightarrow> creates_inv E view s \<Longrightarrow> creates_inv E view t"
  by (induction rule: server_run.induct) (auto intro: server_step_inv)

section \<open>Two requests race\<close>

lemma server_turn:
  "server_run E s \<lparr>sv_world = w, sv_phase = f\<rparr> \<Longrightarrow> advance E (f c) w = (Inr ph, w') \<Longrightarrow>
   server_run E s \<lparr>sv_world = w', sv_phase = f(c := ph)\<rparr>"
  using server_run.more [OF _ server_step.turn [of E "\<lparr>sv_world = w, sv_phase = f\<rparr>" c "Inr ph" w']]
  by simp

text \<open>Both find nothing to return.\<close>

lemma both_look:
  assumes w: "client_ready w" "store_inv E (view (svc w))"
    and none: "\<And>t. \<not> duplicate E (view (svc w)) body t"
  shows "\<exists>w'. extends view w w' \<and> (\<exists>f. f 0 = Unique body \<and> f 1 = Unique body
    \<and> server_run E \<lparr>sv_world = w, sv_phase = \<lambda>_. Incoming body\<rparr> \<lparr>sv_world = w', sv_phase = f\<rparr>)"
proof -
  have look: "\<exists>v. advance E (Incoming body) u = (Inr (NoIncomplete body), v) \<and> extends view w v"
    if "extends view w u" for u
  proof -
    have u: "client_ready u" "store_inv E (view (svc u))" "view (svc u) = view (svc w)"
      using extendsD(1,2) [OF that] w by simp_all
    from advance_Incoming_inv [OF u(1,2), of body] none show ?thesis
      unfolding u(3) duplicate_def using extends_trans [OF that] by blast
  qed
  have dig: "\<exists>v. advance E (NoIncomplete body) u = (Inr (Unique body), v) \<and> extends view w v"
    if "extends view w u" for u
  proof -
    have u: "client_ready u" "store_inv E (view (svc u))" "view (svc u) = view (svc w)"
      using extendsD(1,2) [OF that] w by simp_all
    have "\<forall>i \<in> members (view (svc w)) (req_project_name body). \<forall>t.
        holds E (view (svc w)) i t \<longrightarrow> \<not> is_incomplete t"
      using none unfolding duplicate_def by blast
    with advance_NoIncomplete_inv [OF u(1,2), of body] none show ?thesis
      unfolding u(3) duplicate_def using extends_trans [OF that] by blast
  qed
  let ?f0 = "\<lambda>_::nat. Incoming body"
  from look [OF extends_refl] obtain w1 where
    w1: "advance E (Incoming body) w = (Inr (NoIncomplete body), w1)" "extends view w w1" by blast
  from look [OF w1(2)] obtain w2 where
    w2: "advance E (Incoming body) w1 = (Inr (NoIncomplete body), w2)" "extends view w w2" by blast
  from dig [OF w2(2)] obtain w3 where
    w3: "advance E (NoIncomplete body) w2 = (Inr (Unique body), w3)" "extends view w w3" by blast
  from dig [OF w3(2)] obtain w4 where
    w4: "advance E (NoIncomplete body) w3 = (Inr (Unique body), w4)" "extends view w w4" by blast
  have "server_run E \<lparr>sv_world = w, sv_phase = ?f0\<rparr>
      \<lparr>sv_world = w4, sv_phase = ?f0(0 := NoIncomplete body, 1 := NoIncomplete body,
         0 := Unique body, 1 := Unique body)\<rparr>"
    by (rule server_turn [where w = w3], rule server_turn [where w = w2], rule server_turn [where w = w1],
        rule server_turn [where w = w], rule server_run.start)
      (simp_all add: w1(1) w2(1) w3(1) w4(1))
  with w4(2) show ?thesis by (intro exI conjI) simp_all
qed

lemma both_create:
  assumes w: "client_ready w" "store_inv E (view (svc w))"
    and f: "f 0 = Unique body" "f (1::nat) = Unique body"
    and t: "t = created_task E (ticks w) body"
    and u: "u = created_task E (Suc (Suc (Suc (ticks w)))) body"
    and fresh: "task_id t \<noteq> task_id u" "ks_keys (view (svc w)) (task_key (task_id t)) = None"
      "ks_keys (view (svc w)) (task_key (task_id u)) = None"
  shows "\<exists>s. server_run E \<lparr>sv_world = w, sv_phase = f\<rparr> s
    \<and> sv_phase s 0 = Answered (from_task t) \<and> sv_phase s 1 = Answered (from_task u)
    \<and> view (svc (sv_world s))
        = queued E u (queued E t (saved E u (saved E t (view (svc w)))))"
proof -
  let ?K = "view (svc w)"
  obtain w1 where w1: "advance E (Unique body) w = (Inr (Stored (next_obj w)), w1)"
    "grows E view w w1" "ticks w1 = Suc (Suc (Suc (ticks w)))"
    "view (svc w1) = saved E t ?K" "store_inv E (view (svc w1))"
    "heap w1 = (heap w)(next_obj w := t)" "next_obj w1 = Suc (next_obj w)"
    using advance_Unique_inv(1) [OF w t] fresh(2) by blast
  have ready1: "client_ready w1" using w1(2) w(1) by (simp add: grows_def)
  have hex: "hex32 (task_id t)" "hex32 (task_id u)" using t u uuid_hex by simp_all
  have u': "u = created_task E (ticks w1) body" by (simp add: u w1(3))
  have "ks_keys (view (svc w1)) (task_key (task_id u)) = None"
    using saved_keys [of E ?K t] w(2) fresh hex unfolding w1(4)
    by (auto simp: store_inv_def digest_key_def)
  then obtain w2 where w2: "advance E (Unique body) w1 = (Inr (Stored (next_obj w1)), w2)"
    "grows E view w1 w2" "view (svc w2) = saved E u (saved E t ?K)" "store_inv E (view (svc w2))"
    "heap w2 = (heap w1)(next_obj w1 := u)" "next_obj w2 = Suc (next_obj w1)"
    using advance_Unique_inv(1) [OF ready1 w1(5) u'] unfolding w1(4) by blast
  have ready2: "client_ready w2" using w2(2) ready1 by (simp add: grows_def)
  have h: "heap w2 (next_obj w) = t" "heap w2 (next_obj w1) = u"
    using w1(6,7) w2(5) by simp_all
  have "holds E (view (svc w1)) (task_id t) t" "holds E (view (svc w2)) (task_id u) u"
    unfolding w1(4) w2(3) using w(2) w1(5) hex
    by (subst saved_holds; simp add: store_inv_def w1(4))+
  with w2(2) hex h w1(7) w2(6) have ok: "phase_ok E view w2 (Stored (next_obj w))"
    "phase_ok E view w2 (Stored (next_obj w1))"
    by (simp_all add: phase_ok_def grows_def)
  obtain w3 where w3: "advance E (Stored (next_obj w)) w2 = (Inr (Answered (from_task t)), w3)"
    "grows E view w2 w3" "view (svc w3) = queued E t (view (svc w2))" "store_inv E (view (svc w3))"
    using advance_Stored_inv [OF ready2 w2(4) ok(1)] unfolding h by blast
  have ready3: "client_ready w3" using w3(2) ready2 by (simp add: grows_def)
  have h3: "heap w3 (next_obj w1) = u"
    using w3(2) h(2) w2(6) by (simp add: grows_def)
  obtain w4 where w4: "advance E (Stored (next_obj w1)) w3 = (Inr (Answered (from_task u)), w4)"
    "view (svc w4) = queued E u (view (svc w3))"
    using advance_Stored_inv [OF ready3 w3(4) phase_ok_grows [OF ok(2) w3(2)]] unfolding h3 by blast
  let ?s = "\<lparr>sv_world = w4, sv_phase = f(0 := Stored (next_obj w), 1 := Stored (next_obj w1),
      0 := Answered (from_task t), 1 := Answered (from_task u))\<rparr>"
  have "server_run E \<lparr>sv_world = w, sv_phase = f\<rparr> ?s"
    by (rule server_turn [where w = w3], rule server_turn [where w = w2], rule server_turn [where w = w1],
        rule server_turn [where w = w], rule server_run.start)
      (simp_all add: f f(2) [simplified] w1(1) w2(1) w3(1) w4(1))
  then show ?thesis using w4(2) w3(3) w2(3) by (intro exI [of _ ?s]) simp
qed

end

lemma server_run_trans: "server_run E t u \<Longrightarrow> server_run E s t \<Longrightarrow> server_run E s u"
  by (induction rule: server_run.induct) (auto intro: server_run.more)

section \<open>Properties\<close>

text \<open>C32: requests served together keep the store consistent. Whatever the requests are and however
  their operations interleave, the invariant of the store holds in every state, a request that was
  answered was answered with a stored task, and a request fails only when its new id is taken.\<close>

theorem concurrent_creates_safe:
  assumes "deployment E view" "client_ready (sv_world s)" "store_inv E (view (svc (sv_world s)))"
    and "\<forall>c. \<exists>body. sv_phase s c = Incoming body" "server_run E s s'"
  shows "store_inv E (view (svc (sv_world s')))
    \<and> (\<forall>c a. sv_phase s' c = Answered a \<longrightarrow>
         (\<exists>i t. hex32 i \<and> holds E (view (svc (sv_world s'))) i t \<and> a = from_task t))
    \<and> (\<forall>c e. sv_phase s' c = Raised e \<longrightarrow> (\<exists>i. e = task_exists i))"
proof -
  have "phase_ok E view (sv_world s) (sv_phase s c)" for c
    using assms(4) [rule_format, of c] by auto
  then have "creates_inv E view s" using assms(2,3) by (simp add: creates_inv_def)
  from deployment.server_run_inv [OF assms(1,5) this]
  have inv: "store_inv E (view (svc (sv_world s')))" "phase_ok E view (sv_world s') (sv_phase s' c)" for c
    by (simp_all add: creates_inv_def)
  show ?thesis
  proof (intro conjI allI impI)
    show "store_inv E (view (svc (sv_world s')))" by (rule inv(1))
    show "\<exists>i t. hex32 i \<and> holds E (view (svc (sv_world s'))) i t \<and> a = from_task t"
      if "sv_phase s' c = Answered a" for c a
      using inv(2) [of c] that by (simp add: phase_ok_def)
    show "\<exists>i. e = task_exists i" if "sv_phase s' c = Raised e" for c e
      using inv(2) [of c] that by simp
  qed
qed

text \<open>C33: requests served together defeat the deduplication. From any store without a duplicate of a
  request there is an interleaving of two copies of it in which both are answered with a task of
  their own, and both tasks are queued.\<close>

theorem concurrent_creates_race:
  assumes "deployment E view" "client_ready w" "store_inv E (view (svc w))"
    and "\<forall>t. \<not> duplicate E (view (svc w)) body t"
    and "t = created_task E (ticks w) body" "u = created_task E (Suc (Suc (Suc (ticks w)))) body"
    and "task_id t \<noteq> task_id u" "ks_keys (view (svc w)) (task_key (task_id t)) = None"
    and "ks_keys (view (svc w)) (task_key (task_id u)) = None"
  shows "\<exists>s. server_run E \<lparr>sv_world = w, sv_phase = \<lambda>_. Incoming body\<rparr> s
    \<and> sv_phase s 0 = Answered (from_task t) \<and> sv_phase s 1 = Answered (from_task u)
    \<and> queue_of (view (svc (sv_world s))) = enc E u # enc E t # queue_of (view (svc w))"
proof -
  obtain v f where v: "extends view w v" "f 0 = Unique body" "f 1 = Unique body"
    "server_run E \<lparr>sv_world = w, sv_phase = \<lambda>_. Incoming body\<rparr> \<lparr>sv_world = v, sv_phase = f\<rparr>"
    using deployment.both_look [OF assms(1-3)] assms(4) by blast
  have V: "view (svc v) = view (svc w)" "client_ready v" "ticks v = ticks w"
    using extendsD(1-3) [OF v(1)] assms(2) by simp_all
  obtain s where s: "server_run E \<lparr>sv_world = v, sv_phase = f\<rparr> s"
    "sv_phase s 0 = Answered (from_task t)" "sv_phase s 1 = Answered (from_task u)"
    "view (svc (sv_world s)) = queued E u (queued E t (saved E u (saved E t (view (svc w)))))"
    using deployment.both_create [OF assms(1) V(2) _ v(2,3), of t u] assms(3,5-9) by (auto simp: V)
  have proj: "projects_inv E (view (svc w))" "projects_inv E (saved E t (view (svc w)))"
    using assms(3) deployment.saved_inv [OF assms(1,3), of t] assms(5,8) deployment.uuid_hex [OF assms(1)]
    by (simp_all add: store_inv_def)
  have "queue_of (view (svc (sv_world s))) = enc E u # enc E t # queue_of (view (svc w))"
    unfolding s(4) by (simp add: deployment.queued_holds [OF assms(1)] deployment.saved_queue [OF assms(1)] proj)
  with s server_run_trans [OF s(1) v(4)] show ?thesis by blast
qed

theorem concurrent_creates_safe_witness:
  "store_inv mem_env (mem_view (svc (snd (advance mem_env (Incoming demo_request) start_world))))"
proof -
  let ?s = "\<lparr>sv_world = start_world, sv_phase = \<lambda>_. Incoming demo_request\<rparr>"
  let ?r = "advance mem_env (Incoming demo_request) start_world"
  have "server_run mem_env ?s
      (?s\<lparr>sv_world := snd ?r, sv_phase := (sv_phase ?s)(0 := next_phase (fst ?r))\<rparr>)"
    by (rule server_run.more [OF server_run.start server_step.turn]) (simp only: server.simps prod.collapse)
  from concurrent_creates_safe [OF memory.deployment_axioms _ _ _ this] start_world_inv
  show ?thesis by simp
qed

theorem concurrent_creates_race_witness:
  "\<exists>s. server_run mem_env \<lparr>sv_world = start_world, sv_phase = \<lambda>_. Incoming demo_request\<rparr> s
     \<and> length (queue_of (mem_view (svc (sv_world s)))) = 2"
proof -
  have "hex_of 32 0 \<noteq> hex_of 32 (Suc (Suc (Suc 0)))" by code_simp
  then obtain s where "server_run mem_env \<lparr>sv_world = start_world, sv_phase = \<lambda>_. Incoming demo_request\<rparr> s"
    "length (queue_of (mem_view (svc (sv_world s)))) = Suc (Suc (length (queue_of (mem_view (svc start_world)))))"
    using concurrent_creates_race [OF memory.deployment_axioms start_world_simps(1) start_world_inv _
        refl refl, of demo_request] start_world_no_duplicate
    by (metis (no_types, lifting) created_task_live(3) length_Cons mem_env_simps(7) start_world_simps(6,9))
  then show ?thesis by (auto simp: queue_of_def)
qed

end
