(* ===== verification/Recovery.thy ===== *)
theory Recovery
  imports Store_Invariant
begin

text \<open>
  Crash recovery at startup (\<open>src/recovery.py\<close>): the scan over the task records, and the loop that
  marks running tasks as interrupted and queues every unfinished task again. The scan asks the server
  until it answers with cursor 0; its number of calls is bounded by fuel in the model, and enough fuel
  exists because every iteration of \<open>SCAN\<close> ends.
\<close>

section \<open>Operations\<close>

definition is_record_key :: "string \<Rightarrow> bool" where
  "is_record_key k = (starts_with k ''cio:task:'' \<and> \<not> starts_with k ''cio:task:digest:'')"

fun scan_loop :: "nat \<Rightarrow> 'r env \<Rightarrow> nat \<Rightarrow> string list \<Rightarrow> ('r, string list option) prog" where
  "scan_loop 0 E cursor task_keys = py_return None"
| "scan_loop (Suc n) E cursor task_keys =
     py_bind (on_redis (r_scan (redis E) cursor ''cio:task:*'' 100)) (\<lambda>(cursor', keys).
       let task_keys' = task_keys @ filter is_record_key keys
       in if cursor' = 0 then py_return (Some task_keys')
          else scan_loop n E cursor' task_keys')"

definition crash_detail :: string where
  "crash_detail = ''crash-recovery: worker lost during execution''"

text \<open>One key: whether its task was queued again.\<close>

definition recover_key :: "'r env \<Rightarrow> string \<Rightarrow> ('r, bool) prog" where
  "recover_key E key =
     py_bind (on_redis (r_get (redis E) key)) (\<lambda>raw.
       case raw of
         None \<Rightarrow> py_return False
       | Some s \<Rightarrow>
           py_bind
             (py_try (py_bind (model_validate_json E s) (\<lambda>x. py_return (Some x)))
                (\<lambda>e. if is_Exception e then py_return None else py_raise e)) (\<lambda>parsed.
             case parsed of
               None \<Rightarrow> py_return False
             | Some x \<Rightarrow>
                 py_bind (load x) (\<lambda>t.
                   if is_terminal t then py_return False
                   else
                     py_then
                       (if status t = RUNNING
                        then py_then (transition E x INTERRUPTED crash_detail) (async_update E x)
                        else py_return ())
                       (py_then (enqueue E x) (py_return True)))))"

fun recover_keys :: "'r env \<Rightarrow> string list \<Rightarrow> nat \<Rightarrow> ('r, nat) prog" where
  "recover_keys E [] n = py_return n"
| "recover_keys E (k # ks) n =
     py_bind (recover_key E k) (\<lambda>b. recover_keys E ks (if b then Suc n else n))"

definition recover_stranded_tasks :: "nat \<Rightarrow> 'r env \<Rightarrow> ('r, nat option) prog" where
  "recover_stranded_tasks fuel E =
     py_then get_redis
       (py_bind (scan_loop fuel E 0 []) (\<lambda>scanned.
          case scanned of
            None \<Rightarrow> py_return None
          | Some task_keys \<Rightarrow>
              (if task_keys = [] then py_return (Some 0)
               else py_bind (recover_keys E task_keys 0) (\<lambda>n. py_return (Some n)))))"

section \<open>The scan\<close>

text \<open>Record keys are the keys of tasks: nothing else is stored under the prefix.\<close>

definition task_keys_wf :: "keyspace \<Rightarrow> bool" where
  "task_keys_wf K =
     (\<forall>k. ks_keys K k \<noteq> None \<longrightarrow> is_record_key k \<longrightarrow> (\<exists>i. hex32 i \<and> k = task_key i))"

lemma is_record_key_task [simp]: "hex32 i \<Longrightarrow> is_record_key (task_key i)"
  using hex32_not_digest [of i] by (auto simp: is_record_key_def task_key_def starts_with_iff)

lemma scan_loop_run:
  "scan_run n (redis E) ''cio:task:*'' 100 cur (svc w) = Some (ks, r) \<Longrightarrow>
   scan_loop n E cur acc w = (Inr (Some (acc @ filter is_record_key ks)), w\<lparr>svc := r\<rparr>)"
proof (induction n arbitrary: cur acc w ks r)
  case (Suc n)
  let ?s = "r_scan (redis E) cur ''cio:task:*'' 100 (svc w)"
  obtain cur' ks' where step: "fst ?s = Inr (cur', ks')"
    using Suc.prems by (auto split: sum.splits)
  show ?case
  proof (cases "cur' = 0")
    case True
    with Suc.prems step show ?thesis by (simp add: py_simps)
  next
    case False
    with Suc.prems step obtain ks2 where
      "scan_run n (redis E) ''cio:task:*'' 100 cur' (snd ?s) = Some (ks2, r)" "ks = ks' @ ks2"
      by auto
    with Suc.IH [of cur' "w\<lparr>svc := snd ?s\<rparr>" ks2 r] False step show ?thesis
      by (simp add: py_simps)
  qed
qed simp

section \<open>What recovery does to the store\<close>

text \<open>How a stored task may change: it may only go from running to interrupted.\<close>

definition settled :: "task \<Rightarrow> task \<Rightarrow> bool" where
  "settled t t' =
     (t' = t \<or> same_identity t t' \<and> status t = RUNNING \<and> status t' = INTERRUPTED
              \<and> status_detail t' = crash_detail)"

definition progressed :: "'r env \<Rightarrow> keyspace \<Rightarrow> keyspace \<Rightarrow> bool" where
  "progressed E K K' =
     ((\<forall>i t. hex32 i \<longrightarrow> holds E K i t \<longrightarrow> (\<exists>t'. holds E K' i t' \<and> settled t t'))
      \<and> (\<forall>i. hex32 i \<longrightarrow> ks_keys K' (task_key i) \<noteq> None \<longrightarrow> ks_keys K (task_key i) \<noteq> None))"

lemma settled_trans: "settled s t \<Longrightarrow> settled t u \<Longrightarrow> settled s u"
  by (auto simp: settled_def)

lemma progressed_refl: "ks_keys K' = ks_keys K \<Longrightarrow> progressed E K K'"
  by (auto simp: progressed_def holds_def settled_def)

lemma progressed_trans: "progressed E K K' \<Longrightarrow> progressed E K' K'' \<Longrightarrow> progressed E K K''"
  unfolding progressed_def by (meson settled_trans)

text \<open>The stored forms of the unfinished tasks.\<close>

definition unfinished :: "'r env \<Rightarrow> keyspace \<Rightarrow> string set" where
  "unfinished E K = {enc E t |i t. hex32 i \<and> holds E K i t \<and> \<not> is_terminal t}"

lemma unfinishedI: "hex32 i \<Longrightarrow> holds E K i t \<Longrightarrow> \<not> is_terminal t \<Longrightarrow> enc E t \<in> unfinished E K"
  by (auto simp: unfinished_def)

text \<open>The task of a key that is queued again.\<close>

definition requeued :: "'r env \<Rightarrow> keyspace \<Rightarrow> string \<Rightarrow> bool" where
  "requeued E K i = (\<exists>t. holds E K i t \<and> \<not> is_terminal t)"

context deployment
begin

text \<open>The write of \<open>INTERRUPTED\<close> over a running task.\<close>

lemma interrupt_run:
  assumes w: "client_ready w" "heap w x = t" and inv: "store_inv E (view (svc w))" and i: "hex32 i"
    and t: "holds E (view (svc w)) i t" "status t = RUNNING" and tid: "task_id t = i"
    and t': "t' = t\<lparr>status := INTERRUPTED, status_detail := crash_detail,
        updated_at := time_at E (ticks w)\<rparr>"
  defines "m \<equiv> py_then (transition E x INTERRUPTED crash_detail) (async_update E x) w"
  shows "fst m = Inr ()" "client_ready (snd m)" "heap (snd m) x = t'" "settled t t'" "task_id t' = i"
    and "ks_keys (view (svc (snd m))) = (ks_keys (view (svc w)))(task_key i \<mapsto> RStr (enc E t'))"
    and "store_inv E (view (svc (snd m)))"
proof -
  let ?w2 = "snd (transition E x INTERRUPTED crash_detail w)"
  have w2: "client_ready ?w2" "view (svc ?w2) = view (svc w)" "heap ?w2 x = t'"
    using w t' by (simp_all add: transition_run)
  have m: "m = async_update E x ?w2"
    by (simp add: m_def py_then_def py_bind_def transition_run)
  note up = async_update_run [OF w2(1), of x]
  show "fst m = Inr ()" "client_ready (snd m)" "heap (snd m) x = t'"
    using up w2 by (simp_all add: m)
  show tid': "task_id t' = i" and "settled t t'"
    using t t' tid by (simp_all add: settled_def same_identity_def)
  have same: "same_identity t' t" by (simp add: t' same_identity_def)
  have v: "view (svc (snd m)) = updated E t' (view (svc w))"
    using up w2 by (simp add: m)
  show "ks_keys (view (svc (snd m))) = (ks_keys (view (svc w)))(task_key i \<mapsto> RStr (enc E t'))"
    using tid' t' by (simp add: v updated_keys is_terminal_def)
  show "store_inv E (view (svc (snd m)))"
    unfolding v using inv tid' i t by (intro updated_inv [OF _ _ _ same]) simp_all
qed

text \<open>Queueing a live task, in the state in which it is stored, after it was settled.\<close>

lemma requeue_run:
  assumes w: "client_ready v" "heap v x = t'" and inv: "store_inv E (view (svc v))" and i: "hex32 i"
    and tid: "task_id t' = i" and set: "settled t t'" and t: "holds E K i t"
    and keys: "ks_keys (view (svc v)) = (ks_keys K)(task_key i \<mapsto> RStr (enc E t'))"
  defines "m \<equiv> py_then (enqueue E x) (py_return True) v"
  shows "fst m = Inr True" "client_ready (snd m)" "store_inv E (view (svc (snd m)))"
    and "progressed E K (view (svc (snd m)))" "holds E (view (svc (snd m))) i t'"
    and "queue_of (view (svc (snd m))) = [enc E t'] @ queue_of K"
proof -
  let ?K = "view (svc v)"
  have h: "holds E ?K i t'" by (simp add: holds_def keys)
  have m: "m = (Inr True, snd (enqueue E x v))" "view (svc (snd (enqueue E x v))) = queued E t' ?K"
    using enqueue_run [of v x] w inv
    by (simp_all add: m_def store_inv_def py_then_def py_bind_def py_return_def)
  show "fst m = Inr True" "client_ready (snd m)" using m(1) w by simp_all
  have "store_inv E (queued E t' ?K)"
    using inv h i tid by (intro queued_inv [where t' = t']) simp_all
  then show "store_inv E (view (svc (snd m)))" by (simp add: m)
  show "progressed E K (view (svc (snd m)))"
    using t set by (auto simp: m progressed_def holds_def queued_keys keys settled_def)
  show "holds E (view (svc (snd m))) i t'" using h by (simp add: m holds_def queued_keys)
  show "queue_of (view (svc (snd m))) = [enc E t'] @ queue_of K"
    by (simp add: m queue_of_def queued_keys keys)
qed

lemma recover_key_run:
  assumes w: "client_ready w" and inv: "store_inv E (view (svc w))" and i: "hex32 i"
    and t: "holds E (view (svc w)) i t"
  shows "\<exists>t' q. fst (recover_key E (task_key i) w) = Inr (\<not> is_terminal t)
    \<and> client_ready (snd (recover_key E (task_key i) w))
    \<and> store_inv E (view (svc (snd (recover_key E (task_key i) w))))
    \<and> progressed E (view (svc w)) (view (svc (snd (recover_key E (task_key i) w))))
    \<and> holds E (view (svc (snd (recover_key E (task_key i) w)))) i t' \<and> status t' \<noteq> RUNNING
    \<and> settled t t'
    \<and> queue_of (view (svc (snd (recover_key E (task_key i) w)))) = q @ queue_of (view (svc w))
    \<and> q = (if is_terminal t then [] else [enc E t'])"
proof -
  let ?K = "view (svc w)" and ?x = "next_obj w"
  let ?w0 = "w\<lparr>svc := snd (r_get (redis E) (task_key i) (svc w))\<rparr>"
  let ?w1 = "?w0\<lparr>heap := (heap w)(?x := t), next_obj := Suc ?x\<rparr>"
  let ?mark = "py_then (transition E ?x INTERRUPTED crash_detail) (async_update E ?x)"
  let ?requeue = "py_then (enqueue E ?x) (py_return True)"
  have run: "recover_key E (task_key i) w
      = (if is_terminal t then (Inr False, ?w1)
         else py_then (if status t = RUNNING then ?mark else py_return ()) ?requeue ?w1)"
    using t by (simp add: recover_key_def py_bind_def on_redis_def cmd_get_def holds_def py_try_def
        alloc_def py_return_def load_def)
  have tid: "task_id t = i"
    using inv i t by (auto simp: store_inv_def records_inv_def holds_def)
  have w1: "client_ready ?w1" "heap ?w1 ?x = t" "store_inv E (view (svc ?w1))" "view (svc ?w1) = ?K"
    using w inv by simp_all
  consider (ended) "is_terminal t" | (running) "status t = RUNNING" "\<not> is_terminal t"
    | (waiting) "status t \<noteq> RUNNING" "\<not> is_terminal t" by blast
  then show ?thesis
  proof cases
    case ended
    then have "status t \<noteq> RUNNING" by (auto simp: is_terminal_def)
    with ended run w inv t show ?thesis
      by (auto simp: progressed_refl settled_def intro!: exI [of _ t])
  next
    case running
    let ?t = "t\<lparr>status := INTERRUPTED, status_detail := crash_detail, updated_at := time_at E (ticks ?w1)\<rparr>"
    note mark = interrupt_run [OF w1(1,2,3) i _ running(1) tid refl, unfolded w1(4), OF t]
    note fin = requeue_run [OF mark(2,3,7) i mark(5,4) t mark(6)]
    have "recover_key E (task_key i) w = ?requeue (snd (?mark ?w1))"
      using run running mark(1) by (simp add: py_then_def py_bind_def)
    with fin running mark(4) show ?thesis
      by (intro exI [of _ ?t] exI [of _ "[enc E ?t]"]) simp
  next
    case waiting
    have "recover_key E (task_key i) w = ?requeue ?w1"
      using run waiting by (simp add: py_then_def py_bind_def py_return_def)
    with requeue_run [OF w1(1,2,3) i tid _ t] waiting w1(4) t show ?thesis
      by (intro exI [of _ t] exI [of _ "[enc E t]"]) (auto simp: settled_def holds_def fun_upd_idem)
  qed
qed

lemma holds_fun: "holds E K i t \<Longrightarrow> holds E K i t' \<Longrightarrow> t = t'"
  by (simp add: holds_def)

lemma requeued_progressed:
  assumes "progressed E K K'" "hex32 i" "holds E K i t"
  shows "requeued E K' i = requeued E K i"
proof -
  obtain t' where t': "holds E K' i t'" "settled t t'"
    using assms unfolding progressed_def by blast
  have "requeued E K i = (\<not> is_terminal t)"
    using assms(3) holds_fun unfolding requeued_def by blast
  moreover have "requeued E K' i = (\<not> is_terminal t')"
    using t'(1) holds_fun unfolding requeued_def by blast
  moreover have "is_terminal t' = is_terminal t"
    using t'(2) by (auto simp: settled_def is_terminal_def)
  ultimately show ?thesis by simp
qed

lemma recover_keys_run:
  fixes n :: nat
  assumes "client_ready w" "store_inv E (view (svc w))"
    and "\<forall>i \<in> set is. hex32 i \<and> (\<exists>t. holds E (view (svc w)) i t)"
  defines "m \<equiv> recover_keys E (map task_key is) n w"
  shows "fst m = Inr (n + length (filter (requeued E (view (svc w))) is))
    \<and> client_ready (snd m) \<and> store_inv E (view (svc (snd m)))
    \<and> progressed E (view (svc w)) (view (svc (snd m)))
    \<and> (\<exists>q. queue_of (view (svc (snd m))) = q @ queue_of (view (svc w))
          \<and> length q = length (filter (requeued E (view (svc w))) is)
          \<and> (\<forall>i \<in> set is. \<forall>t. holds E (view (svc (snd m))) i t \<longrightarrow>
                status t \<noteq> RUNNING \<and> (\<not> is_terminal t \<longrightarrow> enc E t \<in> set q))
          \<and> set q \<subseteq> unfinished E (view (svc (snd m))))"
  using assms(1-3) unfolding m_def
proof (induction "is" arbitrary: n w)
  case Nil
  then show ?case by (simp add: py_simps progressed_refl)
next
  case (Cons i ids)
  let ?K = "view (svc w)"
  obtain t where i: "hex32 i" "holds E ?K i t" using Cons.prems(3) by auto
  let ?w1 = "snd (recover_key E (task_key i) w)"
  let ?K1 = "view (svc ?w1)"
  obtain t1 q1 where one: "fst (recover_key E (task_key i) w) = Inr (\<not> is_terminal t)"
    "client_ready ?w1" "store_inv E ?K1" "progressed E ?K ?K1" "holds E ?K1 i t1"
    "status t1 \<noteq> RUNNING" "settled t t1" "queue_of ?K1 = q1 @ queue_of ?K"
    "q1 = (if is_terminal t then [] else [enc E t1])"
    using recover_key_run [OF Cons.prems(1,2) i] by blast
  have ids: "\<forall>j \<in> set ids. hex32 j \<and> (\<exists>u. holds E ?K1 j u)"
    using Cons.prems(3) one(4) unfolding progressed_def by (metis list.set_intros(2))
  let ?n = "if \<not> is_terminal t then Suc n else n"
  let ?w2 = "snd (recover_keys E (map task_key ids) ?n ?w1)"
  let ?K2 = "view (svc ?w2)"
  note IH = Cons.IH [OF one(2,3) ids, of ?n]
  have run: "recover_keys E (map task_key (i # ids)) n w = recover_keys E (map task_key ids) ?n ?w1"
    using one(1) by (simp add: py_bind_def)
  have req: "requeued E ?K i = (\<not> is_terminal t)"
    using i(2) holds_fun unfolding requeued_def by blast
  have same: "filter (requeued E ?K1) ids = filter (requeued E ?K) ids"
    using Cons.prems(3) requeued_progressed [OF one(4)] by (intro filter_cong) auto
  obtain q2 where q2: "queue_of ?K2 = q2 @ queue_of ?K1"
    "length q2 = length (filter (requeued E ?K1) ids)"
    and rest: "\<forall>i \<in> set ids. \<forall>t. holds E ?K2 i t \<longrightarrow>
        status t \<noteq> RUNNING \<and> (\<not> is_terminal t \<longrightarrow> enc E t \<in> set q2)"
    and sub2: "set q2 \<subseteq> unfinished E ?K2"
    using IH by blast
  have prog: "progressed E ?K ?K2" using IH progressed_trans [OF one(4)] by blast
  have ends: "is_terminal t1 = is_terminal t"
    using one(7) by (auto simp: settled_def is_terminal_def)
  have kept: "holds E ?K2 i t1"
  proof -
    from IH i(1) one(5) obtain t2 where "holds E ?K2 i t2" "settled t1 t2"
      unfolding progressed_def by blast
    with one(6) show ?thesis by (auto simp: settled_def)
  qed
  have mine: "status u \<noteq> RUNNING \<and> (\<not> is_terminal u \<longrightarrow> enc E u \<in> set q1)"
    if u: "holds E ?K2 i u" for u
    using holds_fun [OF u kept] ends one(6,9) by auto
  have sub1: "set q1 \<subseteq> unfinished E ?K2"
    using one(9) ends unfinishedI [OF i(1) kept] by auto
  show ?case
    unfolding run
  proof (intro conjI)
    have "\<forall>j \<in> set (i # ids). \<forall>u. holds E ?K2 j u \<longrightarrow>
        status u \<noteq> RUNNING \<and> (\<not> is_terminal u \<longrightarrow> enc E u \<in> set (q2 @ q1))"
      using mine rest by auto
    then show "\<exists>q. queue_of ?K2 = q @ queue_of ?K
        \<and> length q = length (filter (requeued E ?K) (i # ids))
        \<and> (\<forall>j \<in> set (i # ids). \<forall>u. holds E ?K2 j u \<longrightarrow>
              status u \<noteq> RUNNING \<and> (\<not> is_terminal u \<longrightarrow> enc E u \<in> set q))
        \<and> set q \<subseteq> unfinished E ?K2"
      using q2 one(8,9) req same sub1 sub2 by (intro exI [of _ "q2 @ q1"]) simp
  qed (use IH req same prog in auto)
qed

text \<open>With enough fuel the scan finds the ids of exactly the stored tasks, some perhaps twice.\<close>

lemma scan_ids:
  assumes wf: "task_keys_wf (view (svc w))"
  shows "\<exists>fuel ids r. scan_loop fuel E 0 [] w = (Inr (Some (map task_key ids)), w\<lparr>svc := r\<rparr>)
    \<and> view r = view (svc w) \<and> set ids = {i. hex32 i \<and> ks_keys (view (svc w)) (task_key i) \<noteq> None}"
proof -
  let ?K = "view (svc w)"
  obtain fuel ks r where scan: "scan_run fuel (redis E) (''cio:task:'' @ ''*'') 100 0 (svc w) = Some (ks, r)"
    and ks: "set ks = {k. ks_keys ?K k \<noteq> None \<and> starts_with k ''cio:task:''}" and r: "view r = ?K"
    using scan_iterates [of "''cio:task:''" 100 "svc w"] by blast
  let ?keys = "filter is_record_key ks"
  let ?w1 = "w\<lparr>svc := r\<rparr>"
  have loop: "scan_loop fuel E 0 [] w = (Inr (Some ?keys), ?w1)"
    using scan_loop_run [of fuel E 0 w ks r "[]"] scan by simp
  have "\<forall>k \<in> set ?keys. \<exists>i. hex32 i \<and> k = task_key i"
    using wf ks by (auto simp: task_keys_wf_def)
  then obtain f where f: "\<And>k. k \<in> set ?keys \<Longrightarrow> hex32 (f k) \<and> k = task_key (f k)" by metis
  let ?ids = "map f ?keys"
  have keys: "map task_key ?ids = ?keys"
    by (simp only: map_map comp_def, rule map_idI) (use f in metis)
  have ids: "set ?ids = {i. hex32 i \<and> ks_keys ?K (task_key i) \<noteq> None}"
  proof (intro set_eqI iffI)
    fix i assume "i \<in> set ?ids"
    then obtain k where k: "k \<in> set ?keys" "i = f k" by auto
    from f [OF k(1)] have "hex32 (f k)" by (rule conjunct1)
    moreover from f [OF k(1)] have "k = task_key (f k)" by (rule conjunct2)
    then have "task_key (f k) = k" by (rule sym)
    moreover from k(1) ks have "ks_keys ?K k \<noteq> None" by simp
    ultimately show "i \<in> {i. hex32 i \<and> ks_keys ?K (task_key i) \<noteq> None}"
      by (simp add: k(2))
  next
    fix i assume "i \<in> {i. hex32 i \<and> ks_keys ?K (task_key i) \<noteq> None}"
    then have i: "hex32 i" "ks_keys ?K (task_key i) \<noteq> None" by auto
    have "starts_with (task_key i) ''cio:task:''"
      unfolding task_key_def by (rule starts_with_append)
    with i ks have "task_key i \<in> set ?keys" by simp
    moreover from f [OF this] have "task_key i = task_key (f (task_key i))" by (rule conjunct2)
    then have "i = f (task_key i)" by (simp only: task_key_inject)
    ultimately show "i \<in> set ?ids" by (metis image_eqI list.set_map)
  qed
  show ?thesis
    by (rule exI [of _ fuel], rule exI [of _ ?ids], rule exI [of _ r], unfold keys)
      (intro conjI loop r ids)
qed

text \<open>The whole recovery: some amount of fuel is enough, and then it returns how many keys it queued.\<close>

lemma recovery_run:
  assumes w: "client_ready w" and inv: "store_inv E (view (svc w))"
    and wf: "task_keys_wf (view (svc w))"
  shows "\<exists>fuel n. fst (recover_stranded_tasks fuel E w) = Inr (Some n)
    \<and> store_inv E (view (svc (snd (recover_stranded_tasks fuel E w))))
    \<and> progressed E (view (svc w)) (view (svc (snd (recover_stranded_tasks fuel E w))))
    \<and> card {i. hex32 i \<and> requeued E (view (svc w)) i} \<le> n
    \<and> (\<exists>q. queue_of (view (svc (snd (recover_stranded_tasks fuel E w)))) = q @ queue_of (view (svc w))
          \<and> length q = n
          \<and> (\<forall>i t. hex32 i \<longrightarrow> holds E (view (svc (snd (recover_stranded_tasks fuel E w)))) i t \<longrightarrow>
               status t \<noteq> RUNNING \<and> (\<not> is_terminal t \<longrightarrow> enc E t \<in> set q))
          \<and> set q \<subseteq> unfinished E (view (svc (snd (recover_stranded_tasks fuel E w)))))"
proof -
  let ?K = "view (svc w)"
  obtain fuel ids r where loop: "scan_loop fuel E 0 [] w = (Inr (Some (map task_key ids)), w\<lparr>svc := r\<rparr>)"
    and r: "view r = ?K" and ids: "set ids = {i. hex32 i \<and> ks_keys ?K (task_key i) \<noteq> None}"
    using scan_ids [OF wf] by blast
  let ?w1 = "w\<lparr>svc := r\<rparr>"
  have stored: "\<forall>i \<in> set ids. hex32 i \<and> (\<exists>t. holds E (view (svc ?w1)) i t)"
    using ids inv r unfolding store_inv_def records_inv_def by auto
  have w1: "client_ready ?w1" "store_inv E (view (svc ?w1))" using w inv r by simp_all
  note body = recover_keys_run [OF w1 stored, of 0]
  let ?res = "recover_keys E (map task_key ids) 0 ?w1"
  let ?n = "length (filter (requeued E ?K) ids)"
  have run: "recover_stranded_tasks fuel E w = (Inr (Some ?n), snd ?res)"
    using loop w body r
    by (cases "ids = []") (simp_all add: recover_stranded_tasks_def py_simps split_beta split: sum.split)
  have "{i. hex32 i \<and> requeued E ?K i} \<subseteq> set (filter (requeued E ?K) ids)"
    using ids by (auto simp: requeued_def holds_def)
  then have "card {i. hex32 i \<and> requeued E ?K i} \<le> card (set (filter (requeued E ?K) ids))"
    by (intro card_mono) simp_all
  also have "\<dots> \<le> ?n" by (rule card_length)
  finally have card: "card {i. hex32 i \<and> requeued E ?K i} \<le> ?n" .
  have prog: "progressed E (view (svc ?w1)) (view (svc (snd ?res)))" using body by blast
  have all: "i \<in> set ids" if "hex32 i" "holds E (view (svc (snd ?res))) i t" for i t
  proof -
    from that(2) have "ks_keys (view (svc (snd ?res))) (task_key i) \<noteq> None"
      by (simp add: holds_def)
    with prog that(1) have "ks_keys (view (svc ?w1)) (task_key i) \<noteq> None"
      unfolding progressed_def by blast
    with that(1) ids r show ?thesis by simp
  qed
  have vw: "view (svc ?w1) = ?K" using r by simp
  obtain q where q: "queue_of (view (svc (snd ?res))) = q @ queue_of ?K" "length q = ?n"
    "\<forall>i \<in> set ids. \<forall>t. holds E (view (svc (snd ?res))) i t \<longrightarrow>
        status t \<noteq> RUNNING \<and> (\<not> is_terminal t \<longrightarrow> enc E t \<in> set q)"
    "set q \<subseteq> unfinished E (view (svc (snd ?res)))"
    using body unfolding vw by blast
  have inv': "store_inv E (view (svc (snd ?res)))" and prog': "progressed E ?K (view (svc (snd ?res)))"
    using body unfolding vw by blast+
  have fin: "\<forall>i t. hex32 i \<longrightarrow> holds E (view (svc (snd ?res))) i t \<longrightarrow>
      status t \<noteq> RUNNING \<and> (\<not> is_terminal t \<longrightarrow> enc E t \<in> set q)"
    using q(3) all by blast
  show ?thesis
    by (rule exI [of _ fuel], rule exI [of _ ?n], unfold run fst_conv snd_conv,
        intro conjI refl inv' prog' card exI [of _ q] q(1,2,4) fin)
qed

end

section \<open>Properties\<close>

text \<open>C10: recovery brings exactly the unfinished tasks back. For some number of \<open>SCAN\<close> calls the
  recovery returns; afterwards the store is consistent, the tasks that were \<open>RUNNING\<close> are
  \<open>INTERRUPTED\<close> and every other stored task is unchanged, finished ones included. The returned
  number of tasks was put on the queue, behind what was there: these are the stored tasks that are
  not finished, each at least once, and no finished task.\<close>

theorem recovery_correct:
  assumes "deployment E view" "client_ready w" "store_inv E (view (svc w))"
    and "task_keys_wf (view (svc w))"
  shows "\<exists>fuel n w' q. recover_stranded_tasks fuel E w = (Inr (Some n), w')
    \<and> store_inv E (view (svc w'))
    \<and> (\<forall>i t. hex32 i \<longrightarrow> holds E (view (svc w)) i t \<longrightarrow>
         (if status t = RUNNING
          then \<exists>t'. holds E (view (svc w')) i t' \<and> same_identity t t'
                 \<and> status t' = INTERRUPTED \<and> status_detail t' = crash_detail
          else holds E (view (svc w')) i t))
    \<and> (\<forall>i. hex32 i \<longrightarrow> ks_keys (view (svc w')) (task_key i) \<noteq> None \<longrightarrow>
         ks_keys (view (svc w)) (task_key i) \<noteq> None)
    \<and> queue_of (view (svc w')) = q @ queue_of (view (svc w))
    \<and> length q = n
    \<and> set q = {enc E t |i t. hex32 i \<and> holds E (view (svc w')) i t \<and> \<not> is_terminal t}
    \<and> card {i. hex32 i \<and> requeued E (view (svc w)) i} \<le> n"
proof -
  obtain fuel n q where run: "fst (recover_stranded_tasks fuel E w) = Inr (Some n)"
    and inv: "store_inv E (view (svc (snd (recover_stranded_tasks fuel E w))))"
    and prog: "progressed E (view (svc w)) (view (svc (snd (recover_stranded_tasks fuel E w))))"
    and card: "card {i. hex32 i \<and> requeued E (view (svc w)) i} \<le> n"
    and q: "queue_of (view (svc (snd (recover_stranded_tasks fuel E w)))) = q @ queue_of (view (svc w))"
      "length q = n"
    and fin: "\<forall>i t. hex32 i \<longrightarrow> holds E (view (svc (snd (recover_stranded_tasks fuel E w)))) i t \<longrightarrow>
       status t \<noteq> RUNNING \<and> (\<not> is_terminal t \<longrightarrow> enc E t \<in> set q)"
    and sub: "set q \<subseteq> unfinished E (view (svc (snd (recover_stranded_tasks fuel E w))))"
    using deployment.recovery_run [OF assms] by blast
  let ?w = "snd (recover_stranded_tasks fuel E w)"
  have kept: "if status t = RUNNING
      then \<exists>t'. holds E (view (svc ?w)) i t' \<and> same_identity t t'
             \<and> status t' = INTERRUPTED \<and> status_detail t' = crash_detail
      else holds E (view (svc ?w)) i t" if t: "hex32 i" "holds E (view (svc w)) i t" for i t
  proof -
    from prog t obtain t' where "holds E (view (svc ?w)) i t'" "settled t t'"
      unfolding progressed_def by blast
    with fin t(1) show ?thesis by (auto simp: settled_def)
  qed
  have "set q = unfinished E (view (svc ?w))"
    using sub fin by (auto simp: unfinished_def)
  moreover have "recover_stranded_tasks fuel E w = (Inr (Some n), ?w)"
    using run by (metis prod.collapse)
  ultimately show ?thesis
    using inv kept prog card q unfolding unfinished_def progressed_def by blast
qed

lemma saved_world_task_keys: "task_keys_wf (mem_view (svc saved_world))"
  unfolding task_keys_wf_def saved_world_keys
proof (intro allI impI)
  fix k
  assume "([task_key (task_id no_task) \<mapsto> RStr (enc mem_env no_task),
      project_tasks_key ''demo'' \<mapsto> RSet [task_id no_task],
      digest_key mem_env ''demo'' ''build'' \<mapsto> RStr (task_id no_task)]) k \<noteq> None"
    and k: "is_record_key k"
  then consider "k = task_key (task_id no_task)" | "k = project_tasks_key ''demo''"
    | "k = digest_key mem_env ''demo'' ''build''"
    by (auto split: if_splits)
  then show "\<exists>i. hex32 i \<and> k = task_key i"
  proof cases
    case 1
    then show ?thesis using no_task_simps(1) by blast
  next
    case 2
    with k show ?thesis by (simp add: is_record_key_def project_tasks_key_def)
  next
    case 3
    with k show ?thesis by (simp add: is_record_key_def digest_key_def digest_entry_def)
  qed
qed

theorem recovery_correct_witness:
  "\<exists>fuel n w'. recover_stranded_tasks fuel mem_env saved_world = (Inr (Some n), w')
     \<and> holds mem_env (mem_view (svc w')) (task_id no_task) no_task
     \<and> enc mem_env no_task \<in> set (queue_of (mem_view (svc w')))"
proof -
  have h: "holds mem_env (mem_view (svc saved_world)) (task_id no_task) no_task"
    by (rule saved_world_holds)
  have s: "status no_task = PENDING" "\<not> is_terminal no_task" by (simp_all add: is_terminal_def)
  from recovery_correct [OF memory.deployment_axioms saved_world_facts(1) saved_world_inv
      saved_world_task_keys]
  obtain fuel n w' q where run: "recover_stranded_tasks fuel mem_env saved_world = (Inr (Some n), w')"
    and kept: "\<forall>i t. hex32 i \<longrightarrow> holds mem_env (mem_view (svc saved_world)) i t \<longrightarrow>
         (if status t = RUNNING
          then \<exists>t'. holds mem_env (mem_view (svc w')) i t' \<and> same_identity t t'
                 \<and> status t' = INTERRUPTED \<and> status_detail t' = crash_detail
          else holds mem_env (mem_view (svc w')) i t)"
    and q: "queue_of (mem_view (svc w')) = q @ queue_of (mem_view (svc saved_world))"
      "set q = {enc mem_env t |i t. hex32 i \<and> holds mem_env (mem_view (svc w')) i t \<and> \<not> is_terminal t}"
    by (elim exE conjE) (rule that)
  have "status no_task \<noteq> RUNNING" using s(1) by simp
  with kept h no_task_simps(1) have h': "holds mem_env (mem_view (svc w')) (task_id no_task) no_task"
    by presburger
  with s(2) no_task_simps(1) have "enc mem_env no_task \<in> set q" unfolding q(2) by blast
  then have "enc mem_env no_task \<in> set (queue_of (mem_view (svc w')))"
    unfolding q(1) set_append by (rule UnI1)
  with run h' show ?thesis by (intro exI conjI)
qed

lemma count_list_pos: "x \<in> set xs \<Longrightarrow> Suc 0 \<le> count_list xs x"
  by (induction xs) auto

text \<open>recovery queues what is queued already. The queue is in Redis and survives a restart, so a
  pending task that still is in it is in it twice afterwards.\<close>

theorem recovery_duplicates:
  assumes "deployment E view" "client_ready w" "store_inv E (view (svc w))"
    and "task_keys_wf (view (svc w))" "hex32 i" "holds E (view (svc w)) i t" "status t = PENDING"
    and "enc E t \<in> set (queue_of (view (svc w)))"
  shows "\<exists>fuel n. fst (recover_stranded_tasks fuel E w) = Inr (Some n)
    \<and> 2 \<le> count_list (queue_of (view (svc (snd (recover_stranded_tasks fuel E w))))) (enc E t)"
proof -
  obtain fuel n q where run: "fst (recover_stranded_tasks fuel E w) = Inr (Some n)"
    and prog: "progressed E (view (svc w)) (view (svc (snd (recover_stranded_tasks fuel E w))))"
    and q: "queue_of (view (svc (snd (recover_stranded_tasks fuel E w)))) = q @ queue_of (view (svc w))"
      "\<forall>i t. hex32 i \<longrightarrow> holds E (view (svc (snd (recover_stranded_tasks fuel E w)))) i t \<longrightarrow>
         status t \<noteq> RUNNING \<and> (\<not> is_terminal t \<longrightarrow> enc E t \<in> set q)"
    using deployment.recovery_run [OF assms(1-4)] by blast
  obtain t' where t': "holds E (view (svc (snd (recover_stranded_tasks fuel E w)))) i t'" "settled t t'"
    using prog assms(5,6) unfolding progressed_def by blast
  with assms(7) have "t' = t" by (auto simp: settled_def)
  with q(2) assms(5,7) t'(1) have "enc E t \<in> set q" by (auto simp: is_terminal_def)
  then have "1 \<le> count_list q (enc E t)" "1 \<le> count_list (queue_of (view (svc w))) (enc E t)"
    using assms(8) by (simp_all add: count_list_pos)
  then have "2 \<le> count_list (q @ queue_of (view (svc w))) (enc E t)"
    by simp
  with run q(1) show ?thesis by (intro exI [of _ fuel] exI [of _ n]) simp
qed

theorem recovery_duplicates_witness:
  "\<exists>fuel. 2 \<le> count_list (queue_of (mem_view (svc (snd (recover_stranded_tasks fuel mem_env queued_world)))))
     (enc mem_env no_task)"
proof -
  have wf: "task_keys_wf (mem_view (svc queued_world))"
    using saved_world_task_keys unfolding queued_world_view task_keys_wf_def
    by (auto simp: queued_keys is_record_key_def queue_key_def)
  have "enc mem_env no_task \<in> set (queue_of (mem_view (svc queued_world)))"
    by (simp add: queued_world_queue)
  from recovery_duplicates [OF memory.deployment_axioms _ queued_world_inv wf no_task_simps(1)
      queued_world_holds _ this]
  show ?thesis by auto
qed

end
