(* ===== verification/Http.thy ===== *)
theory Http
  imports Api Recovery
begin

text \<open>
  The HTTP surface of \<open>src/api.py\<close>: the routes its decorators declare, what the handlers take from
  \<open>app.state\<close>, and the status each call is answered with. FastAPI is a parameter: how it takes a route for a path and what status it gives to an
  exception. The locale \<open>documented_framework\<close> states what its documentation says of both; a path that
  is none of these routes is left to it.
\<close>

section \<open>Routes\<close>

datatype segment = Lit string | TaskId

datatype endpoint = CreateTask | GetTask | StreamTask | Health

text \<open>A decorator: method, path, the status of success, the statuses its \<open>responses\<close> document, and
  its tags.\<close>

record route =
  rt_method :: string
  rt_path :: "segment list"
  rt_status :: int
  rt_responses :: "int list"
  rt_tags :: "string list"
  rt_endpoint :: endpoint

definition create_route :: route where
  "create_route =
     \<lparr>rt_method = ''POST'', rt_path = [Lit ''tasks''], rt_status = 202, rt_responses = [202, 422],
      rt_tags = [''tasks''], rt_endpoint = CreateTask\<rparr>"

definition get_route :: route where
  "get_route =
     \<lparr>rt_method = ''GET'', rt_path = [Lit ''tasks'', TaskId], rt_status = 200, rt_responses = [200, 404],
      rt_tags = [''tasks''], rt_endpoint = GetTask\<rparr>"

definition stream_route :: route where
  "stream_route =
     \<lparr>rt_method = ''GET'', rt_path = [Lit ''tasks'', TaskId, Lit ''stream''], rt_status = 200,
      rt_responses = [200, 404], rt_tags = [''tasks''],
      rt_endpoint = StreamTask\<rparr>"

definition health_route :: route where
  "health_route =
     \<lparr>rt_method = ''GET'', rt_path = [Lit ''health''], rt_status = 200, rt_responses = [],
      rt_tags = [''health''], rt_endpoint = Health\<rparr>"

lemmas route_defs = create_route_def get_route_def stream_route_def health_route_def

definition routes :: "route list" where
  "routes = [create_route, get_route, stream_route, health_route]"

text \<open>What \<open>FastAPI(...)\<close> is told besides texts: the tags, and the paths of the documentation, which the
  framework serves itself.\<close>

definition openapi_tags :: "string list" where
  "openapi_tags = [''tasks'', ''health'']"

definition docs_paths :: "string list list" where
  "docs_paths = [[''docs''], [''redoc''], [''openapi.json'']]"

section \<open>The framework\<close>

record framework =
  takes :: "route list \<Rightarrow> string \<Rightarrow> string list \<Rightarrow> (route \<times> string list) option"
  request_status :: "exn \<Rightarrow> int"
  handler_status :: "exn \<Rightarrow> int"

text \<open>A path against a path with parameters; a parameter is one non-empty segment.\<close>

fun match_path :: "segment list \<Rightarrow> string list \<Rightarrow> string list option" where
  "match_path [] [] = Some []"
| "match_path (Lit l # ts) (s # ss) = (if s = l then match_path ts ss else None)"
| "match_path (TaskId # ts) (s # ss) = (if s = [] then None else map_option ((#) s) (match_path ts ss))"
| "match_path _ _ = None"

text \<open>The first route of the method that the path matches is taken; a body that does not validate is
  answered with 422, an \<open>HTTPException\<close> with its status and any other exception with 500.\<close>

locale documented_framework =
  fixes F :: framework
  assumes takes_first: "takes F (r # rs) meth path =
      (if rt_method r = meth \<and> match_path (rt_path r) path \<noteq> None
       then map_option (Pair r) (match_path (rt_path r) path) else takes F rs meth path)"
    and invalid_request: "request_status F (ValidationError d) = 422"
    and failed_request: "(\<And>d. e \<noteq> ValidationError d) \<Longrightarrow> request_status F e = 500"
    and http_error: "handler_status F (HTTPException n d) = n"
    and other_error: "(\<And>n d. e \<noteq> HTTPException n d) \<Longrightarrow> handler_status F e = 500"

section \<open>Calls\<close>

datatype answer =
    TaskAnswer task_response
  | StreamAnswer stream_response
  | HealthAnswer json
  | ErrorAnswer exn

text \<open>A handler with the status of its route.\<close>

definition answered :: "framework \<Rightarrow> int \<Rightarrow> ('a \<Rightarrow> answer) \<Rightarrow> ('r, 'a) prog \<Rightarrow> ('r, int \<times> answer) prog" where
  "answered F st f m =
     py_try (py_bind m (\<lambda>a. py_return (st, f a)))
       (\<lambda>e. py_return (handler_status F e, ErrorAnswer e))"

text \<open>What \<open>_run_app\<close> puts on \<open>app.state\<close>, and the accessors of the handlers. The objects have no fields of
  their own: store, queue and bus are the shared Redis client, the factory the engine cache.\<close>

datatype service = StoreService | QueueService | BusService | FactoryService

type_synonym app_state = "string \<rightharpoonup> service"

definition wired :: app_state where
  "wired =
     [''task_store'' \<mapsto> StoreService, ''task_queue'' \<mapsto> QueueService, ''event_bus'' \<mapsto> BusService,
      ''engine_factory'' \<mapsto> FactoryService]"

definition state_attr :: "app_state \<Rightarrow> string \<Rightarrow> ('r, service) prog" where
  "state_attr S name =
     (case S name of None \<Rightarrow> py_raise (AttributeError name) | Some v \<Rightarrow> py_return v)"

definition get_store :: "app_state \<Rightarrow> ('r, service) prog" where
  "get_store S = state_attr S ''task_store''"

definition get_queue :: "app_state \<Rightarrow> ('r, service) prog" where
  "get_queue S = state_attr S ''task_queue''"

definition get_bus :: "app_state \<Rightarrow> ('r, service) prog" where
  "get_bus S = state_attr S ''event_bus''"

lemmas state_defs = state_attr_def get_store_def get_queue_def get_bus_def wired_def

text \<open>A call of \<open>app\<close> with a given state, with its routes in the order of their decorators.\<close>

definition call_on ::
  "app_state \<Rightarrow> 'r env \<Rightarrow> framework \<Rightarrow> string \<Rightarrow> string list \<Rightarrow> json \<Rightarrow> ('r, (int \<times> answer) option) prog" where
  "call_on S E F meth path body =
     (case takes F routes meth path of
        None \<Rightarrow> py_return None
      | Some (rt, params) \<Rightarrow>
          py_bind
            (case rt_endpoint rt of
               CreateTask \<Rightarrow>
                 (case parse_request E body of
                    Inl e \<Rightarrow> py_return (request_status F e, ErrorAnswer e)
                  | Inr b \<Rightarrow> answered F (rt_status rt) TaskAnswer
                      (py_then (get_store S) (py_then (get_queue S) (create_task E b))))
             | GetTask \<Rightarrow> answered F (rt_status rt) TaskAnswer
                 (py_then (get_store S) (get_task E (hd params)))
             | StreamTask \<Rightarrow> answered F (rt_status rt) StreamAnswer
                 (py_then (get_store S) (py_then (get_bus S) (stream_task E (hd params))))
             | Health \<Rightarrow> answered F (rt_status rt) HealthAnswer (py_return health))
            (\<lambda>res. py_return (Some res)))"

text \<open>The server is started after the state is set.\<close>

definition call :: "'r env \<Rightarrow> framework \<Rightarrow> string \<Rightarrow> string list \<Rightarrow> json \<Rightarrow> ('r, (int \<times> answer) option) prog" where
  "call E F = call_on wired E F"

lemma answered_run:
  "answered F st f m w =
     (case fst (m w) of
        Inr a \<Rightarrow> (Inr (st, f a), snd (m w))
      | Inl e \<Rightarrow> (Inr (handler_status F e, ErrorAnswer e), snd (m w)))"
  by (simp add: answered_def py_simps split: sum.split)

context documented_framework
begin

lemma call_simps:
  "call E F ''POST'' [''tasks''] j w =
     (case parse_request E j of
        Inl e \<Rightarrow> (Inr (Some (request_status F e, ErrorAnswer e)), w)
      | Inr b \<Rightarrow>
          (case fst (create_task E b w) of
             Inr a \<Rightarrow> (Inr (Some (202, TaskAnswer a)), snd (create_task E b w))
           | Inl e \<Rightarrow> (Inr (Some (handler_status F e, ErrorAnswer e)), snd (create_task E b w))))"
  "i \<noteq> [] \<Longrightarrow> fst (call E F ''GET'' [''tasks'', i] j w) =
     (case fst (get_task E i w) of
        Inr a \<Rightarrow> Inr (Some (200, TaskAnswer a))
      | Inl e \<Rightarrow> Inr (Some (handler_status F e, ErrorAnswer e)))"
  "i \<noteq> [] \<Longrightarrow> fst (call E F ''GET'' [''tasks'', i, ''stream''] j w) =
     (case fst (stream_task E i w) of
        Inr a \<Rightarrow> Inr (Some (200, StreamAnswer a))
      | Inl e \<Rightarrow> Inr (Some (handler_status F e, ErrorAnswer e)))"
  "fst (call E F ''GET'' [''health''] j w) = Inr (Some (200, HealthAnswer health))"
  by (simp_all add: call_def call_on_def routes_def takes_first route_defs answered_run state_defs
      py_simps split: sum.split)

text \<open>Without the state the calls that need it are answered with 500, and \<open>/health\<close> as always.\<close>

lemma call_unwired:
  assumes "i \<noteq> []"
  shows "parse_request E j = Inr b \<Longrightarrow> call_on Map.empty E F ''POST'' [''tasks''] j w
      = (Inr (Some (500, ErrorAnswer (AttributeError ''task_store''))), w)"
    "call_on Map.empty E F ''GET'' [''tasks'', i] j w
      = (Inr (Some (500, ErrorAnswer (AttributeError ''task_store''))), w)"
    "call_on Map.empty E F ''GET'' [''tasks'', i, ''stream''] j w
      = (Inr (Some (500, ErrorAnswer (AttributeError ''task_store''))), w)"
    "call_on Map.empty E F ''GET'' [''health''] j w = (Inr (Some (200, HealthAnswer health)), w)"
  using assms by (simp_all add: call_on_def routes_def takes_first route_defs answered_run state_defs
      other_error py_simps)

text \<open>The routes leave the paths of the documentation to the framework, for every method, and have declared
  tags.\<close>

lemma docs_not_taken:
  assumes "path \<in> set docs_paths"
  shows "takes F routes meth path = takes F [] meth path"
proof -
  have "match_path (rt_path r) path = None" if "r \<in> set routes" for r
    using assms that
    unfolding docs_paths_def routes_def set_simps insert_iff empty_iff
    by (elim disjE FalseE) (simp_all add: route_defs)
  then show ?thesis by (simp add: routes_def takes_first)
qed

lemma tags_declared: "r \<in> set routes \<Longrightarrow> set (rt_tags r) \<subseteq> set openapi_tags"
  by (auto simp: routes_def route_defs openapi_tags_def)

lemma request_statuses:
  "request_status F e = (if \<exists>d. e = ValidationError d then 422 else 500)"
  using invalid_request failed_request by auto

end

text \<open>A framework that does what is documented.\<close>

fun takes_route :: "route list \<Rightarrow> string \<Rightarrow> string list \<Rightarrow> (route \<times> string list) option" where
  "takes_route [] meth path = None"
| "takes_route (r # rs) meth path =
     (if rt_method r = meth \<and> match_path (rt_path r) path \<noteq> None
      then map_option (Pair r) (match_path (rt_path r) path) else takes_route rs meth path)"

definition plain_framework :: framework where
  "plain_framework =
     \<lparr>takes = takes_route,
      request_status = (\<lambda>e. case e of ValidationError d \<Rightarrow> 422 | _ \<Rightarrow> 500),
      handler_status = (\<lambda>e. case e of HTTPException n d \<Rightarrow> n | _ \<Rightarrow> 500)\<rparr>"

interpretation plain: documented_framework plain_framework
  by unfold_locales (auto simp: plain_framework_def split: exn.split)

text \<open>\<open>task_of_json\<close> takes objects only.\<close>

lemma validate_no_object:
  assumes "\<And>m. loads E s \<noteq> Some (JObj m)"
  shows "\<exists>d. fst (model_validate_json E s w) = Inl (ValidationError d)"
proof (cases "loads E s")
  case None
  then show ?thesis by (simp add: model_validate_json_def py_simps)
next
  case (Some j)
  then have "\<forall>m. j \<noteq> JObj m" using assms by blast
  with Some show ?thesis
    by (cases j) (simp_all add: model_validate_json_def task_of_json_def py_bind_def py_raise_def)
qed

text \<open>The text of an id is no JSON object: an object starts with a brace.\<close>

definition ids_no_objects :: "'r env \<Rightarrow> bool" where
  "ids_no_objects E = (\<forall>i m. hex32 i \<longrightarrow> loads E i \<noteq> Some (JObj m))"

lemma parse_value_brace:
  assumes "parse_value n s = Some (JObj m, r)"
  shows "CHR 0x7B \<in> set s"
proof -
  obtain k c t where n: "n = Suc k" and s: "skip_ws s = c # t"
    using assms by (cases n) (auto split: list.splits)
  then have "c \<in> set s" by (metis list.set_intros(1) set_dropWhileD)
  moreover have "parse_number u \<noteq> Some (JObj m)" for u
    by (simp add: parse_number_def)
  then have "c = CHR 0x7B"
    using assms by (simp add: n s split: if_splits option.splits)
  ultimately show ?thesis by simp
qed

lemma mem_ids_no_objects: "ids_no_objects mem_env"
  unfolding ids_no_objects_def
proof (intro allI impI notI)
  fix i m assume i: "hex32 i" and "loads mem_env i = Some (JObj m)"
  then obtain r where "parse_value (Suc (length i)) i = Some (JObj m, r)"
    by (auto simp: json_loads_def simp del: parse_value.simps split: option.splits if_splits)
  from parse_value_brace [OF this] i have "CHR 0x7B \<in> set hex_chars" by (auto simp: hex32_def)
  then show False by (simp add: hex_chars_def)
qed

context deployment
begin

lemma get_no_task:
  assumes "client_ready w" "ks_keys (view (svc w)) (task_key i) = Some (RStr s)"
    and "\<And>m. loads E s \<noteq> Some (JObj m)"
  shows "\<exists>d. fst (get_task E i w) = Inl (ValidationError d) \<and> fst (stream_task E i w) = Inl (ValidationError d)"
proof -
  let ?w = "w\<lparr>svc := snd (r_get (redis E) (task_key i) (svc w))\<rparr>"
  obtain d where d: "fst (model_validate_json E s ?w) = Inl (ValidationError d)"
    using validate_no_object [of E s ?w] assms(3) by blast
  have "fst (r_get (redis E) (task_key i) (svc w)) = Inr (Some s)"
    using assms(2) by (simp add: cmd_get_def)
  with d assms(1) show ?thesis
    by (simp add: get_task_def stream_task_def store_get_def py_bind_def py_then_def get_redis_def
        on_redis_def)
qed

text \<open>What is stored under the key that a path parameter gives: the record of a task, or the id that a
  digest names.\<close>

lemma stored_under:
  assumes inv: "store_inv E K" and wf: "task_keys_wf K" and some: "ks_keys K (task_key i) \<noteq> None"
  obtains (stored) t where "hex32 i" "holds E K i t"
  | (digest) h k where "\<not> hex32 i" "i = ''digest:'' @ h" "hex32 k" "ks_keys K (task_key i) = Some (RStr k)"
proof (cases "is_record_key (task_key i)")
  case True
  then obtain k where k: "hex32 k" "task_key i = task_key k"
    using wf some unfolding task_keys_wf_def by blast
  then have i: "hex32 i" by simp
  with inv some obtain t where "holds E K i t"
    by (auto simp: store_inv_def records_inv_def)
  with i show thesis by (rule stored)
next
  case False
  then have nohex: "\<not> hex32 i" by auto
  have "starts_with (task_key i) ''cio:task:digest:''"
    using False by (simp add: is_record_key_def task_key_def starts_with_append)
  then obtain h where h: "task_key i = ''cio:task:digest:'' @ h" by (auto simp: starts_with_iff)
  then have i: "i = ''digest:'' @ h" by (simp add: task_key_def)
  from h have key: "task_key i = digest_entry h" by (simp add: digest_entry_def)
  from some obtain v where v: "ks_keys K (digest_entry h) = Some v" unfolding key by blast
  with inv obtain k where "v = RStr k" "hex32 k"
    by (auto simp: store_inv_def digests_inv_def live_digest_def)
  with v key show thesis by (intro digest [OF nohex i]) simp_all
qed

text \<open>Creating a task, whether or not its new id is taken.\<close>

lemma create_task_all:
  assumes w: "client_ready w" and inv: "store_inv E (view (svc w))"
  shows "if \<exists>t. duplicate E (view (svc w)) b t
    then (\<exists>t. duplicate E (view (svc w)) b t \<and> fst (create_task E b w) = Inr (from_task t))
         \<and> view (svc (snd (create_task E b w))) = view (svc w)
    else if ks_keys (view (svc w)) (task_key (uuid_at E (ticks w))) = None
    then fst (create_task E b w) = Inr (from_task (created_task E (ticks w) b))
         \<and> holds E (view (svc (snd (create_task E b w)))) (uuid_at E (ticks w)) (created_task E (ticks w) b)
    else fst (create_task E b w) = Inl (task_exists (uuid_at E (ticks w)))
         \<and> view (svc (snd (create_task E b w))) = view (svc w)"
proof -
  have parts: "projects_inv E (view (svc w))" "digests_inv E (view (svc w))"
    using inv by (simp_all add: store_inv_def)
  show ?thesis
  proof (cases rule: create_task_lookup [OF w parts, of b])
    case (1 t)
    then show ?thesis using extendsD(1) [OF 1(3)] by auto
  next
    case (2 w2)
    show ?thesis
    proof (cases "ks_keys (view (svc w)) (task_key (uuid_at E (ticks w))) = None")
      case True
      then show ?thesis
        using 2(1) create_task_outcome [OF deployment_axioms w inv True, of b] by (simp add: Let_def)
    next
      case False
      then show ?thesis using 2(1) create_task_taken [OF w inv False 2(1)] by simp
    qed
  qed
qed

end

section \<open>Properties\<close>

text \<open>C20: what the API answers. On a consistent store, for every body and every id: \<open>POST /tasks\<close> is
  answered with 422 when the body does not validate, and with 500 when the check of \<open>config_json\<close>
  raises something else; a valid body is answered with 202 and a stored duplicate when there is one,
  else with 202 and the new task, which is stored then, or with 500, storing nothing, when the new id
  is taken. \<open>GET /tasks/{task_id}\<close> is answered with 404 exactly when nothing is stored under the key of
  the id, with 200 and the stored task for the id of a stored task, and with 500 for the only other
  thing under such a key, a digest entry; the stream of a task likewise, and it is empty exactly for a
  finished task and else has the configured keepalive interval. \<open>GET /health\<close> is answered with 200
  always.\<close>

theorem http_answers:
  assumes "deployment E view" "client_ready w" "store_inv E (view (svc w))"
    and "task_keys_wf (view (svc w))" "documented_framework F" "ids_no_objects E"
  shows "(\<exists>st ans w'. call E F ''POST'' [''tasks''] j w = (Inr (Some (st, ans)), w')
      \<and> (case parse_request E j of
           Inl e \<Rightarrow> st = (if \<exists>d. e = ValidationError d then 422 else 500) \<and> w' = w
         | Inr b \<Rightarrow>
             if \<exists>t. duplicate E (view (svc w)) b t
             then st = 202 \<and> view (svc w') = view (svc w)
               \<and> (\<exists>t. duplicate E (view (svc w)) b t \<and> ans = TaskAnswer (from_task t))
             else if ks_keys (view (svc w)) (task_key (uuid_at E (ticks w))) = None
             then st = 202 \<and> ans = TaskAnswer (from_task (created_task E (ticks w) b))
               \<and> holds E (view (svc w')) (uuid_at E (ticks w)) (created_task E (ticks w) b)
             else st = 500 \<and> view (svc w') = view (svc w)))
    \<and> (i \<noteq> [] \<longrightarrow>
        (\<exists>st ans. fst (call E F ''GET'' [''tasks'', i] j w) = Inr (Some (st, ans))
           \<and> (if ks_keys (view (svc w)) (task_key i) = None then st = 404
              else if hex32 i then st = 200
                \<and> (\<exists>t. holds E (view (svc w)) i t \<and> ans = TaskAnswer (from_task t))
              else st = 500 \<and> (\<exists>h. i = ''digest:'' @ h)))
      \<and> (\<exists>st ans. fst (call E F ''GET'' [''tasks'', i, ''stream''] j w) = Inr (Some (st, ans))
           \<and> (if ks_keys (view (svc w)) (task_key i) = None then st = 404
              else if hex32 i then st = 200
                \<and> (\<exists>t. holds E (view (svc w)) i t
                     \<and> ans = StreamAnswer (if is_terminal t then EmptyStream
                         else EventStream (sse_keepalive_interval (settings E))))
              else st = 500 \<and> (\<exists>h. i = ''digest:'' @ h))))
    \<and> fst (call E F ''GET'' [''health''] j w) = Inr (Some (200, HealthAnswer health))"
    (is "?post \<and> (i \<noteq> [] \<longrightarrow> ?get \<and> ?stream) \<and> ?health")
proof (intro conjI impI)
  note call = documented_framework.call_simps [OF assms(5)]
  show ?post
  proof (cases "parse_request E j")
    case (Inl e)
    then show ?thesis by (simp add: call(1) documented_framework.request_statuses [OF assms(5)])
  next
    case (Inr b)
    have "handler_status F (task_exists k) = 500" for k
      by (simp add: task_exists_def documented_framework.other_error [OF assms(5)])
    with deployment.create_task_all [OF assms(1-3), of b] Inr show ?thesis
      by (cases "\<exists>t. duplicate E (view (svc w)) b t";
          cases "ks_keys (view (svc w)) (task_key (uuid_at E (ticks w))) = None") (auto simp: call(1))
  qed
  show ?health by (rule call(4))
  assume ne: "i \<noteq> []"
  note answers = get_and_stream [OF assms(1,2), of i] call(2,3) [OF ne]
    documented_framework.http_error [OF assms(5)] not_found_def
  have "?get \<and> ?stream"
  proof (cases "ks_keys (view (svc w)) (task_key i) = None")
    case True
    then show ?thesis by (simp add: answers)
  next
    case False
    then show ?thesis
    proof (cases rule: deployment.stored_under [OF assms(1,3,4) False])
      case (1 t)
      with False show ?thesis by (auto simp: answers)
    next
      case (2 h k)
      have "\<And>m. loads E k \<noteq> Some (JObj m)"
        using assms(6) 2(3) unfolding ids_no_objects_def by blast
      from deployment.get_no_task [OF assms(1,2) 2(4) this] obtain d where
        "fst (get_task E i w) = Inl (ValidationError d)" "fst (stream_task E i w) = Inl (ValidationError d)"
        by blast
      then have "fst (call E F ''GET'' [''tasks'', i] j w) = Inr (Some (500, ErrorAnswer (ValidationError d)))"
        "fst (call E F ''GET'' [''tasks'', i, ''stream''] j w)
          = Inr (Some (500, ErrorAnswer (ValidationError d)))"
        by (simp_all add: call(2,3) [OF ne] documented_framework.other_error [OF assms(5)])
      moreover have "\<exists>h. i = ''digest:'' @ h" using 2(2) by (rule exI)
      ultimately show ?thesis unfolding if_not_P [OF False] if_not_P [OF 2(1)] by blast
    qed
  qed
  then show ?get ?stream by blast+
qed

theorem http_answers_witness:
  "(\<exists>w'. call mem_env plain_framework ''POST'' [''tasks''] (JObj []) saved_world = (Inr (Some (422, w')), saved_world))
    \<and> fst (call mem_env plain_framework ''GET'' [''tasks'', task_id no_task] JNull saved_world)
        = Inr (Some (200, TaskAnswer (from_task no_task)))
    \<and> (\<exists>ans. fst (call mem_env plain_framework ''GET'' [''tasks'', ''digest:'' @ digest_of mem_env ''demo'' ''build''] JNull
           saved_world) = Inr (Some (500, ans)))"
proof -
  note answers = http_answers [OF memory.deployment_axioms saved_world_facts(1) saved_world_inv
      saved_world_task_keys plain.documented_framework_axioms mem_ids_no_objects]
  have bad: "parse_request mem_env (JObj []) = Inl (ValidationError ''project_name'')"
    by (simp add: parse_request_def request_field_def)
  have id: "task_id no_task \<noteq> []" "ks_keys (mem_view (svc saved_world)) (task_key (task_id no_task)) \<noteq> None"
    using saved_world_holds no_task_simps(1) unfolding holds_def hex32_def by auto
  let ?d = "''digest:'' @ digest_of mem_env ''demo'' ''build''"
  have key: "task_key ?d = digest_key mem_env ''demo'' ''build''"
    by (simp add: task_key_def digest_key_def digest_entry_def)
  have d: "\<not> hex32 ?d" "ks_keys (mem_view (svc saved_world)) (task_key ?d) \<noteq> None"
    unfolding key by (auto simp: saved_world_keys dest: hex32_not_digest)
  have holds: "holds mem_env (mem_view (svc saved_world)) (task_id no_task) t \<Longrightarrow> t = no_task" for t
    by (rule saved_world_only) simp_all
  show ?thesis
    using answers [where j = "JObj []"] bad answers [where j = JNull and i = "task_id no_task"] id
      answers [where j = JNull and i = ?d] d holds
    by auto
qed

text \<open>an id that is not one is answered with 500. The digest keys are under the prefix of the
  records, so \<open>digest:\<close> and the digest of an unfinished task is read as a record: its text is the id of
  the task and no task, and the \<open>ValidationError\<close> leaves the handler.\<close>

theorem digest_as_id_fails:
  assumes "deployment E view" "client_ready w" "store_inv E (view (svc w))" "documented_framework F"
    and "ks_keys (view (svc w)) (digest_key E p r) = Some (RStr i)"
    and "\<forall>m. loads E i \<noteq> Some (JObj m)"
  shows "\<exists>d. fst (get_task E (''digest:'' @ digest_of E p r) w) = Inl (ValidationError d)
    \<and> fst (call E F ''GET'' [''tasks'', ''digest:'' @ digest_of E p r] j w)
        = Inr (Some (500, ErrorAnswer (ValidationError d)))"
proof -
  let ?i = "''digest:'' @ digest_of E p r"
  have key: "task_key ?i = digest_key E p r"
    by (simp add: task_key_def digest_key_def digest_entry_def)
  obtain d where d: "fst (get_task E ?i w) = Inl (ValidationError d)"
    using deployment.get_no_task [OF assms(1,2), of ?i i] assms(5,6) unfolding key by blast
  then show ?thesis
    by (intro exI [of _ d]) (simp add: documented_framework.call_simps(2) [OF assms(4)]
        documented_framework.other_error [OF assms(4)])
qed

theorem digest_as_id_fails_witness:
  "\<exists>d. fst (get_task mem_env (''digest:'' @ digest_of mem_env ''demo'' ''build'') saved_world)
     = Inl (ValidationError d)"
proof -
  have "ks_keys (mem_view (svc saved_world)) (digest_key mem_env ''demo'' ''build'')
      = Some (RStr (task_id no_task))"
    by (simp add: saved_world_keys)
  moreover have "case json_loads (hex_of 32 0) of Some (JObj m) \<Rightarrow> False | _ \<Rightarrow> True" by code_simp
  then have "\<forall>m. loads mem_env (task_id no_task) \<noteq> Some (JObj m)"
    by (auto simp: mem_env_def no_task_def)
  ultimately show ?thesis
    using digest_as_id_fails [OF memory.deployment_axioms saved_world_facts(1) saved_world_inv
      plain.documented_framework_axioms]
    by blast
qed

end
