(* ===== verification/Phase1_Models.thy ===== *)
theory Phase1_Models
  imports Api
begin

text \<open>
  The models of Phase 1 (\<open>src/models.py\<close>). The package \<open>src/models\<close> shadows this module; tasks that
  were written with it may still be in a store, and its clients still post its requests. Its
  enumerations are classes of their own with the values of those in theory \<open>Models\<close>, and its task has no
  \<open>work_dir\<close> and no \<open>config_json\<close>; here are its fields, methods and schemas, and their relation to the
  models in use.
\<close>

section \<open>Enumerations\<close>

datatype p1_task_mode = P1_NEW | P1_RESUME | P1_SECONDARY | P1_UNKNOWN

datatype p1_task_status = P1_PENDING | P1_RUNNING | P1_SUCCESS | P1_FAILED | P1_INTERRUPTED

fun p1_mode_value :: "p1_task_mode \<Rightarrow> string" where
  "p1_mode_value P1_NEW = ''new''"
| "p1_mode_value P1_RESUME = ''resume''"
| "p1_mode_value P1_SECONDARY = ''secondary''"
| "p1_mode_value P1_UNKNOWN = ''unknown''"

fun p1_status_value :: "p1_task_status \<Rightarrow> string" where
  "p1_status_value P1_PENDING = ''pending''"
| "p1_status_value P1_RUNNING = ''running''"
| "p1_status_value P1_SUCCESS = ''success''"
| "p1_status_value P1_FAILED = ''failed''"
| "p1_status_value P1_INTERRUPTED = ''interrupted''"

text \<open>The member with a value, as pydantic looks it up.\<close>

definition p1_as_mode :: "json \<Rightarrow> p1_task_mode option" where
  "p1_as_mode j =
     (case j of
        JStr v \<Rightarrow> find (\<lambda>m. p1_mode_value m = v) [P1_NEW, P1_RESUME, P1_SECONDARY, P1_UNKNOWN]
      | _ \<Rightarrow> None)"

definition p1_as_status :: "json \<Rightarrow> p1_task_status option" where
  "p1_as_status j =
     (case j of
        JStr v \<Rightarrow>
          find (\<lambda>s. p1_status_value s = v) [P1_PENDING, P1_RUNNING, P1_SUCCESS, P1_FAILED, P1_INTERRUPTED]
      | _ \<Rightarrow> None)"

text \<open>The members in use with the same values.\<close>

fun mode_in_use :: "p1_task_mode \<Rightarrow> task_mode" where
  "mode_in_use P1_NEW = NEW"
| "mode_in_use P1_RESUME = RESUME"
| "mode_in_use P1_SECONDARY = SECONDARY"
| "mode_in_use P1_UNKNOWN = UNKNOWN"

fun status_in_use :: "p1_task_status \<Rightarrow> task_status" where
  "status_in_use P1_PENDING = PENDING"
| "status_in_use P1_RUNNING = RUNNING"
| "status_in_use P1_SUCCESS = SUCCESS"
| "status_in_use P1_FAILED = FAILED"
| "status_in_use P1_INTERRUPTED = INTERRUPTED"

fun old_mode :: "task_mode \<Rightarrow> p1_task_mode" where
  "old_mode NEW = P1_NEW"
| "old_mode RESUME = P1_RESUME"
| "old_mode SECONDARY = P1_SECONDARY"
| "old_mode UNKNOWN = P1_UNKNOWN"

fun old_status :: "task_status \<Rightarrow> p1_task_status" where
  "old_status PENDING = P1_PENDING"
| "old_status RUNNING = P1_RUNNING"
| "old_status SUCCESS = P1_SUCCESS"
| "old_status FAILED = P1_FAILED"
| "old_status INTERRUPTED = P1_INTERRUPTED"

lemma same_values [simp]:
  "mode_value (mode_in_use m) = p1_mode_value m" "status_value (status_in_use s) = p1_status_value s"
  "p1_mode_value (old_mode m') = mode_value m'" "p1_status_value (old_status s') = status_value s'"
  "old_mode (mode_in_use m) = m" "old_status (status_in_use s) = s"
  by (cases m; cases s; cases m'; cases s'; simp)+

lemma old_values_read [simp]:
  "as_mode (JStr (p1_mode_value m)) = Some (mode_in_use m)"
  "as_status (JStr (p1_status_value s)) = Some (status_in_use s)"
  "p1_as_mode (JStr (mode_value m')) = Some (old_mode m')"
  "p1_as_status (JStr (status_value s')) = Some (old_status s')"
proof -
  show "as_mode (JStr (p1_mode_value m)) = Some (mode_in_use m)"
    using mode_of_value_value [of "mode_in_use m"] by (simp add: as_mode_def)
  show "as_status (JStr (p1_status_value s)) = Some (status_in_use s)"
    using status_of_value_value [of "status_in_use s"] by (simp add: as_status_def)
  show "p1_as_mode (JStr (mode_value m')) = Some (old_mode m')"
    by (cases m') (simp_all add: p1_as_mode_def)
  show "p1_as_status (JStr (status_value s')) = Some (old_status s')"
    by (cases s') (simp_all add: p1_as_status_def)
qed

section \<open>Tasks\<close>

record p1_task =
  p1_task_id :: string
  p1_project_name :: string
  p1_requirement :: string
  p1_mode :: p1_task_mode
  p1_status :: p1_task_status
  p1_created_at :: int
  p1_updated_at :: int
  p1_retry_count :: int
  p1_status_detail :: string

definition p1_new_task :: "'r env \<Rightarrow> string \<Rightarrow> string \<Rightarrow> ('r, p1_task) prog" where
  "p1_new_task E p r =
     py_bind (new_uuid E) (\<lambda>i.
     py_bind (now E) (\<lambda>c.
     py_bind (now E) (\<lambda>u.
     py_return \<lparr>p1_task_id = i, p1_project_name = p, p1_requirement = r, p1_mode = P1_UNKNOWN,
       p1_status = P1_PENDING, p1_created_at = c, p1_updated_at = u, p1_retry_count = 0,
       p1_status_detail = []\<rparr>)))"

text \<open>The methods as functions of the object's fields.\<close>

definition p1_touch :: "'r env \<Rightarrow> p1_task \<Rightarrow> ('r, p1_task) prog" where
  "p1_touch E t = py_bind (now E) (\<lambda>n. py_return (t\<lparr>p1_updated_at := n\<rparr>))"

definition p1_transition :: "'r env \<Rightarrow> p1_task \<Rightarrow> p1_task_status \<Rightarrow> string \<Rightarrow> ('r, p1_task) prog" where
  "p1_transition E t new_status detail =
     p1_touch E (t\<lparr>p1_status := new_status, p1_status_detail := detail\<rparr>)"

definition p1_is_terminal :: "p1_task \<Rightarrow> bool" where
  "p1_is_terminal t = (p1_status t = P1_SUCCESS \<or> p1_status t = P1_FAILED)"

definition p1_is_resumable :: "p1_task \<Rightarrow> bool" where
  "p1_is_resumable t = (p1_status t = P1_INTERRUPTED)"

definition p1_task_to_json :: "pydantic \<Rightarrow> p1_task \<Rightarrow> json" where
  "p1_task_to_json P t = JObj
     [(''task_id'', JStr (p1_task_id t)),
      (''project_name'', JStr (p1_project_name t)),
      (''requirement'', JStr (p1_requirement t)),
      (''mode'', JStr (p1_mode_value (p1_mode t))),
      (''status'', JStr (p1_status_value (p1_status t))),
      (''created_at'', of_datetime P (p1_created_at t)),
      (''updated_at'', of_datetime P (p1_updated_at t)),
      (''retry_count'', JInt (p1_retry_count t)),
      (''status_detail'', JStr (p1_status_detail t))]"

definition p1_task_of_json ::
  "pydantic \<Rightarrow> ('w, string) py \<Rightarrow> ('w, int) py \<Rightarrow> json \<Rightarrow> ('w, p1_task) py" where
  "p1_task_of_json P new_id nw j =
     (case j of
        JObj m \<Rightarrow>
          py_bind (model_field m ''task_id'' (as_str P) new_id) (\<lambda>i.
          py_bind (model_field m ''project_name'' (as_str P)
                     (py_raise (ValidationError ''project_name''))) (\<lambda>p.
          py_bind (model_field m ''requirement'' (as_str P) (py_return [])) (\<lambda>r.
          py_bind (model_field m ''mode'' p1_as_mode (py_return P1_UNKNOWN)) (\<lambda>md.
          py_bind (model_field m ''status'' p1_as_status (py_return P1_PENDING)) (\<lambda>st.
          py_bind (model_field m ''created_at'' (as_datetime P) nw) (\<lambda>c.
          py_bind (model_field m ''updated_at'' (as_datetime P) nw) (\<lambda>u.
          py_bind (model_field m ''retry_count'' (as_int P) (py_return 0)) (\<lambda>rc.
          py_bind (model_field m ''status_detail'' (as_str P) (py_return [])) (\<lambda>d.
          py_return
            \<lparr>p1_task_id = i, p1_project_name = p, p1_requirement = r, p1_mode = md, p1_status = st,
             p1_created_at = c, p1_updated_at = u, p1_retry_count = rc, p1_status_detail = d\<rparr>)))))))))
      | _ \<Rightarrow> py_raise (ValidationError ''Task''))"

section \<open>Requests and responses\<close>

record p1_request =
  p1_req_project_name :: string
  p1_req_requirement :: string

definition p1_parse_request :: "'r env \<Rightarrow> json \<Rightarrow> exn + p1_request" where
  "p1_parse_request E j =
     (case j of
        JObj m \<Rightarrow>
          (case filter (\<lambda>k. k \<notin> {''project_name'', ''requirement''}) (map fst m) of
             k # _ \<Rightarrow> Inl (ValidationError k)
           | [] \<Rightarrow>
          (case request_field m ''project_name'' (as_project_name (pyd E))
                  (Inl (ValidationError ''project_name'')) of
             Inl e \<Rightarrow> Inl e
           | Inr p \<Rightarrow>
          (case request_field m ''requirement'' (as_str (pyd E)) (Inr []) of
             Inl e \<Rightarrow> Inl e
           | Inr r \<Rightarrow> Inr \<lparr>p1_req_project_name = p, p1_req_requirement = r\<rparr>)))
      | _ \<Rightarrow> Inl (ValidationError ''body''))"

record p1_response =
  p1_resp_task_id :: string
  p1_resp_project_name :: string
  p1_resp_requirement :: string
  p1_resp_mode :: p1_task_mode
  p1_resp_status :: p1_task_status
  p1_resp_created_at :: int
  p1_resp_updated_at :: int
  p1_resp_retry_count :: int
  p1_resp_status_detail :: string

definition p1_from_task :: "p1_task \<Rightarrow> p1_response" where
  "p1_from_task t =
     \<lparr>p1_resp_task_id = p1_task_id t, p1_resp_project_name = p1_project_name t,
      p1_resp_requirement = p1_requirement t, p1_resp_mode = p1_mode t, p1_resp_status = p1_status t,
      p1_resp_created_at = p1_created_at t, p1_resp_updated_at = p1_updated_at t,
      p1_resp_retry_count = p1_retry_count t, p1_resp_status_detail = p1_status_detail t\<rparr>"

section \<open>Event payloads\<close>

text \<open>The constructor of \<open>SSEPayload\<close>, from its arguments as Python values: \<open>message\<close> has no default.\<close>

definition p1_sse_payload :: "pydantic \<Rightarrow> attr \<Rightarrow> attr \<Rightarrow> attr \<Rightarrow> exn + sse_payload" where
  "p1_sse_payload P message metadata timestamp =
     (case (if message = Missing then Inl (ValidationError ''message'')
            else validate_attr ''message'' (as_str P) message []) of
        Inl e \<Rightarrow> Inl e
      | Inr msg \<Rightarrow>
          (case validate_attr ''metadata'' (\<lambda>j. case j of JObj m \<Rightarrow> Some m | _ \<Rightarrow> None) metadata [] of
             Inl e \<Rightarrow> Inl e
           | Inr meta \<Rightarrow>
               (case validate_attr ''timestamp'' (as_str P) timestamp [] of
                  Inl e \<Rightarrow> Inl e
                | Inr ts \<Rightarrow> Inr \<lparr>pay_message = msg, pay_metadata = meta, pay_timestamp = ts\<rparr>)))"

text \<open>\<open>getattr(event, name, default)\<close>, and the \<open>or {}\<close> after it.\<close>

definition getattr_or :: "attr \<Rightarrow> json \<Rightarrow> attr" where
  "getattr_or a dflt = (if a = Missing then Attr dflt else a)"

definition or_empty_dict :: "attr \<Rightarrow> attr" where
  "or_empty_dict a = (case a of Attr j \<Rightarrow> (if truthy j then a else Attr (JObj [])) | _ \<Rightarrow> a)"

definition p1_from_cio_event :: "pydantic \<Rightarrow> cio_event \<Rightarrow> exn + sse_payload" where
  "p1_from_cio_event P ev =
     p1_sse_payload P (getattr_or (ev_message ev) (JStr []))
       (or_empty_dict (getattr_or (ev_metadata ev) (JObj [])))
       (getattr_or (ev_timestamp ev) (JStr []))"

section \<open>Between the phases\<close>

text \<open>The task in use that an old task stands for, and what an old reader sees of a task.\<close>

definition upgrade :: "p1_task \<Rightarrow> task" where
  "upgrade t =
     \<lparr>task_id = p1_task_id t, project_name = p1_project_name t, requirement = p1_requirement t,
      work_dir = [], config_json = [], mode = mode_in_use (p1_mode t), status = status_in_use (p1_status t),
      created_at = p1_created_at t, updated_at = p1_updated_at t, retry_count = p1_retry_count t,
      status_detail = p1_status_detail t\<rparr>"

definition downgrade :: "task \<Rightarrow> p1_task" where
  "downgrade t =
     \<lparr>p1_task_id = task_id t, p1_project_name = project_name t, p1_requirement = requirement t,
      p1_mode = old_mode (mode t), p1_status = old_status (status t), p1_created_at = created_at t,
      p1_updated_at = updated_at t, p1_retry_count = retry_count t, p1_status_detail = status_detail t\<rparr>"

lemma downgrade_upgrade [simp]: "downgrade (upgrade t) = t"
  by (simp add: downgrade_def upgrade_def)

context pydantic_scalars
begin

lemmas json_reads = model_field_def as_str_JStr as_int_JInt as_datetime_of

lemma read_old: "task_of_json P new_id nw (p1_task_to_json P t) = py_return (upgrade t)"
  by (simp add: task_of_json_def p1_task_to_json_def json_reads upgrade_def)

text \<open>The payload in use has a default for every field, and makes the same of every event.\<close>

lemma same_payload: "p1_from_cio_event P ev = from_cio_event P ev"
proof -
  have "truthy (JObj []) = False" by simp
  then show ?thesis
    by (cases "ev_message ev"; cases "ev_metadata ev"; cases "ev_timestamp ev")
      (auto simp: p1_from_cio_event_def p1_sse_payload_def from_cio_event_def getattr_or_def
        or_empty_dict_def validate_attr_def as_dict_def as_str_JStr split: option.split json.split)
qed

lemma read_new: "p1_task_of_json P new_id nw (task_to_json P t) = py_return (downgrade t)"
  by (simp add: p1_task_of_json_def task_to_json_def json_reads downgrade_def)

end

lemma upgrade_transition:
  "fst (p1_transition E t s d w) = Inr u \<Longrightarrow> heap w x = upgrade t \<Longrightarrow>
   heap (snd (transition E x (status_in_use s) d w)) x = upgrade u"
  by (auto simp: p1_transition_def p1_touch_def transition_def touch_def upgrade_def py_simps)

section \<open>Properties\<close>

text \<open>C40: the models in use refine those of Phase 1. A task written by the old model is read with its
  fields and an empty \<open>work_dir\<close> and \<open>config_json\<close>; a task written now is read by the old model without
  these two; a transition and the two tests give the same on both, and so does the payload of an event.\<close>

theorem phase1_compatible:
  assumes "deployment E view"
  shows "task_of_json (pyd E) new_id nw (p1_task_to_json (pyd E) t) v = (Inr (upgrade t), v)
    \<and> p1_task_of_json (pyd E) new_id nw (task_to_json (pyd E) u) v = (Inr (downgrade u), v)
    \<and> (\<exists>t'. fst (p1_transition E t s d (w\<lparr>heap := (heap w)(x := upgrade t)\<rparr>)) = Inr t'
         \<and> heap (snd (transition E x (status_in_use s) d (w\<lparr>heap := (heap w)(x := upgrade t)\<rparr>))) x = upgrade t')
    \<and> p1_is_terminal t = is_terminal (upgrade t) \<and> p1_is_resumable t = is_resumable (upgrade t)
    \<and> p1_from_cio_event (pyd E) ev = from_cio_event (pyd E) ev"
proof -
  have P: "pydantic_scalars (pyd E)" using assms by (simp add: deployment_def)
  obtain t' where t': "fst (p1_transition E t s d (w\<lparr>heap := (heap w)(x := upgrade t)\<rparr>)) = Inr t'"
    by (simp add: p1_transition_def p1_touch_def py_simps)
  from upgrade_transition [OF this, of x]
  have "heap (snd (transition E x (status_in_use s) d (w\<lparr>heap := (heap w)(x := upgrade t)\<rparr>))) x = upgrade t'" by simp
  moreover have "p1_is_terminal t = is_terminal (upgrade t)" "p1_is_resumable t = is_resumable (upgrade t)"
    by (simp_all add: p1_is_terminal_def is_terminal_def p1_is_resumable_def is_resumable_def upgrade_def;
        cases "p1_status t"; simp)+
  ultimately show ?thesis
    using t' by (simp add: pydantic_scalars.read_old [OF P] pydantic_scalars.read_new [OF P]
        pydantic_scalars.same_payload [OF P] py_return_def)
qed

theorem phase1_compatible_witness:
  "fst (p1_task_of_json strict_pydantic (\<lambda>w. (Inl (OtherError []), w)) (\<lambda>w. (Inl (OtherError []), w))
     (task_to_json strict_pydantic no_task) ()) = Inr (downgrade no_task)"
  using phase1_compatible [OF memory.deployment_axioms, where u = no_task and v = "()"
      and new_id = "\<lambda>w. (Inl (OtherError []), w)" and nw = "\<lambda>w. (Inl (OtherError []), w)"
      and t = "downgrade no_task" and w = start_world and x = 0 and s = P1_SUCCESS and d = "[]"]
  by simp

text \<open>The requests of Phase 1 are requests now: with neither new field.\<close>

lemma p1_request_accepted:
  assumes "p1_parse_request E (JObj m) = Inr body"
  shows "parse_request E (JObj m) =
    Inr \<lparr>req_project_name = p1_req_project_name body, req_requirement = p1_req_requirement body,
         req_work_dir = None, req_config_json = None\<rparr>"
proof -
  have keys: "set (map fst m) \<subseteq> {''project_name'', ''requirement''}"
    using assms by (auto simp: p1_parse_request_def filter_empty_conv split: list.splits)
  then have "map_of m ''work_dir'' = None" "map_of m ''config_json'' = None"
    by (auto simp: map_of_eq_None_iff)
  moreover from keys have "filter (\<lambda>k. k \<notin> set request_keys) (map fst m) = []"
    by (auto simp: filter_empty_conv request_keys_def)
  ultimately show ?thesis
    using assms
    by (auto simp: p1_parse_request_def parse_request_def request_field_def check_request_def
        py_strip_def Let_def split: list.splits sum.splits option.splits)
qed

end
