(* ===== verification/Inproc.thy ===== *)
theory Inproc
  imports Tasks
begin

text \<open>
  The in-process task store and queue of Phase 1 (\<open>src/task_queue.py\<close>): a dict from ids to task
  objects and a FIFO of task objects. They hold the objects themselves, so a later change of an
  object shows in what is stored and queued. \<open>asyncio.Queue\<close> is unbounded here, as by default. The
  store's \<open>asyncio.Lock\<close> changes nothing: none of its sections suspends.
\<close>

section \<open>The store\<close>

text \<open>\<open>TaskStore()\<close>: no tasks.\<close>

definition mem_store_init :: "('r, unit) prog" where
  "mem_store_init = py_put (\<lambda>w. w\<lparr>mem_tasks := []\<rparr>)"

definition mem_save :: "obj \<Rightarrow> ('r, unit) prog" where
  "mem_save x =
     py_bind (load x) (\<lambda>t.
     py_bind (py_get mem_tasks) (\<lambda>tasks.
       if map_of tasks (task_id t) \<noteq> None
       then py_raise (ValueError (''Task '' @ py_repr (task_id t) @ '' already exists''))
       else py_put (\<lambda>w. w\<lparr>mem_tasks := dict_set (mem_tasks w) (task_id t) x\<rparr>)))"

definition mem_update :: "obj \<Rightarrow> ('r, unit) prog" where
  "mem_update x =
     py_bind (load x) (\<lambda>t.
       py_put (\<lambda>w. w\<lparr>mem_tasks := dict_set (mem_tasks w) (task_id t) x\<rparr>))"

definition mem_get :: "string \<Rightarrow> ('r, obj option) prog" where
  "mem_get i = py_get (\<lambda>w. map_of (mem_tasks w) i)"

definition mem_list_by_project :: "string \<Rightarrow> ('r, obj list) prog" where
  "mem_list_by_project p =
     py_get (\<lambda>w. filter (\<lambda>x. project_name (heap w x) = p) (map snd (mem_tasks w)))"

definition mem_has_running_task :: "string \<Rightarrow> ('r, bool) prog" where
  "mem_has_running_task p =
     py_bind (mem_list_by_project p) (\<lambda>xs.
       py_get (\<lambda>w. \<exists>x \<in> set xs. status (heap w x) = RUNNING))"

definition mem_find_incomplete :: "string \<Rightarrow> ('r, obj option) prog" where
  "mem_find_incomplete p =
     py_bind (mem_list_by_project p) (\<lambda>xs.
       py_get (\<lambda>w. find (\<lambda>x. is_incomplete (heap w x)) xs))"

section \<open>The queue\<close>

text \<open>\<open>TaskQueue(store)\<close>: an empty queue without a bound.\<close>

definition mem_queue_init :: "('r, unit) prog" where
  "mem_queue_init = py_put (\<lambda>w. w\<lparr>mem_queue := []\<rparr>)"

definition mem_enqueue :: "obj \<Rightarrow> ('r, unit) prog" where
  "mem_enqueue x = py_put (\<lambda>w. w\<lparr>mem_queue := mem_queue w @ [x]\<rparr>)"

text \<open>An empty queue is still empty when the timeout has passed.\<close>

definition mem_dequeue :: "rat \<Rightarrow> ('r, obj option) prog" where
  "mem_dequeue timeout =
     py_bind (py_get mem_queue) (\<lambda>q.
       case q of
         [] \<Rightarrow> py_return None
       | x # xs \<Rightarrow> py_then (py_put (\<lambda>w. w\<lparr>mem_queue := xs\<rparr>)) (py_return (Some x)))"

definition mem_qsize :: "('r, nat) prog" where
  "mem_qsize = py_get (\<lambda>w. length (mem_queue w))"

lemmas mem_defs = mem_save_def mem_update_def mem_get_def mem_list_by_project_def
  mem_has_running_task_def mem_find_incomplete_def mem_enqueue_def mem_dequeue_def mem_qsize_def

section \<open>The invariant\<close>

text \<open>Every entry is under the id of its object, and ids are distinct.\<close>

definition mem_inv :: "'r world \<Rightarrow> bool" where
  "mem_inv w =
     (distinct (map fst (mem_tasks w)) \<and> (\<forall>(i, x) \<in> set (mem_tasks w). task_id (heap w x) = i))"

lemma mem_inv_dict_set:
  "mem_inv w \<Longrightarrow> mem_inv (w\<lparr>mem_tasks := dict_set (mem_tasks w) (task_id (heap w x)) x\<rparr>)"
proof -
  assume inv: "mem_inv w"
  have sub: "set (dict_set d k v) \<subseteq> insert (k, v) (set d)" for d :: "(string \<times> obj) list" and k v
    by (induction d k v rule: dict_set.induct) auto
  show ?thesis
    using inv by (auto simp: mem_inv_def distinct_dict_set dest!: subsetD [OF sub])
qed

lemma mem_list_by_project_run:
  "mem_list_by_project p w =
     (Inr (filter (\<lambda>x. project_name (heap w x) = p) (map snd (mem_tasks w))), w)"
  by (simp add: mem_list_by_project_def py_simps)

end
