(* ===== verification/Event_Loop.thy ===== *)
theory Event_Loop
  imports Store_Invariant Event_Bus
begin

text \<open>
  Threads and the event loop: \<open>asyncio.get_running_loop\<close>, \<open>asyncio.run_coroutine_threadsafe\<close> with
  \<open>Future.result(timeout=5)\<close>, and \<open>TaskStore.update\<close> of \<open>src/task_queue/store.py\<close>, the synchronous
  write built on them. A coroutine handed to the loop runs when the loop's thread next suspends
  (\<open>run_pending\<close>); a call that blocks the loop's own thread for its result can only time out.
\<close>

section \<open>Threads\<close>

datatype thread = LoopThread | ExecutorThread

text \<open>The loop runs in its own thread only; in a thread of the executor there is none.\<close>

definition get_running_loop :: "thread \<Rightarrow> ('r, unit) prog" where
  "get_running_loop th =
     (case th of
        LoopThread \<Rightarrow> py_return ()
      | ExecutorThread \<Rightarrow> py_raise (RuntimeError ''no running event loop''))"

fun run_coro :: "'r env \<Rightarrow> coro \<Rightarrow> ('r, unit) prog" where
  "run_coro E (AsyncUpdate x) = async_update E x"
| "run_coro E (PublishEvent i ev) = bus_publish E i ev"

text \<open>The loop runs what was handed to it; an exception of a coroutine stays in its future.\<close>

definition run_pending :: "'r env \<Rightarrow> ('r, unit) prog" where
  "run_pending E =
     py_bind (py_get pending) (\<lambda>cs.
     py_then (py_put (\<lambda>w. w\<lparr>pending := []\<rparr>))
       (py_for (\<lambda>c. py_try (run_coro E c) (\<lambda>_. py_return ())) cs))"

text \<open>
  \<open>asyncio.run_coroutine_threadsafe(c, loop).result(timeout=5)\<close>. From another thread the loop runs
  \<open>c\<close> and the call has its result. In the loop's thread the call itself keeps the loop from running
  \<open>c\<close>: after five seconds it raises \<open>TimeoutError\<close>, and \<open>c\<close> is still scheduled.
\<close>

definition run_threadsafe :: "'r env \<Rightarrow> thread \<Rightarrow> coro \<Rightarrow> ('r, unit) prog" where
  "run_threadsafe E th c =
     (case th of
        LoopThread \<Rightarrow>
          py_then (py_put (\<lambda>w. w\<lparr>pending := pending w @ [c]\<rparr>)) (py_raise TimeoutError)
      | ExecutorThread \<Rightarrow> py_then (run_pending E) (run_coro E c))"

section \<open>\<open>TaskStore.update\<close>\<close>

definition store_update :: "'r env \<Rightarrow> thread \<Rightarrow> obj \<Rightarrow> ('r, unit) prog" where
  "store_update E th x = py_then (get_running_loop th) (run_threadsafe E th (AsyncUpdate x))"

lemma store_update_run:
  "store_update E LoopThread x w = (Inl TimeoutError, w\<lparr>pending := pending w @ [AsyncUpdate x]\<rparr>)"
  "store_update E ExecutorThread x w = (Inl (RuntimeError ''no running event loop''), w)"
  by (simp_all add: store_update_def get_running_loop_def run_threadsafe_def py_simps)

text \<open>What the loop's turn leaves of the objects.\<close>

lemma redis_only_try [redis_only_intros]:
  "redis_only m \<Longrightarrow> (\<And>e. redis_only (h e)) \<Longrightarrow> redis_only (py_try m h)"
proof -
  assume m: "redis_only m" and h: "\<And>e. redis_only (h e)"
  have "\<exists>r. snd (py_try m h w) = w\<lparr>svc := r\<rparr>" for w
  proof -
    obtain r where r: "snd (m w) = w\<lparr>svc := r\<rparr>" using m by (auto simp: redis_only_def)
    show ?thesis
    proof (cases "fst (m w)")
      case (Inl e)
      obtain r' where "snd (h e (snd (m w))) = (snd (m w))\<lparr>svc := r'\<rparr>"
        using h by (auto simp: redis_only_def)
      with Inl r show ?thesis by (auto simp: py_try_def)
    next
      case (Inr x)
      with r show ?thesis by (auto simp: py_try_def)
    qed
  qed
  then show ?thesis by (simp add: redis_only_def)
qed

lemma redis_only_for [redis_only_intros]:
  "(\<And>x. redis_only (f x)) \<Longrightarrow> redis_only (py_for f xs)"
  by (induction xs) (simp_all add: redis_only_intros)

lemma redis_only_run_coro [redis_only_intros]: "redis_only (run_coro E c)"
  by (cases c) (simp_all add: redis_only_intros)

text \<open>When the loop gets its turn every scheduled coroutine has run.\<close>

lemma run_pending_frame:
  "pending (snd (run_pending E w)) = []" "heap (snd (run_pending E w)) = heap w"
  "next_obj (snd (run_pending E w)) = next_obj w"
  "client_ready (snd (run_pending E w)) = client_ready w"
  "mem_tasks (snd (run_pending E w)) = mem_tasks w" "mem_queue (snd (run_pending E w)) = mem_queue w"
  "ticks (snd (run_pending E w)) = ticks w"
  "engine_cache (snd (run_pending E w)) = engine_cache w"
proof -
  let ?f = "py_for (\<lambda>c. py_try (run_coro E c) (\<lambda>_. py_return ())) (pending w)"
  have "redis_only ?f" by (intro redis_only_intros)
  note f = redis_only_frame [OF this]
  have "snd (run_pending E w) = snd (?f (w\<lparr>pending := []\<rparr>))"
    by (simp add: run_pending_def py_simps)
  then show "pending (snd (run_pending E w)) = []" "heap (snd (run_pending E w)) = heap w"
    "next_obj (snd (run_pending E w)) = next_obj w"
    "client_ready (snd (run_pending E w)) = client_ready w"
    "mem_tasks (snd (run_pending E w)) = mem_tasks w" "mem_queue (snd (run_pending E w)) = mem_queue w"
    "ticks (snd (run_pending E w)) = ticks w"
    "engine_cache (snd (run_pending E w)) = engine_cache w"
    by (simp_all add: f)
qed

lemma run_pending_returns: "fst (run_pending E w) = Inr ()"
proof -
  have "fst (py_for (\<lambda>c. py_try (run_coro E c) (\<lambda>_. py_return ())) cs u) = Inr ()" for cs u
    by (induction cs arbitrary: u) (simp_all add: py_simps split: sum.split)
  then show ?thesis by (simp add: run_pending_def py_simps)
qed

context deployment
begin

text \<open>One scheduled update: the loop writes the task as it is by then.\<close>

lemma run_pending_update:
  assumes "client_ready w" "pending w = [AsyncUpdate x]"
  shows "view (svc (snd (run_pending E w))) = updated E (heap w x) (view (svc w))"
  using assms async_update_run [of "w\<lparr>pending := []\<rparr>" x]
  by (simp add: run_pending_def py_simps split: sum.split)

end

section \<open>What a block keeps\<close>

text \<open>A property of the state that a block keeps whether it returns or raises.\<close>

definition keeps :: "('w \<Rightarrow> bool) \<Rightarrow> ('w, 'a) py \<Rightarrow> bool" where
  "keeps P m = (\<forall>w. P w \<longrightarrow> P (snd (m w)))"

named_theorems keeps_intros \<open>blocks keep what their parts keep\<close>

lemma keepsD: "keeps P m \<Longrightarrow> P w \<Longrightarrow> P (snd (m w))"
  by (simp add: keeps_def)

lemma keeps_basic [keeps_intros]:
  "keeps P (py_return y)" "keeps P (py_raise e)" "keeps P (py_get g)" "keeps P (py_of_sum r)"
  by (simp_all add: keeps_def py_simps)

lemma keeps_reads [keeps_intros]: "keeps P (load x)" "keeps P get_redis"
  by (simp_all add: keeps_def py_simps)

lemma keeps_bind [keeps_intros]:
  "keeps P m \<Longrightarrow> (\<And>x. keeps P (f x)) \<Longrightarrow> keeps P (py_bind m f)"
  by (auto simp: keeps_def py_bind_def split: sum.split)

lemma keeps_then [keeps_intros]: "keeps P m \<Longrightarrow> keeps P k \<Longrightarrow> keeps P (py_then m k)"
  by (simp add: py_then_def keeps_bind)

lemma keeps_try [keeps_intros]:
  "keeps P m \<Longrightarrow> (\<And>e. keeps P (h e)) \<Longrightarrow> keeps P (py_try m h)"
  by (auto simp: keeps_def py_try_def split: sum.split)

lemma keeps_finally [keeps_intros]: "keeps P m \<Longrightarrow> keeps P f \<Longrightarrow> keeps P (py_finally m f)"
  by (auto simp: keeps_def py_finally_def split: sum.split)

lemma keeps_for [keeps_intros]: "(\<And>x. keeps P (f x)) \<Longrightarrow> keeps P (py_for f xs)"
  by (induction xs) (auto intro: keeps_intros)

lemma keeps_if [keeps_intros]:
  "(b \<Longrightarrow> keeps P m) \<Longrightarrow> (\<not> b \<Longrightarrow> keeps P k) \<Longrightarrow> keeps P (if b then m else k)"
  by simp

lemma keeps_option [keeps_intros]:
  "keeps P m \<Longrightarrow> (\<And>x. keeps P (f x)) \<Longrightarrow> keeps P (case y of None \<Rightarrow> m | Some x \<Rightarrow> f x)"
  by (simp split: option.split)

lemma keeps_prod [keeps_intros]:
  "(\<And>a b. keeps P (f a b)) \<Longrightarrow> keeps P (case y of (a, b) \<Rightarrow> f a b)"
  by (simp split: prod.split)

text \<open>A property of the objects is kept by a block that touches nothing but the server.\<close>

definition on_heap :: "((obj \<Rightarrow> task) \<Rightarrow> bool) \<Rightarrow> 'r world \<Rightarrow> bool" where
  "on_heap Q w = Q (heap w)"

lemma keeps_heap_redis_only: "redis_only m \<Longrightarrow> keeps (on_heap Q) m"
  by (simp add: keeps_def on_heap_def redis_only_frame)

lemma keeps_heap_basic [keeps_intros]:
  "keeps (on_heap Q) (new_uuid E)" "keeps (on_heap Q) (now E)" "keeps (on_heap Q) (run_pending E)"
  by (simp_all add: keeps_def on_heap_def py_simps run_pending_frame)

lemma keeps_heap_bus [keeps_intros]:
  "keeps (on_heap Q) (bus_close E i)" "keeps (on_heap Q) (bus_publish E i ev)"
  by (rule keeps_heap_redis_only, rule redis_only_bus)+

lemma keeps_heap_assign:
  "(\<And>h. Q h \<Longrightarrow> Q (h(x := f (h x)))) \<Longrightarrow> keeps (on_heap Q) (assign x f)"
  by (simp add: keeps_def on_heap_def py_simps)

lemma store_update_heap: "heap (snd (store_update E th x w)) = heap w"
  by (cases th) (simp_all add: store_update_run)

section \<open>Properties\<close>

text \<open>the synchronous update never returns. In the loop's thread, where the worker calls it, it
  raises \<open>TimeoutError\<close> and has written nothing; the write is still scheduled, and when the loop runs
  it, it stores the task as it is by then, whatever was assigned to it in between. In any other thread
  it raises \<open>RuntimeError\<close> and schedules nothing.\<close>

theorem update_never_returns:
  assumes "deployment E view" "client_ready w" "pending w = []"
  shows "fst (store_update E LoopThread x w) = Inl TimeoutError
    \<and> svc (snd (store_update E LoopThread x w)) = svc w
    \<and> view (svc (snd (run_pending E (snd (assign x f (snd (store_update E LoopThread x w)))))))
        = updated E (f (heap w x)) (view (svc w))
    \<and> (\<exists>msg. store_update E ExecutorThread x w = (Inl (RuntimeError msg), w))"
  using assms(2,3) deployment.run_pending_update [OF assms(1),
      of "snd (assign x f (snd (store_update E LoopThread x w)))" x]
  by (simp add: store_update_run py_simps)

theorem update_never_returns_witness:
  "fst (store_update mem_env LoopThread 0 start_world) = Inl TimeoutError"
  using update_never_returns [OF memory.deployment_axioms start_world_simps(1,3), of 0] by blast

end
