(* ===== verification/Phases.thy ===== *)
theory Phases
  imports Inproc Event_Loop
begin

text \<open>
  The promise of \<open>src/task_queue.py\<close> that Redis replaces the in-process store behind the same
  interface: stores and queues of both phases are kept side by side in one state, every operation they
  have in common is run on both, and the answers are compared. All of them agree but \<open>update\<close>, which
  returns in process and raises \<open>TimeoutError\<close> on Redis. \<open>find_by_digest\<close> is new with Redis.
\<close>

section \<open>Agreement\<close>

lemma find_SomeD: "find P xs = Some y \<Longrightarrow> y \<in> set xs \<and> P y"
  by (induction xs) (auto split: if_splits)

text \<open>Both stores know the same ids and hold equal tasks under them.\<close>

definition stores_agree :: "'r env \<Rightarrow> ('r \<Rightarrow> keyspace) \<Rightarrow> 'r world \<Rightarrow> bool" where
  "stores_agree E view w =
     (\<forall>i. hex32 i \<longrightarrow>
        (case map_of (mem_tasks w) i of
           None \<Rightarrow> ks_keys (view (svc w)) (task_key i) = None
         | Some x \<Rightarrow> holds E (view (svc w)) i (heap w x)))"

lemma stores_agreeD:
  assumes "stores_agree E view w" "hex32 i"
  shows "map_of (mem_tasks w) i = None \<longleftrightarrow> ks_keys (view (svc w)) (task_key i) = None"
    and "map_of (mem_tasks w) i = Some x \<Longrightarrow> holds E (view (svc w)) i (heap w x)"
  using assms by (auto simp: stores_agree_def holds_def split: option.splits)

lemma stores_agree_put:
  assumes "stores_agree E view w" "hex32 (task_id (heap w x))"
    and "\<And>i. hex32 i \<Longrightarrow> ks_keys (view (svc w')) (task_key i) =
      (if i = task_id (heap w x) then Some (RStr (enc E (heap w x)))
       else ks_keys (view (svc w)) (task_key i))"
    and "heap w' = heap w"
    and "mem_tasks w' = dict_set (mem_tasks w) (task_id (heap w x)) x"
  shows "stores_agree E view w'"
  using assms by (auto simp: stores_agree_def holds_def split: option.splits)

text \<open>Stores and queues agree: besides, the in-process ones are well formed, and the Redis list has the
  text of every queued object, the next one last. Objects are allocated before they are stored or
  queued.\<close>

definition phases_agree :: "'r env \<Rightarrow> ('r \<Rightarrow> keyspace) \<Rightarrow> 'r world \<Rightarrow> bool" where
  "phases_agree E view w =
     (stores_agree E view w \<and> mem_inv w
      \<and> (\<forall>(i, x) \<in> set (mem_tasks w). hex32 i \<and> x < next_obj w)
      \<and> (\<forall>x \<in> set (mem_queue w). x < next_obj w)
      \<and> queue_of (view (svc w)) = rev (map (\<lambda>x. enc E (heap w x)) (mem_queue w)))"

lemma phases_agreeD:
  assumes "phases_agree E view w"
  shows "stores_agree E view w" "mem_inv w" "(i, x) \<in> set (mem_tasks w) \<Longrightarrow> hex32 i \<and> x < next_obj w"
    "y \<in> set (mem_queue w) \<Longrightarrow> y < next_obj w"
    "queue_of (view (svc w)) = rev (map (\<lambda>x. enc E (heap w x)) (mem_queue w))"
  using assms by (auto simp: phases_agree_def)

text \<open>New objects do not matter.\<close>

lemma phases_agree_grow:
  assumes ag: "phases_agree E view w"
    and keys: "\<And>i. ks_keys (view (svc w')) (task_key i) = ks_keys (view (svc w)) (task_key i)"
    and heap: "\<forall>x < next_obj w. heap w' x = heap w x" and grow: "next_obj w \<le> next_obj w'"
    and mem: "mem_tasks w' = mem_tasks w" "set (mem_queue w') \<subseteq> set (mem_queue w)"
    and queue: "queue_of (view (svc w')) = rev (map (\<lambda>x. enc E (heap w x)) (mem_queue w'))"
  shows "phases_agree E view w'"
proof -
  note D = phases_agreeD [OF ag]
  have same: "heap w' x = heap w x" if "(i, x) \<in> set (mem_tasks w)" for i x
    using D(3) [OF that] heap by blast
  have q: "x < next_obj w" if "x \<in> set (mem_queue w')" for x
    using D(4) mem(2) that by blast
  have "stores_agree E view w'"
    using D(1) same map_of_SomeD
    unfolding stores_agree_def holds_def mem(1) keys by (fastforce split: option.splits)
  moreover have "mem_inv w'"
    using D(2) same unfolding mem_inv_def mem(1) by fastforce
  moreover have "map (\<lambda>x. enc E (heap w' x)) (mem_queue w') = map (\<lambda>x. enc E (heap w x)) (mem_queue w')"
    using q heap by simp
  moreover have "\<forall>(i, x) \<in> set (mem_tasks w'). hex32 i \<and> x < next_obj w'"
    using D(3) grow unfolding mem(1) by fastforce
  moreover have "\<forall>x \<in> set (mem_queue w'). x < next_obj w'"
    using q grow by fastforce
  ultimately show ?thesis using queue unfolding phases_agree_def by simp
qed

lemma phases_agree_extends:
  "phases_agree E view w \<Longrightarrow> extends view w w' \<Longrightarrow> phases_agree E view w'"
  by (rule phases_agree_grow) (auto simp: extends_def phases_agree_def)

text \<open>A task stored in both.\<close>

lemma phases_agree_put:
  assumes ag: "phases_agree E view w" and st: "stores_agree E view w'"
    and x: "x < next_obj w" "hex32 (task_id (heap w x))"
    and eq: "heap w' = heap w" "next_obj w' = next_obj w" "mem_queue w' = mem_queue w"
      "queue_of (view (svc w')) = queue_of (view (svc w))"
    and mem: "mem_tasks w' = dict_set (mem_tasks w) (task_id (heap w x)) x"
  shows "phases_agree E view w'"
proof -
  note D = phases_agreeD [OF ag]
  have "mem_inv (w\<lparr>mem_tasks := dict_set (mem_tasks w) (task_id (heap w x)) x\<rparr>)"
    by (rule mem_inv_dict_set [OF D(2)])
  then have inv: "mem_inv w'" by (simp add: mem_inv_def eq mem)
  have "set (dict_set d k v) \<subseteq> insert (k, v) (set d)" for d :: "(string \<times> obj) list" and k v
    by (induction d k v rule: dict_set.induct) auto
  then have "set (mem_tasks w') \<subseteq> insert (task_id (heap w x), x) (set (mem_tasks w))"
    unfolding mem .
  then have "\<forall>(i, y) \<in> set (mem_tasks w'). hex32 i \<and> y < next_obj w'"
    using D(3) x by (auto simp: eq)
  with D(4,5) st inv show ?thesis by (simp add: phases_agree_def eq)
qed

context deployment
begin

lemma save_agrees:
  assumes w: "client_ready w" and inv: "projects_inv E (view (svc w))"
    and ag: "stores_agree E view w" and hex: "hex32 (task_id (heap w x))"
  shows "fst (mem_save x w) = fst (store_save E x w)
    \<and> stores_agree E view (snd (mem_save x (snd (store_save E x w))))"
proof (cases "map_of (mem_tasks w) (task_id (heap w x))")
  case None
  with stores_agreeD(1) [OF ag hex]
  have new: "ks_keys (view (svc w)) (task_key (task_id (heap w x))) = None" by simp
  note run = store_save_run(1) [OF w inv new]
  obtain xs where "ks_keys (saved E (heap w x) (view (svc w))) =
        (if requirement (heap w x) \<noteq> []
         then (ks_keys (view (svc w)))(task_key (task_id (heap w x)) \<mapsto> RStr (enc E (heap w x)),
                project_tasks_key (project_name (heap w x)) \<mapsto> RSet xs,
                digest_key E (project_name (heap w x)) (requirement (heap w x)) \<mapsto> RStr (task_id (heap w x)))
         else (ks_keys (view (svc w)))(task_key (task_id (heap w x)) \<mapsto> RStr (enc E (heap w x)),
                project_tasks_key (project_name (heap w x)) \<mapsto> RSet xs))"
    using saved_keys [OF inv, of "heap w x"] by blast
  then have "stores_agree E view (snd (mem_save x (snd (store_save E x w))))"
    using run None hex
    by (intro stores_agree_put [OF ag hex]) (simp_all add: mem_save_def py_simps)
  with None run show ?thesis by (simp add: mem_save_def py_simps)
next
  case (Some y)
  with stores_agreeD(1) [OF ag hex]
  have old: "ks_keys (view (svc w)) (task_key (task_id (heap w x))) \<noteq> None" by auto
  note run = store_save_run(2) [OF w inv old]
  have "stores_agree E view (snd (store_save E x w))"
    using ag run by (auto simp: stores_agree_def split: option.splits)
  with Some run show ?thesis by (simp add: mem_save_def py_simps task_exists_def)
qed

lemma update_agrees:
  assumes w: "client_ready w" and ag: "stores_agree E view w" and hex: "hex32 (task_id (heap w x))"
  shows "fst (mem_update x w) = fst (async_update E x w)
    \<and> stores_agree E view (snd (mem_update x (snd (async_update E x w))))"
proof
  show "fst (mem_update x w) = fst (async_update E x w)"
    by (simp add: async_update_run(1) [OF w] mem_update_def py_simps)
  show "stores_agree E view (snd (mem_update x (snd (async_update E x w))))"
    using hex by (intro stores_agree_put [OF ag hex])
      (simp_all add: mem_update_def py_simps async_update_run(2) [OF w] updated_keys)
qed

lemma get_agrees:
  assumes w: "client_ready w" and ag: "stores_agree E view w" and hex: "hex32 i"
  shows "case fst (mem_get i w) of
      Inr None \<Rightarrow> fst (store_get E i w) = Inr None
    | Inr (Some x) \<Rightarrow> \<exists>y. fst (store_get E i w) = Inr (Some y) \<and> heap (snd (store_get E i w)) y = heap w x
    | Inl _ \<Rightarrow> False"
  using store_get_run [OF w, of i] stores_agreeD [OF ag hex]
  by (auto simp: mem_get_def py_simps split: option.split)

lemma save_phases:
  assumes w: "client_ready w" and inv: "projects_inv E (view (svc w))"
    and ag: "phases_agree E view w" and x: "x < next_obj w" "hex32 (task_id (heap w x))"
  shows "phases_agree E view (snd (mem_save x (snd (store_save E x w))))"
proof -
  note D = phases_agreeD [OF ag]
  let ?w = "snd (mem_save x (snd (store_save E x w)))"
  have st: "stores_agree E view ?w" using save_agrees [OF w inv D(1) x(2)] by blast
  show ?thesis
  proof (cases "map_of (mem_tasks w) (task_id (heap w x))")
    case None
    with stores_agreeD(1) [OF D(1) x(2)] store_save_run(1) [OF w inv, of x]
    have v: "view (svc (snd (store_save E x w))) = saved E (heap w x) (view (svc w))" by simp
    obtain xs where "ks_keys (saved E (heap w x) (view (svc w))) =
        (if requirement (heap w x) \<noteq> []
         then (ks_keys (view (svc w)))(task_key (task_id (heap w x)) \<mapsto> RStr (enc E (heap w x)),
                project_tasks_key (project_name (heap w x)) \<mapsto> RSet xs,
                digest_key E (project_name (heap w x)) (requirement (heap w x)) \<mapsto> RStr (task_id (heap w x)))
         else (ks_keys (view (svc w)))(task_key (task_id (heap w x)) \<mapsto> RStr (enc E (heap w x)),
                project_tasks_key (project_name (heap w x)) \<mapsto> RSet xs))"
      using saved_keys [OF inv, of "heap w x"] by blast
    then have "queue_of (saved E (heap w x) (view (svc w))) = queue_of (view (svc w))"
      by (simp add: queue_of_def)
    with None v show ?thesis
      by (intro phases_agree_put [OF ag st x]) (simp_all add: mem_save_def py_simps)
  next
    case (Some y)
    with stores_agreeD(1) [OF D(1) x(2)] store_save_run(2) [OF w inv, of x]
    have "view (svc (snd (store_save E x w))) = view (svc w)" by auto
    with Some show ?thesis
      by (intro phases_agree_extends [OF ag]) (simp add: extends_def mem_save_def py_simps)
  qed
qed

text \<open>Any way of writing the record keeps the agreement.\<close>

lemma written_phases:
  assumes ag: "phases_agree E view w" and x: "x < next_obj w" "hex32 (task_id (heap w x))"
    and v: "view (svc v) = updated E (heap w x) (view (svc w))"
    and eq: "heap v = heap w" "next_obj v = next_obj w" "mem_queue v = mem_queue w" "mem_tasks v = mem_tasks w"
  shows "phases_agree E view (snd (mem_update x v))"
proof -
  let ?w = "snd (mem_update x v)"
  have w': "heap ?w = heap w" "next_obj ?w = next_obj w" "mem_queue ?w = mem_queue w"
    "mem_tasks ?w = dict_set (mem_tasks w) (task_id (heap w x)) x"
    "view (svc ?w) = updated E (heap w x) (view (svc w))"
    using v eq by (simp_all add: mem_update_def py_simps)
  have "stores_agree E view ?w"
    using x(2) w' by (intro stores_agree_put [OF phases_agreeD(1) [OF ag]]) (simp_all add: updated_keys)
  then show ?thesis
    using w' by (intro phases_agree_put [OF ag _ x]) (simp_all add: queue_of_def updated_keys)
qed

lemma update_phases:
  assumes w: "client_ready w" and ag: "phases_agree E view w"
    and x: "x < next_obj w" "hex32 (task_id (heap w x))"
  shows "phases_agree E view (snd (mem_update x (snd (async_update E x w))))"
    and "pending w = [] \<Longrightarrow>
      phases_agree E view (snd (mem_update x (snd (run_pending E (snd (store_update E LoopThread x w))))))"
proof -
  show "phases_agree E view (snd (mem_update x (snd (async_update E x w))))"
    using async_update_run(2) [OF w, of x] by (intro written_phases [OF ag x]) simp_all
  assume "pending w = []"
  with run_pending_update [of "w\<lparr>pending := [AsyncUpdate x]\<rparr>" x] w
  show "phases_agree E view (snd (mem_update x (snd (run_pending E (snd (store_update E LoopThread x w))))))"
    by (intro written_phases [OF ag x]) (simp_all add: store_update_run run_pending_frame)
qed

text \<open>The tasks of a project.\<close>

lemma project_agrees:
  assumes inv: "store_inv E (view (svc w))" and ag: "phases_agree E view w"
  shows "heap w ` set (filter (\<lambda>x. project_name (heap w x) = p) (map snd (mem_tasks w)))
    = {t. \<exists>i \<in> members (view (svc w)) p. holds E (view (svc w)) i t}"
proof -
  note D = phases_agreeD [OF ag]
  have sub: "\<exists>i \<in> members (view (svc w)) p. holds E (view (svc w)) i (heap w x)"
    if x: "(i, x) \<in> set (mem_tasks w)" "project_name (heap w x) = p" for i x
  proof -
    have "map_of (mem_tasks w) i = Some x" using D(2) x(1) by (simp add: mem_inv_def)
    with stores_agreeD(2) [OF D(1)] D(3) [OF x(1)] have h: "hex32 i" "holds E (view (svc w)) i (heap w x)"
      by blast+
    from inv h obtain t where t: "holds E (view (svc w)) i t" "i \<in> members (view (svc w)) (project_name t)"
      by (auto simp: store_inv_def records_inv_def holds_def)
    with h(2) have "t = heap w x" by (simp add: holds_def)
    with t x(2) show ?thesis by blast
  qed
  have sup: "\<exists>x. (i, x) \<in> set (mem_tasks w) \<and> heap w x = t \<and> project_name t = p"
    if t: "i \<in> members (view (svc w)) p" "holds E (view (svc w)) i t" for i t
  proof -
    from projects_invD [OF inv t(1)] t(2) have i: "hex32 i" "project_name t = p"
      by (auto simp: holds_def)
    with stores_agreeD(1) [OF D(1)] t(2) obtain x where x: "map_of (mem_tasks w) i = Some x"
      by (fastforce simp: holds_def)
    with stores_agreeD(2) [OF D(1) i(1)] t(2) have "heap w x = t" by (auto simp: holds_def)
    with x i(2) show ?thesis by (blast dest: map_of_SomeD)
  qed
  show ?thesis
  proof (intro subset_antisym subsetI)
    fix t assume "t \<in> heap w ` set (filter (\<lambda>x. project_name (heap w x) = p) (map snd (mem_tasks w)))"
    then obtain i x where "(i, x) \<in> set (mem_tasks w)" "project_name (heap w x) = p" "t = heap w x"
      by auto
    with sub show "t \<in> {t. \<exists>i \<in> members (view (svc w)) p. holds E (view (svc w)) i t}" by blast
  next
    fix t assume "t \<in> {t. \<exists>i \<in> members (view (svc w)) p. holds E (view (svc w)) i t}"
    with sup obtain i x where "(i, x) \<in> set (mem_tasks w)" "heap w x = t" "project_name t = p" by blast
    then show "t \<in> heap w ` set (filter (\<lambda>x. project_name (heap w x) = p) (map snd (mem_tasks w)))"
      by force
  qed
qed

lemma lists_agree:
  assumes w: "client_ready w" and inv: "store_inv E (view (svc w))" and ag: "phases_agree E view w"
  obtains xs ys where "mem_list_by_project p w = (Inr xs, w)" "fst (list_by_project E p w) = Inr ys"
    "heap (snd (list_by_project E p w)) ` set ys = heap w ` set xs"
    "extends view w (snd (list_by_project E p w))"
  using list_by_project_run [OF w inv, of p] project_agrees [OF inv ag, of p]
    mem_list_by_project_run [of p w]
  by metis

lemma queue_agrees:
  assumes w: "client_ready w" and inv: "store_inv E (view (svc w))" and ag: "phases_agree E view w"
    and x: "x < next_obj w"
  shows "fst (mem_enqueue x w) = Inr ()" "fst (enqueue E x w) = Inr ()"
    and "phases_agree E view (snd (mem_enqueue x (snd (enqueue E x w))))"
proof -
  note D = phases_agreeD [OF ag]
  have q: "queue_inv E (view (svc w))" using inv by (simp add: store_inv_def)
  note run = enqueue_run [OF w q, of x]
  show "fst (mem_enqueue x w) = Inr ()" "fst (enqueue E x w) = Inr ()"
    using run by (simp_all add: mem_enqueue_def py_simps)
  let ?w = "snd (mem_enqueue x (snd (enqueue E x w)))"
  have "view (svc ?w) = queued E (heap w x) (view (svc w))" "mem_queue ?w = mem_queue w @ [x]"
    "mem_tasks ?w = mem_tasks w" "heap ?w = heap w" "next_obj ?w = next_obj w"
    using run by (simp_all add: mem_enqueue_def py_simps)
  with D x show "phases_agree E view ?w"
    by (auto simp: phases_agree_def stores_agree_def holds_def mem_inv_def queued_keys queue_of_def
        split: option.splits)
qed

lemma qsize_agrees:
  assumes w: "client_ready w" and inv: "store_inv E (view (svc w))" and ag: "phases_agree E view w"
  shows "fst (mem_qsize w) = fst (qsize E w)"
proof -
  have "queue_inv E (view (svc w))" using inv by (simp add: store_inv_def)
  with qsize_run [OF w] phases_agreeD(5) [OF ag] show ?thesis by (simp add: mem_qsize_def py_simps)
qed

lemma dequeue_frame:
  assumes "client_ready w" "queue_inv E (view (svc w))"
  shows "queue_of (view (svc w)) = [] \<Longrightarrow> mem_tasks (snd (dequeue E timeout w)) = mem_tasks w
      \<and> mem_queue (snd (dequeue E timeout w)) = mem_queue w
      \<and> next_obj (snd (dequeue E timeout w)) = next_obj w"
    and "queue_of (view (svc w)) = q @ [enc E t] \<Longrightarrow> mem_tasks (snd (dequeue E timeout w)) = mem_tasks w
      \<and> mem_queue (snd (dequeue E timeout w)) = mem_queue w"
  using assms
  by (cases rule: queue_key_cases [OF assms(2)];
      auto simp: dequeue_def py_simps cmd_brpop_def queue_of_def split: if_splits)+

lemma dequeue_agrees:
  assumes w: "client_ready w" and inv: "store_inv E (view (svc w))" and ag: "phases_agree E view w"
  shows "(case fst (mem_dequeue timeout w) of
        Inr None \<Rightarrow> fst (dequeue E timeout w) = Inr None
      | Inr (Some x) \<Rightarrow> \<exists>y. fst (dequeue E timeout w) = Inr (Some y)
          \<and> heap (snd (dequeue E timeout w)) y = heap w x
      | Inl _ \<Rightarrow> False)
    \<and> phases_agree E view (snd (mem_dequeue timeout (snd (dequeue E timeout w))))"
proof -
  note D = phases_agreeD [OF ag]
  have q: "queue_inv E (view (svc w))" using inv by (simp add: store_inv_def)
  let ?v = "snd (dequeue E timeout w)"
  show ?thesis
  proof (cases "mem_queue w")
    case Nil
    with D(5) dequeue_run(1) [OF w q] have run: "fst (dequeue E timeout w) = Inr None"
      "view (svc ?v) = view (svc w)" "heap ?v = heap w" by simp_all
    note frame = dequeue_frame(1) [OF w q, of timeout]
    have "phases_agree E view (snd (mem_dequeue timeout ?v))"
      using run frame Nil D(5) by (intro phases_agree_grow [OF ag])
        (simp_all add: mem_dequeue_def py_simps)
    with run(1) Nil show ?thesis by (simp add: mem_dequeue_def py_simps)
  next
    case (Cons x xs)
    let ?q = "rev (map (\<lambda>x. enc E (heap w x)) xs)"
    have "queue_of (view (svc w)) = ?q @ [enc E (heap w x)]" using D(5) Cons by simp
    note run = dequeue_run(2) [OF w q this, of timeout] and frame = dequeue_frame(2) [OF w q this, of timeout]
    have "phases_agree E view (snd (mem_dequeue timeout ?v))"
      using run frame Cons by (intro phases_agree_grow [OF ag])
        (auto simp: mem_dequeue_def py_simps)
    with run Cons show ?thesis by (simp add: mem_dequeue_def py_simps)
  qed
qed

text \<open>The lookups of a project.\<close>

lemma reads_agree:
  assumes w: "client_ready w" and inv: "store_inv E (view (svc w))" and ag: "phases_agree E view w"
  shows "\<exists>ys zs. fst (mem_list_by_project p w) = Inr ys \<and> fst (list_by_project E p w) = Inr zs
      \<and> heap (snd (list_by_project E p w)) ` set zs = heap w ` set ys
      \<and> phases_agree E view (snd (list_by_project E p w))"
    and "fst (mem_has_running_task p w) = fst (has_running_task E p w)"
    and "case (fst (mem_find_incomplete p w), fst (find_incomplete E p w)) of
        (Inr None, Inr None) \<Rightarrow> True
      | (Inr (Some y), Inr (Some z)) \<Rightarrow>
          (\<forall>t \<in> {heap w y, heap (snd (find_incomplete E p w)) z}.
             project_name t = p \<and> is_incomplete t \<and> holds E (view (svc w)) (task_id t) t)
      | _ \<Rightarrow> False"
proof -
  obtain ys zs v where l: "mem_list_by_project p w = (Inr ys, w)" "heap v ` set zs = heap w ` set ys"
    "extends view w v" and z: "list_by_project E p w = (Inr zs, v)"
    using lists_agree [OF assms, of p] by (metis prod.collapse)
  show "\<exists>ys zs. fst (mem_list_by_project p w) = Inr ys \<and> fst (list_by_project E p w) = Inr zs
      \<and> heap (snd (list_by_project E p w)) ` set zs = heap w ` set ys
      \<and> phases_agree E view (snd (list_by_project E p w))"
    using l(1,2) z phases_agree_extends [OF ag l(3)] by auto
  have any: "(\<exists>y \<in> set ys. P (heap w y)) = (\<exists>z \<in> set zs. P (heap v z))" for P
    using l(2) by (metis (no_types, lifting) image_iff)
  show "fst (mem_has_running_task p w) = fst (has_running_task E p w)"
    using l(1) any [of "\<lambda>t. status t = RUNNING"]
    by (simp add: mem_has_running_task_def has_running_task_def py_bind_def py_get_def z)
  have run: "mem_find_incomplete p w = (Inr (find (\<lambda>y. is_incomplete (heap w y)) ys), w)"
    "find_incomplete E p w = (Inr (find (\<lambda>z. is_incomplete (heap v z)) zs), v)"
    using l(1) by (simp_all add: mem_find_incomplete_def find_incomplete_def py_bind_def py_get_def z)
  have stored: "project_name t = p \<and> holds E (view (svc w)) (task_id t) t" if "t \<in> heap w ` set ys" for t
  proof -
    have "heap w ` set ys = {t. \<exists>i \<in> members (view (svc w)) p. holds E (view (svc w)) i t}"
      using project_agrees [OF inv ag, of p] l(1) mem_list_by_project_run [of p w] by auto
    with that obtain i where i: "i \<in> members (view (svc w)) p" "holds E (view (svc w)) i t" by blast
    from projects_invD [OF inv i(1)] i(2) have "hex32 i" "project_name t = p" by (auto simp: holds_def)
    moreover from inv \<open>hex32 i\<close> i(2) have "task_id t = i"
      by (auto simp: store_inv_def records_inv_def holds_def)
    ultimately show ?thesis using i(2) by simp
  qed
  show "case (fst (mem_find_incomplete p w), fst (find_incomplete E p w)) of
        (Inr None, Inr None) \<Rightarrow> True
      | (Inr (Some y), Inr (Some z)) \<Rightarrow>
          (\<forall>t \<in> {heap w y, heap (snd (find_incomplete E p w)) z}.
             project_name t = p \<and> is_incomplete t \<and> holds E (view (svc w)) (task_id t) t)
      | _ \<Rightarrow> False"
    unfolding run fst_conv snd_conv
  proof (cases "find (\<lambda>y. is_incomplete (heap w y)) ys")
    case None
    then have "find (\<lambda>z. is_incomplete (heap v z)) zs = None"
      using any [of is_incomplete] by (auto simp: find_None_iff)
    with None show "case (Inr (find (\<lambda>y. is_incomplete (heap w y)) ys), Inr (find (\<lambda>z. is_incomplete (heap v z)) zs)) of
        (Inr None, Inr None) \<Rightarrow> True
      | (Inr (Some y), Inr (Some z)) \<Rightarrow>
          (\<forall>t \<in> {heap w y, heap v z}.
             project_name t = p \<and> is_incomplete t \<and> holds E (view (svc w)) (task_id t) t)
      | _ \<Rightarrow> False" by simp
  next
    case (Some y)
    with find_SomeD [OF Some] any [of is_incomplete]
    have "find (\<lambda>z. is_incomplete (heap v z)) zs \<noteq> None" by (auto simp: find_None_iff)
    then obtain z where z': "find (\<lambda>z. is_incomplete (heap v z)) zs = Some z" by blast
    have "heap v z \<in> heap w ` set ys" using find_SomeD [OF z'] l(2) by blast
    with find_SomeD [OF Some] find_SomeD [OF z'] stored Some z'
    show "case (Inr (find (\<lambda>y. is_incomplete (heap w y)) ys), Inr (find (\<lambda>z. is_incomplete (heap v z)) zs)) of
        (Inr None, Inr None) \<Rightarrow> True
      | (Inr (Some y), Inr (Some z)) \<Rightarrow>
          (\<forall>t \<in> {heap w y, heap v z}.
             project_name t = p \<and> is_incomplete t \<and> holds E (view (svc w)) (task_id t) t)
      | _ \<Rightarrow> False" by simp
  qed
qed

end

section \<open>Properties\<close>

text \<open>C12: Redis refines the in-process store and queue. From agreeing states every operation of the
  common interface gives the same answers on both and keeps them in agreement: \<open>save\<close>, the
  \<open>ValueError\<close> for a taken id included, \<open>get\<close>, \<open>list_by_project\<close> (equal sets of tasks),
  \<open>has_running_task\<close>, \<open>find_incomplete\<close> (a task in both or in none, each an unfinished task of the
  project), \<open>enqueue\<close>, \<open>dequeue\<close> and \<open>qsize\<close>. The one exception is \<open>update\<close>: in process it returns, on
  Redis it raises \<open>TimeoutError\<close> in the loop's thread; the write it has scheduled, and \<open>async_update\<close>,
  bring the stores into agreement again. \<open>find_by_digest\<close> has no counterpart in process.\<close>

theorem stores_refine:
  assumes "deployment E view" "client_ready w" "store_inv E (view (svc w))" "phases_agree E view w"
  shows "(x < next_obj w \<longrightarrow> hex32 (task_id (heap w x)) \<longrightarrow>
        fst (mem_save x w) = fst (store_save E x w)
        \<and> phases_agree E view (snd (mem_save x (snd (store_save E x w))))
        \<and> fst (mem_update x w) = Inr () \<and> fst (async_update E x w) = Inr ()
        \<and> phases_agree E view (snd (mem_update x (snd (async_update E x w))))
        \<and> fst (store_update E LoopThread x w) = Inl TimeoutError
        \<and> (pending w = [] \<longrightarrow>
            phases_agree E view (snd (mem_update x (snd (run_pending E (snd (store_update E LoopThread x w))))))))
    \<and> (x < next_obj w \<longrightarrow>
        fst (mem_enqueue x w) = Inr () \<and> fst (enqueue E x w) = Inr ()
        \<and> phases_agree E view (snd (mem_enqueue x (snd (enqueue E x w)))))
    \<and> (case fst (mem_dequeue timeout w) of
          Inr None \<Rightarrow> fst (dequeue E timeout w) = Inr None
        | Inr (Some y) \<Rightarrow> \<exists>z. fst (dequeue E timeout w) = Inr (Some z)
            \<and> heap (snd (dequeue E timeout w)) z = heap w y
        | Inl _ \<Rightarrow> False)
    \<and> phases_agree E view (snd (mem_dequeue timeout (snd (dequeue E timeout w))))
    \<and> fst (mem_qsize w) = fst (qsize E w)
    \<and> (hex32 i \<longrightarrow>
        (case fst (mem_get i w) of
           Inr None \<Rightarrow> fst (store_get E i w) = Inr None
         | Inr (Some y) \<Rightarrow> \<exists>z. fst (store_get E i w) = Inr (Some z)
             \<and> heap (snd (store_get E i w)) z = heap w y
         | Inl _ \<Rightarrow> False))
    \<and> (\<exists>ys zs. fst (mem_list_by_project p w) = Inr ys \<and> fst (list_by_project E p w) = Inr zs
        \<and> heap (snd (list_by_project E p w)) ` set zs = heap w ` set ys
        \<and> phases_agree E view (snd (list_by_project E p w)))
    \<and> fst (mem_has_running_task p w) = fst (has_running_task E p w)
    \<and> (case (fst (mem_find_incomplete p w), fst (find_incomplete E p w)) of
          (Inr None, Inr None) \<Rightarrow> True
        | (Inr (Some y), Inr (Some z)) \<Rightarrow>
            (\<forall>t \<in> {heap w y, heap (snd (find_incomplete E p w)) z}.
               project_name t = p \<and> is_incomplete t \<and> holds E (view (svc w)) (task_id t) t)
        | _ \<Rightarrow> False)"
proof -
  have proj: "projects_inv E (view (svc w))" using assms(3) by (simp add: store_inv_def)
  note D = phases_agreeD [OF assms(4)]
  have put: "fst (mem_save x w) = fst (store_save E x w)
        \<and> phases_agree E view (snd (mem_save x (snd (store_save E x w))))
        \<and> fst (mem_update x w) = Inr () \<and> fst (async_update E x w) = Inr ()
        \<and> phases_agree E view (snd (mem_update x (snd (async_update E x w))))
        \<and> fst (store_update E LoopThread x w) = Inl TimeoutError
        \<and> (pending w = [] \<longrightarrow>
            phases_agree E view (snd (mem_update x (snd (run_pending E (snd (store_update E LoopThread x w)))))))"
    if "x < next_obj w" "hex32 (task_id (heap w x))"
  proof -
    note up = deployment.update_phases [OF assms(1,2,4) that]
    have "fst (mem_update x w) = Inr ()" by (simp add: mem_update_def py_simps)
    moreover have "fst (store_update E LoopThread x w) = Inl TimeoutError" by (simp add: store_update_run)
    moreover note deployment.save_agrees [OF assms(1,2) proj D(1) that(2), THEN conjunct1]
    moreover note deployment.async_update_run(1) [OF assms(1,2), of x]
    ultimately show ?thesis
      using deployment.save_phases [OF assms(1,2) proj assms(4) that] up by (intro conjI impI)
  qed
  show ?thesis
    by (intro conjI impI put; (rule deployment.queue_agrees [OF assms(1-4)] deployment.qsize_agrees [OF assms]
        deployment.dequeue_agrees [OF assms, THEN conjunct1] deployment.dequeue_agrees [OF assms, THEN conjunct2]
        deployment.get_agrees [OF assms(1,2) D(1)] deployment.reads_agree [OF assms])?)
qed

lemma phases_agree_start: "phases_agree mem_env mem_view start_world"
  by (simp add: phases_agree_def stores_agree_def mem_inv_def queue_of_def)

theorem stores_refine_witness:
  "phases_agree mem_env mem_view (snd (mem_save 0 saved_world))
    \<and> phases_agree mem_env mem_view (snd (mem_enqueue 0 (snd (enqueue mem_env 0 start_world))))
    \<and> fst (dequeue mem_env 1 start_world) = Inr None"
proof -
  note refine = stores_refine [OF memory.deployment_axioms start_world_simps(1) _ phases_agree_start,
      of 0 1]
  have "store_inv mem_env (mem_view (svc start_world))" by (simp add: store_inv_empty fun_eq_iff)
  from refine [OF this] show ?thesis
    by (simp add: saved_world_def mem_dequeue_def py_simps)
qed

text \<open>The stores start in agreement: no tasks and an empty queue in either.\<close>

lemma phases_start:
  assumes "\<And>i. ks_keys (view (svc w)) (task_key i) = None" "queue_of (view (svc w)) = []"
  shows "phases_agree E view (snd (py_then mem_store_init mem_queue_init w))"
  using assms
  by (simp add: phases_agree_def stores_agree_def mem_inv_def mem_store_init_def mem_queue_init_def py_simps)

text \<open>the in-process store finds what it holds. Under its invariant, \<open>save\<close> and \<open>update\<close> keep every
  object under its own id, \<open>get\<close> after \<open>update\<close> returns the very object, and the lookup for a project
  returns an unfinished task of it exactly when one is stored.\<close>

theorem inproc_store_correct:
  assumes "mem_inv w"
  shows "mem_inv (snd (mem_save x w)) \<and> mem_inv (snd (mem_update x w))
    \<and> fst (mem_get (task_id (heap w x)) (snd (mem_update x w))) = Inr (Some x)
    \<and> (\<exists>r. mem_find_incomplete p w = (Inr r, w)
         \<and> (r = None \<longleftrightarrow> \<not> (\<exists>y \<in> snd ` set (mem_tasks w). project_name (heap w y) = p \<and> is_incomplete (heap w y)))
         \<and> (\<forall>y. r = Some y \<longrightarrow> project_name (heap w y) = p \<and> is_incomplete (heap w y)
              \<and> y \<in> snd ` set (mem_tasks w)))"
proof -
  let ?xs = "filter (\<lambda>y. project_name (heap w y) = p) (map snd (mem_tasks w))"
  let ?r = "find (\<lambda>y. is_incomplete (heap w y)) ?xs"
  have run: "mem_find_incomplete p w = (Inr ?r, w)"
    by (simp add: mem_find_incomplete_def mem_list_by_project_def py_simps)
  have none: "?r = None \<longleftrightarrow>
      \<not> (\<exists>y \<in> snd ` set (mem_tasks w). project_name (heap w y) = p \<and> is_incomplete (heap w y))"
    by (auto simp: find_None_iff)
  have some: "project_name (heap w y) = p \<and> is_incomplete (heap w y) \<and> y \<in> snd ` set (mem_tasks w)"
    if "?r = Some y" for y
  proof -
    from find_SomeD [OF that] show ?thesis by auto
  qed
  have inv: "mem_inv (snd (mem_save x w))" "mem_inv (snd (mem_update x w))"
    using mem_inv_dict_set [OF assms, of x] assms
    by (simp_all add: mem_save_def mem_update_def py_simps)
  have get: "fst (mem_get (task_id (heap w x)) (snd (mem_update x w))) = Inr (Some x)"
    by (simp add: mem_update_def mem_get_def py_simps)
  show ?thesis
    by (intro conjI inv get exI [of _ ?r] run none allI impI some [THEN conjunct1]
        some [THEN conjunct2, THEN conjunct1] some [THEN conjunct2, THEN conjunct2])
qed

theorem inproc_store_correct_witness:
  "fst (mem_get (task_id no_task) (snd (mem_update 0 start_world))) = Inr (Some 0)"
  using inproc_store_correct [of start_world 0] by (simp add: mem_inv_def)

end
