(* ===== verification/Scheduler.thy ===== *)
theory Scheduler
  imports Tasks
begin

text \<open>
  The scheduling decision (\<open>src/scheduler.py\<close>). What the project store and the state tracker answer
  is part of the scheduler object; each answer may be an exception.
\<close>

section \<open>Operations\<close>

text \<open>\<open>Scheduler(work_dir)\<close>.\<close>

definition new_scheduler :: "cio_api \<Rightarrow> string \<Rightarrow> exn + scheduler" where
  "new_scheduler C wd =
     (case make_project_store C wd of
        Inl e \<Rightarrow> Inl e
      | Inr store \<Rightarrow>
          (case make_logger C wd of
             Inl e \<Rightarrow> Inl e
           | Inr lg \<Rightarrow>
               (case make_state_tracker C wd lg of
                  Inl e \<Rightarrow> Inl e
                | Inr tracker \<Rightarrow>
                    Inr \<lparr>sch_work_dir = wd, sch_project_store = store, sch_state_tracker = tracker\<rparr>)))"

text \<open>The message of the \<open>ValueError\<close>, in the source's Chinese.\<close>

definition no_checkpoint_message :: "string \<Rightarrow> string" where
  "no_checkpoint_message p =
     ''requirement '' @ utf8 [228, 184, 186, 231, 169, 186, 239, 188, 140, 228, 189, 134] @ '' project='' @ py_repr p
     @ '' ''
     @ utf8 [228, 184, 141, 229, 173, 152, 229, 156, 168, 229, 143, 175, 230, 129, 162, 229, 164, 141, 231, 154, 132]
     @ '' checkpoint''
     @ utf8 [239, 188, 140, 230, 151, 160, 230, 179, 149, 230, 137, 167, 232, 161, 140, 228, 187, 187, 228, 189, 149, 230, 147, 141, 228, 189, 156]"

text \<open>A check that logs and answers \<open>False\<close> when it raises: the \<open>try ... except Exception\<close> blocks.\<close>

definition checked :: "('r, bool) prog \<Rightarrow> ('r, bool) prog" where
  "checked m = py_try m (\<lambda>e. if is_Exception e then py_return False else py_raise e)"

definition apply_mode :: "'r env \<Rightarrow> obj \<Rightarrow> task_mode \<Rightarrow> ('r, task_mode) prog" where
  "apply_mode E x m =
     py_then (assign x (\<lambda>t. t\<lparr>mode := m\<rparr>)) (py_then (touch E x) (py_return m))"

definition decide :: "'r env \<Rightarrow> scheduler \<Rightarrow> obj \<Rightarrow> ('r, task_mode) prog" where
  "decide E S x =
     py_bind (load x) (\<lambda>t.
       let p = project_name t;
           tracked = py_then (py_of_sum (set_project_name (sch_state_tracker S) p))
                       (py_of_sum (checkpoint_exists (sch_state_tracker S) p))
       in if requirement t = [] then
            py_bind (checked tracked) (\<lambda>has_checkpoint.
              if \<not> has_checkpoint then py_raise (ValueError (no_checkpoint_message p))
              else apply_mode E x RESUME)
          else
            py_bind (checked (py_of_sum (project_exists (sch_project_store S) p))) (\<lambda>exists.
              if \<not> exists then apply_mode E x NEW
              else
                py_bind (checked tracked) (\<lambda>has_checkpoint.
                  if has_checkpoint then apply_mode E x RESUME else apply_mode E x SECONDARY)))"

section \<open>The decision table\<close>

text \<open>The table of the module's documentation: empty requirement, project exists, checkpoint exists.\<close>

fun decision_table :: "bool \<Rightarrow> bool \<Rightarrow> bool \<Rightarrow> task_mode option" where
  "decision_table True _ True = Some RESUME"
| "decision_table True _ False = None"
| "decision_table False False _ = Some NEW"
| "decision_table False True True = Some RESUME"
| "decision_table False True False = Some SECONDARY"

text \<open>An answer that is an exception counts as no.\<close>

definition says_yes :: "exn + bool \<Rightarrow> bool" where
  "says_yes r = (case r of Inl _ \<Rightarrow> False | Inr b \<Rightarrow> b)"

definition has_project :: "scheduler \<Rightarrow> string \<Rightarrow> bool" where
  "has_project S p = says_yes (project_exists (sch_project_store S) p)"

definition has_checkpoint :: "scheduler \<Rightarrow> string \<Rightarrow> bool" where
  "has_checkpoint S p =
     (case set_project_name (sch_state_tracker S) p of
        Inl _ \<Rightarrow> False
      | Inr _ \<Rightarrow> says_yes (checkpoint_exists (sch_state_tracker S) p))"

text \<open>The checks raise subclasses of \<open>Exception\<close> only, as synchronous code does.\<close>

definition sync_checks :: "scheduler \<Rightarrow> bool" where
  "sync_checks S =
     (\<forall>p e. (project_exists (sch_project_store S) p = Inl e
            \<or> set_project_name (sch_state_tracker S) p = Inl e
            \<or> checkpoint_exists (sch_state_tracker S) p = Inl e) \<longrightarrow> is_Exception e)"

lemma apply_mode_run:
  "apply_mode E x m w =
     (Inr m, w\<lparr>heap := (heap w)(x := (heap w x)\<lparr>mode := m, updated_at := time_at E (ticks w)\<rparr>),
               ticks := Suc (ticks w)\<rparr>)"
  by (simp add: apply_mode_def touch_run py_simps)

lemma checked_project:
  "sync_checks S \<Longrightarrow>
   checked (py_of_sum (project_exists (sch_project_store S) p)) = py_return (has_project S p)"
  by (rule ext) (auto simp: checked_def has_project_def says_yes_def sync_checks_def py_simps
      split: sum.split)

lemma checked_checkpoint:
  "sync_checks S \<Longrightarrow>
   checked (py_then (py_of_sum (set_project_name (sch_state_tracker S) p))
       (py_of_sum (checkpoint_exists (sch_state_tracker S) p))) = py_return (has_checkpoint S p)"
  by (rule ext) (auto simp: checked_def has_checkpoint_def says_yes_def sync_checks_def py_simps
      split: sum.split)

lemma decide_run:
  assumes "sync_checks S"
  shows "decide E S x w =
    (case decision_table (requirement (heap w x) = []) (has_project S (project_name (heap w x)))
            (has_checkpoint S (project_name (heap w x))) of
       None \<Rightarrow> (Inl (ValueError (no_checkpoint_message (project_name (heap w x)))), w)
     | Some m \<Rightarrow> apply_mode E x m w)"
  unfolding decide_def Let_def checked_project [OF assms] checked_checkpoint [OF assms]
  by (cases "requirement (heap w x) = []"; cases "has_project S (project_name (heap w x))";
      cases "has_checkpoint S (project_name (heap w x))")
    (simp_all add: py_bind_def load_def py_return_def py_raise_def)

section \<open>Properties\<close>

text \<open>C9: the scheduler decides by its table. For an empty requirement: \<open>RESUME\<close> when there is a
  checkpoint, else a \<open>ValueError\<close> that leaves the task alone; otherwise \<open>NEW\<close> for an unknown project,
  \<open>RESUME\<close> for a known one with a checkpoint, \<open>SECONDARY\<close> without. A check that raises counts as no.
  The mode is written to the task, and no other object is touched.\<close>

theorem decide_by_table:
  fixes w :: "'r world"
  assumes "sync_checks S" and "t = heap w x" and "w' = snd (decide E S x w)"
  shows "(case decision_table (requirement t = []) (has_project S (project_name t))
              (has_checkpoint S (project_name t)) of
       None \<Rightarrow> fst (decide E S x w) = Inl (ValueError (no_checkpoint_message (project_name t))) \<and> w' = w
     | Some m \<Rightarrow> fst (decide E S x w) = Inr m
         \<and> heap w' x = t\<lparr>mode := m, updated_at := time_at E (ticks w)\<rparr>)
    \<and> (\<forall>y. y \<noteq> x \<longrightarrow> heap w' y = heap w y) \<and> svc w' = svc w"
  unfolding assms(2,3) decide_run [OF assms(1)]
  by (auto simp: apply_mode_run split: option.split)

definition demo_scheduler :: "bool \<Rightarrow> bool \<Rightarrow> scheduler" where
  "demo_scheduler project checkpoint =
     \<lparr>sch_work_dir = ''work'', sch_project_store = \<lparr>project_exists = (\<lambda>_. Inr project)\<rparr>,
      sch_state_tracker = \<lparr>set_project_name = (\<lambda>_. Inr ()), checkpoint_exists = (\<lambda>_. Inr checkpoint)\<rparr>\<rparr>"

theorem decide_by_table_witness:
  "fst (decide mem_env (demo_scheduler True False) 0 start_world) = Inr SECONDARY"
proof -
  have "sync_checks (demo_scheduler True False)" by (simp add: sync_checks_def demo_scheduler_def)
  from decide_by_table [OF this refl refl, where E = mem_env and w = start_world and x = 0] show ?thesis
    by (simp add: has_project_def has_checkpoint_def says_yes_def demo_scheduler_def)
qed

end
