(* ===== verification/Engine_Factory.thy ===== *)
theory Engine_Factory
  imports Scheduler
begin

text \<open>
  The engine factory (\<open>src/engine_factory.py\<close>): which work directory a task gets, how its
  \<open>config_json\<close> is merged with the environment, the construction of an engine and a scheduler, and
  the cache of constructed pairs.
\<close>

section \<open>Work directory\<close>

definition config_hash :: "'r env \<Rightarrow> string \<Rightarrow> string" where
  "config_hash E cj = sha256 E cj"

text \<open>\<open>(data.get("work_dir") or "").strip()\<close>, where anything that raises gives the empty string.\<close>

definition extract_work_dir_from_config :: "'r env \<Rightarrow> string \<Rightarrow> string" where
  "extract_work_dir_from_config E cj =
     (case loads E cj of
        Some (JObj data) \<Rightarrow>
          (case map_of data ''work_dir'' of
             None \<Rightarrow> []
           | Some v \<Rightarrow> (if truthy v then (case v of JStr s \<Rightarrow> py_strip s | _ \<Rightarrow> []) else []))
      | _ \<Rightarrow> [])"

definition resolve_work_dir :: "'r env \<Rightarrow> string option \<Rightarrow> string \<Rightarrow> string" where
  "resolve_work_dir E request_work_dir cj =
     (let candidate = py_strip (or_empty request_work_dir)
      in if candidate \<noteq> [] then candidate
         else if cj \<noteq> [] \<and> extract_work_dir_from_config E cj \<noteq> []
           then extract_work_dir_from_config E cj
         else cio_work_dir (settings E))"

section \<open>Merging with the environment\<close>

text \<open>\<open>type(v).__name__\<close>.\<close>

fun type_name :: "json \<Rightarrow> string" where
  "type_name JNull = ''NoneType''"
| "type_name (JBool _) = ''bool''"
| "type_name (JInt _) = ''int''"
| "type_name (JReal _) = ''float''"
| "type_name (JStr _) = ''str''"
| "type_name (JArr _) = ''list''"
| "type_name (JObj _) = ''dict''"

text \<open>\<open>(d.get(k) or "").strip()\<close>.\<close>

definition get_stripped :: "(string \<times> json) list \<Rightarrow> string \<Rightarrow> exn + string" where
  "get_stripped d k =
     (case map_of d k of
        None \<Rightarrow> Inr []
      | Some v \<Rightarrow>
          (if \<not> truthy v then Inr []
           else case v of
             JStr s \<Rightarrow> Inr (py_strip s)
           | _ \<Rightarrow> Inl (AttributeError
                    (py_repr (type_name v) @ '' object has no attribute '' @ py_repr ''strip''))))"

definition env_defaults :: "settings \<Rightarrow> string \<Rightarrow> (string \<times> json) list" where
  "env_defaults s resolved_work_dir =
     [(''model'', JStr (cio_model s)),
      (''api_key'', JStr (cio_api_key s)),
      (''llm_url'', JStr (cio_llm_url s)),
      (''work_dir'', JStr resolved_work_dir),
      (''file_limit'', JInt 20)]"

definition bullet :: "string \<Rightarrow> string" where
  "bullet e = ''  '' @ utf8 [226, 128, 162] @ '' '' @ e"

definition merge_with_env_defaults ::
  "settings \<Rightarrow> (string \<times> json) list \<Rightarrow> string \<Rightarrow> exn + (string \<times> json) list" where
  "merge_with_env_defaults s parsed resolved_work_dir =
     (let merged = dict_set (dict_merge (env_defaults s resolved_work_dir) parsed)
                     ''work_dir'' (JStr resolved_work_dir)
      in case get_stripped merged ''model'' of
           Inl e \<Rightarrow> Inl e
         | Inr model \<Rightarrow>
             (let merged = dict_set merged ''model'' (JStr model)
              in case get_stripped merged ''api_key'' of
                   Inl e \<Rightarrow> Inl e
                 | Inr api_key \<Rightarrow>
                     (let merged = dict_set merged ''api_key'' (JStr api_key);
                          errors =
                            (if model = []
                             then [''model: value is empty in config_json and CIO_MODEL env var is not set'']
                             else []) @
                            (if api_key = []
                             then [''api_key: value is empty in config_json and CIO_API_KEY env var is not set'']
                             else [])
                      in if errors \<noteq> []
                         then Inl (ValueError
                           (''config_json cannot be used '' @ utf8 [226, 128, 148]
                            @ '' required fields missing after env-var fallback:'' @ newline
                            @ join newline (map bullet errors)))
                         else Inr merged)))"

section \<open>Correlation ids\<close>

definition inject_correlation_id :: "logger \<Rightarrow> string \<Rightarrow> logger" where
  "inject_correlation_id lg cid =
     (if correlation_id lg \<noteq> None then lg
      else if sets_attr lg then lg\<lparr>correlation_id := Some cid\<rparr>
      else if sets_raw lg then lg\<lparr>correlation_id := Some cid\<rparr>
      else lg)"

text \<open>At import: the module's own logger gets an id, unless it has one or takes no attribute.\<close>

definition preinject_logger :: "'r env \<Rightarrow> logger \<Rightarrow> ('r, logger) prog" where
  "preinject_logger E lg =
     (if correlation_id lg \<noteq> None then py_return lg
      else py_bind (new_uuid E) (\<lambda>cid.
             py_return (if sets_attr lg then lg\<lparr>correlation_id := Some cid\<rparr> else lg)))"

text \<open>The wrapper, then each of four attributes that holds a \<open>logging.Logger\<close>.\<close>

definition ensure_correlation_id :: "'r env \<Rightarrow> cio_logger \<Rightarrow> ('r, cio_logger) prog" where
  "ensure_correlation_id E lg =
     py_bind (new_uuid E) (\<lambda>cid.
       py_return
         \<lparr>wrapper = inject_correlation_id (wrapper lg) cid,
          inner = map (\<lambda>(attr, is_logger, l).
                         (attr, is_logger,
                          if attr \<in> {''logger'', ''_logger'', ''log'', ''_log''} \<and> is_logger
                          then inject_correlation_id l cid else l)) (inner lg)\<rparr>)"

section \<open>Construction and cache\<close>

text \<open>The \<open>CIOConfig\<close>: from the request, from the yaml file, or from the environment.\<close>

definition build_config :: "'r env \<Rightarrow> string \<Rightarrow> string option \<Rightarrow> exn + cio_config" where
  "build_config E resolved_work_dir cj =
     (let C = cio E; s = settings E
      in if or_empty cj \<noteq> [] then
           (case loads E (or_empty cj) of
              None \<Rightarrow> Inl (JSONDecodeError ''Expecting value'')
            | Some (JObj parsed) \<Rightarrow>
                (case merge_with_env_defaults s parsed resolved_work_dir of
                   Inl e \<Rightarrow> Inl e
                 | Inr merged \<Rightarrow> from_dict C merged)
            | Some j \<Rightarrow> Inl (TypeError (py_repr (type_name j) @ '' object is not a mapping'')))
         else if cio_config_path s \<noteq> [] then
           (case from_yaml C (cio_config_path s) of
              Inl e \<Rightarrow> Inl e
            | Inr base \<Rightarrow>
                from_dict C (dict_set (to_dict C base) ''work_dir'' (JStr resolved_work_dir)))
         else from_dict C (env_defaults s resolved_work_dir))"

definition build_engine_and_scheduler ::
  "'r env \<Rightarrow> string \<Rightarrow> string option \<Rightarrow> ('r, engine \<times> scheduler) prog" where
  "build_engine_and_scheduler E resolved_work_dir cj =
     py_bind (py_of_sum (build_config E resolved_work_dir cj)) (\<lambda>config.
     py_then (py_of_sum (validate_config (cio E) config))
     (py_bind (py_of_sum (make_logger (cio E) (cfg_work_dir (cio E) config))) (\<lambda>lg0.
      py_bind (ensure_correlation_id E lg0) (\<lambda>lg.
      py_bind (py_of_sum (make_project_store (cio E) (cfg_work_dir (cio E) config))) (\<lambda>store.
      py_then (py_of_sum (make_project_namer (cio E) (cfg_api_key (cio E) config)))
      (py_bind (py_of_sum (make_engine (cio E) config lg store)) (\<lambda>eng.
       py_bind (py_of_sum (new_scheduler (cio E) (cfg_work_dir (cio E) config))) (\<lambda>sched.
       py_return (eng, sched)))))))))"

definition cache_key :: "'r env \<Rightarrow> string option \<Rightarrow> string option \<Rightarrow> string \<times> string" where
  "cache_key E wd cj =
     (let resolved_config_json = py_strip (or_empty cj)
      in (resolve_work_dir E wd resolved_config_json, config_hash E resolved_config_json))"

definition get_engine_and_scheduler ::
  "'r env \<Rightarrow> string option \<Rightarrow> string option \<Rightarrow> ('r, engine \<times> scheduler) prog" where
  "get_engine_and_scheduler E wd cj =
     (let resolved_config_json = py_strip (or_empty cj);
          resolved_work_dir = resolve_work_dir E wd resolved_config_json;
          key = (resolved_work_dir, config_hash E resolved_config_json)
      in py_bind (py_get (\<lambda>w. map_of (engine_cache w) key)) (\<lambda>hit.
           case hit of
             Some pair \<Rightarrow> py_return pair
           | None \<Rightarrow>
               py_bind (build_engine_and_scheduler E resolved_work_dir
                          (or_none resolved_config_json)) (\<lambda>pair.
               py_then (py_put (\<lambda>w. w\<lparr>engine_cache := dict_set (engine_cache w) key pair\<rparr>))
                 (py_return pair))))"

definition clear_cache :: "('r, unit) prog" where
  "clear_cache = py_put (\<lambda>w. w\<lparr>engine_cache := []\<rparr>)"

text \<open>\<open>EngineFactory.get\<close>.\<close>

definition factory_get ::
  "'r env \<Rightarrow> string option \<Rightarrow> string option \<Rightarrow> ('r, engine \<times> scheduler) prog" where
  "factory_get E wd cj = get_engine_and_scheduler E wd cj"

section \<open>Lemmas\<close>

text \<open>The fields of the defaults, by key.\<close>

definition default_fields :: "settings \<Rightarrow> string \<Rightarrow> string \<rightharpoonup> json" where
  "default_fields s wd = map_of (env_defaults s wd)"

text \<open>The merged fields before \<open>model\<close> and \<open>api_key\<close> are stripped: the request's values over the
  defaults, and the resolved work directory over both.\<close>

definition merged_fields :: "settings \<Rightarrow> (string \<times> json) list \<Rightarrow> string \<Rightarrow> string \<rightharpoonup> json" where
  "merged_fields s parsed wd =
     (default_fields s wd ++ map_of parsed)(''work_dir'' \<mapsto> JStr wd)"

lemma get_stripped_map_of:
  "get_stripped d k = get_stripped d' k" if "map_of d k = map_of d' k"
  using that by (simp add: get_stripped_def)

lemma get_stripped_str:
  "get_stripped d k = Inr s \<Longrightarrow> s \<noteq> [] \<Longrightarrow> \<exists>v. map_of d k = Some (JStr v) \<and> py_strip v = s"
  by (auto simp: get_stripped_def split: option.splits if_splits json.splits)

lemma merge_result:
  assumes "distinct (map fst parsed)"
    and "merge_with_env_defaults s parsed wd = Inr merged"
  shows "\<exists>m a v v'. m \<noteq> [] \<and> a \<noteq> []
    \<and> merged_fields s parsed wd ''model'' = Some (JStr v) \<and> py_strip v = m
    \<and> merged_fields s parsed wd ''api_key'' = Some (JStr v') \<and> py_strip v' = a
    \<and> map_of merged = (merged_fields s parsed wd)(''model'' \<mapsto> JStr m, ''api_key'' \<mapsto> JStr a)"
proof -
  let ?d = "dict_set (dict_merge (env_defaults s wd) parsed) ''work_dir'' (JStr wd)"
  have d: "map_of ?d = merged_fields s parsed wd"
    by (simp add: map_of_dict_merge [OF assms(1)] merged_fields_def default_fields_def)
  from assms(2) obtain m where m: "get_stripped ?d ''model'' = Inr m"
    by (auto simp: merge_with_env_defaults_def Let_def split: sum.splits)
  let ?e = "dict_set ?d ''model'' (JStr m)"
  from assms(2) m obtain a where a: "get_stripped ?e ''api_key'' = Inr a"
    by (auto simp: merge_with_env_defaults_def Let_def split: sum.splits)
  have a': "get_stripped ?d ''api_key'' = Inr a"
    using a by (simp add: get_stripped_def)
  from assms(2) m a have ne: "m \<noteq> []" "a \<noteq> []"
    and merged: "merged = dict_set ?e ''api_key'' (JStr a)"
    by (auto simp: merge_with_env_defaults_def Let_def split: if_splits)
  obtain v where "merged_fields s parsed wd ''model'' = Some (JStr v)" "py_strip v = m"
    using get_stripped_str [OF m ne(1)] unfolding d by blast
  moreover obtain v' where "merged_fields s parsed wd ''api_key'' = Some (JStr v')" "py_strip v' = a"
    using get_stripped_str [OF a' ne(2)] unfolding d by blast
  ultimately show ?thesis
    using ne d merged
    by (intro exI [of _ m] exI [of _ a] exI [of _ v] exI [of _ v']) simp
qed

lemma build_cache:
  "engine_cache (snd (build_engine_and_scheduler E wd cj w)) = engine_cache w"
  by (auto simp: build_engine_and_scheduler_def ensure_correlation_id_def py_simps split: sum.split)

text \<open>What building changes: at most one id is drawn.\<close>

lemma build_frame:
  "\<exists>n \<ge> ticks w. snd (build_engine_and_scheduler E wd cj w) = w\<lparr>ticks := n\<rparr>"
proof -
  have "\<exists>n \<ge> ticks w. w = w\<lparr>ticks := n\<rparr>" by (rule exI [of _ "ticks w"]) simp
  then show ?thesis
    by (auto simp: build_engine_and_scheduler_def ensure_correlation_id_def py_simps
        split: sum.split intro!: exI [of _ "Suc (ticks w)"])
qed

lemma factory_get_cases:
  obtains (hit) pair where "map_of (engine_cache w) (cache_key E wd cj) = Some pair"
    "factory_get E wd cj w = (Inr pair, w)"
  | (failed) e n where "map_of (engine_cache w) (cache_key E wd cj) = None"
    "factory_get E wd cj w = (Inl e, w\<lparr>ticks := n\<rparr>)" "ticks w \<le> n"
  | (built) pair n where "map_of (engine_cache w) (cache_key E wd cj) = None"
    "factory_get E wd cj w =
      (Inr pair, w\<lparr>ticks := n, engine_cache := dict_set (engine_cache w) (cache_key E wd cj) pair\<rparr>)"
    "ticks w \<le> n"
proof (cases "map_of (engine_cache w) (cache_key E wd cj)")
  case (Some pair)
  with hit show thesis
    by (simp add: factory_get_def get_engine_and_scheduler_def cache_key_def Let_def py_simps)
next
  case None
  let ?b = "build_engine_and_scheduler E (fst (cache_key E wd cj))
      (or_none (py_strip (or_empty cj)))"
  obtain n where n: "snd (?b w) = w\<lparr>ticks := n\<rparr>" "ticks w \<le> n" using build_frame by blast
  show thesis
  proof (cases "fst (?b w)")
    case (Inl e)
    with None n failed show thesis
      by (simp add: factory_get_def get_engine_and_scheduler_def cache_key_def Let_def py_simps)
  next
    case (Inr pair)
    with None n built show thesis
      by (simp add: factory_get_def get_engine_and_scheduler_def cache_key_def Let_def py_simps)
  qed
qed

text \<open>Every branch of \<open>build_config\<close> hands the resolved work directory to \<open>CIOConfig.from_dict\<close>.\<close>

lemma merge_work_dir:
  "merge_with_env_defaults s parsed wd = Inr merged \<Longrightarrow> map_of merged ''work_dir'' = Some (JStr wd)"
  by (auto simp: merge_with_env_defaults_def Let_def split: sum.splits if_splits)

lemma build_config_source:
  assumes "build_config E wd cj = Inr c"
  shows "\<exists>d. from_dict (cio E) d = Inr c \<and> map_of d ''work_dir'' = Some (JStr wd)"
proof (cases "or_empty cj = []")
  case False
  with assms obtain parsed merged where
    "merge_with_env_defaults (settings E) parsed wd = Inr merged" "from_dict (cio E) merged = Inr c"
    by (auto simp: build_config_def Let_def split: option.splits json.splits sum.splits)
  then show ?thesis using merge_work_dir by blast
next
  case none: True
  show ?thesis
  proof (cases "cio_config_path (settings E) = []")
    case True
    with none assms show ?thesis
      by (auto simp: build_config_def Let_def env_defaults_def)
  next
    case False
    with none assms obtain base where
      "from_dict (cio E) (dict_set (to_dict (cio E) base) ''work_dir'' (JStr wd)) = Inr c"
      by (auto simp: build_config_def Let_def split: sum.splits)
    then show ?thesis by (intro exI) (auto simp: map_of_dict_set)
  qed
qed

section \<open>Properties\<close>

text \<open>C11: the request's configuration wins over the environment. When a \<open>config_json\<close> is accepted, the
  configuration built from it has the resolved work directory, the stripped non-empty \<open>model\<close> and
  \<open>api_key\<close> of the request or, where the request has no such key, of the environment, and for every
  other key the request's value, else the default. The default of \<open>file_limit\<close> is the 20 of the code
  (\<open>api_contract.md\<close> says 30), and a blank \<open>model\<close> or \<open>api_key\<close> is not filled from the environment as
  the header of \<open>config_schema.py\<close> says, but makes the merge fail.\<close>

theorem config_precedence:
  assumes "distinct (map fst parsed)"
    and "merge_with_env_defaults s parsed wd = Inr merged"
  shows "map_of merged ''work_dir'' = Some (JStr wd)
    \<and> (\<forall>k \<in> {''model'', ''api_key''}. \<exists>v. map_of merged k = Some (JStr (py_strip v)) \<and> py_strip v \<noteq> []
         \<and> (map_of parsed k = Some (JStr v) \<or> map_of parsed k = None \<and> default_fields s wd k = Some (JStr v)))
    \<and> (\<forall>k. k \<notin> {''model'', ''api_key'', ''work_dir''} \<longrightarrow>
         map_of merged k = (case map_of parsed k of Some v \<Rightarrow> Some v | None \<Rightarrow> default_fields s wd k))"
proof -
  obtain m a v v' where ne: "m \<noteq> []" "a \<noteq> []"
    and m: "merged_fields s parsed wd ''model'' = Some (JStr v)" "py_strip v = m"
    and a: "merged_fields s parsed wd ''api_key'' = Some (JStr v')" "py_strip v' = a"
    and mg: "map_of merged = (merged_fields s parsed wd)(''model'' \<mapsto> JStr m, ''api_key'' \<mapsto> JStr a)"
    using merge_result [OF assms] by blast
  have src: "map_of parsed k = Some (JStr u) \<or> map_of parsed k = None \<and> default_fields s wd k = Some (JStr u)"
    if "merged_fields s parsed wd k = Some (JStr u)" "k \<noteq> ''work_dir''" for k u
    using that by (auto simp: merged_fields_def map_add_def split: option.splits)
  have "\<exists>v. map_of merged ''model'' = Some (JStr (py_strip v)) \<and> py_strip v \<noteq> []
      \<and> (map_of parsed ''model'' = Some (JStr v)
         \<or> map_of parsed ''model'' = None \<and> default_fields s wd ''model'' = Some (JStr v))"
    using ne m src [OF m(1)] mg by (intro exI [of _ v]) simp
  moreover have "\<exists>v. map_of merged ''api_key'' = Some (JStr (py_strip v)) \<and> py_strip v \<noteq> []
      \<and> (map_of parsed ''api_key'' = Some (JStr v)
         \<or> map_of parsed ''api_key'' = None \<and> default_fields s wd ''api_key'' = Some (JStr v))"
    using ne a src [OF a(1)] mg by (intro exI [of _ v']) simp
  moreover have "map_of merged k = (case map_of parsed k of Some v \<Rightarrow> Some v | None \<Rightarrow> default_fields s wd k)"
    if "k \<notin> {''model'', ''api_key'', ''work_dir''}" for k
    using that mg by (auto simp: merged_fields_def map_add_def split: option.split)
  ultimately show ?thesis
    using merge_work_dir [OF assms(2)] by blast
qed

theorem config_precedence_witness:
  "\<exists>merged. merge_with_env_defaults example_settings [(''model'', JStr '' m '')] ''w'' = Inr merged
    \<and> map_of merged ''file_limit'' = Some (JInt 20)"
proof -
  let ?r = "merge_with_env_defaults example_settings [(''model'', JStr '' m '')] ''w''"
  have "case ?r of Inl _ \<Rightarrow> False | Inr _ \<Rightarrow> True"
    by code_simp
  then obtain merged where ok: "?r = Inr merged" by (cases ?r) simp_all
  have "map_of merged ''file_limit'' = default_fields example_settings ''w'' ''file_limit''"
    using config_precedence [OF _ ok] by simp
  with ok show ?thesis by (simp add: default_fields_def env_defaults_def)
qed

text \<open>a blank \<open>model\<close> or \<open>api_key\<close> in the request is an error, whatever the environment holds. The
  merge puts the request's blank, null or false value over the default before it looks whether the
  value is empty, so the fallback to the environment only happens for an absent key.\<close>

theorem blank_field_is_fatal:
  assumes "distinct (map fst parsed)" "k = ''model'' \<or> k = ''api_key''"
    and "map_of parsed k = Some v" "\<not> truthy v \<or> (\<exists>s. v = JStr s \<and> py_strip s = [])"
  shows "\<exists>e. merge_with_env_defaults st parsed wd = Inl e"
proof (cases "merge_with_env_defaults st parsed wd")
  case (Inr merged)
  obtain m a u u' where ne: "m \<noteq> []" "a \<noteq> []"
    and m: "merged_fields st parsed wd ''model'' = Some (JStr u)" "py_strip u = m"
    and a: "merged_fields st parsed wd ''api_key'' = Some (JStr u')" "py_strip u' = a"
    using merge_result [OF assms(1) Inr] by blast
  have "merged_fields st parsed wd k = Some v"
    using assms(2,3) by (auto simp: merged_fields_def map_add_def)
  with m a ne assms(2) have "\<exists>s. v = JStr s \<and> py_strip s \<noteq> []" by auto
  with assms(4) show ?thesis by auto
qed simp

theorem blank_field_is_fatal_witness:
  "\<exists>e. merge_with_env_defaults example_settings [(''api_key'', JStr '' '')] ''w'' = Inl e"
proof -
  have "py_strip '' '' = []" by code_simp
  then show ?thesis
    using blank_field_is_fatal [of "[(''api_key'', JStr '' '')]" "''api_key''" "JStr '' ''"] by simp
qed

text \<open>the engine works in the resolved directory. Whichever of the three sources a configuration
  comes from (the request, the yaml file, the environment), the dict it is built from has the
  resolved work directory.\<close>

theorem build_config_work_dir:
  assumes "build_config E wd cj = Inr c"
  shows "\<exists>d. from_dict (cio E) d = Inr c \<and> map_of d ''work_dir'' = Some (JStr wd)"
  by (rule build_config_source [OF assms])

theorem build_config_work_dir_witness:
  "\<exists>d. map_of d ''work_dir'' = Some (JStr ''w'') \<and> build_config mem_env ''w'' None = Inr d"
proof -
  have ok: "build_config mem_env ''w'' None = Inr (env_defaults example_settings ''w'')"
    by (simp add: build_config_def example_settings_def idle_cio_def)
  from build_config_work_dir [OF ok] ok show ?thesis by (auto simp: idle_cio_def)
qed

text \<open>one engine per configuration. Once a pair was built for a work directory and a
  configuration text, every later call with the same cache key returns this very pair and changes
  nothing, whatever happened in between that left the cache alone.\<close>

theorem factory_caches:
  assumes "fst (factory_get E wd cj w) = Inr pair"
    and "cache_key E wd' cj' = cache_key E wd cj"
    and "engine_cache v = engine_cache (snd (factory_get E wd cj w))"
  shows "factory_get E wd' cj' v = (Inr pair, v)"
proof -
  have "map_of (engine_cache v) (cache_key E wd' cj') = Some pair"
    using assms by (cases rule: factory_get_cases [of w E wd cj]) auto
  then show ?thesis by (cases rule: factory_get_cases [of v E wd' cj']) simp_all
qed

theorem factory_caches_witness:
  "\<exists>pair. factory_get mem_env None (Some []) (snd (factory_get mem_env None None start_world))
    = (Inr pair, snd (factory_get mem_env None None start_world))"
proof -
  have "\<exists>pair. fst (factory_get mem_env None None start_world) = Inr pair"
    by (simp add: factory_get_def get_engine_and_scheduler_def build_engine_and_scheduler_def
        build_config_def example_settings_def idle_cio_def ensure_correlation_id_def new_scheduler_def
        or_none_def Let_def py_simps)
  then obtain pair where ok: "fst (factory_get mem_env None None start_world) = Inr pair" ..
  have "factory_get mem_env None (Some []) (snd (factory_get mem_env None None start_world))
      = (Inr pair, snd (factory_get mem_env None None start_world))"
    by (rule factory_caches [OF ok]) (simp_all add: cache_key_def)
  then show ?thesis ..
qed

text \<open>every logger the engine uses has a correlation id. After \<open>_ensure_correlation_id\<close> the wrapper
  and each of its four known attributes that is a \<open>logging.Logger\<close> has an id, provided an assignment
  to it can succeed; an id that was there is kept, and all new ids are the one drawn.\<close>

theorem correlation_ids:
  shows "\<exists>lg'. fst (ensure_correlation_id E lg w) = Inr lg'
    \<and> correlation_id (wrapper lg') =
        (if correlation_id (wrapper lg) = None \<and> (sets_attr (wrapper lg) \<or> sets_raw (wrapper lg))
         then Some (uuid_at E (ticks w)) else correlation_id (wrapper lg))
    \<and> list_all2 (\<lambda>(name, is_logger, l) (name', is_logger', l').
         name' = name \<and> is_logger' = is_logger
         \<and> correlation_id l' =
             (if name \<in> {''logger'', ''_logger'', ''log'', ''_log''} \<and> is_logger
                 \<and> correlation_id l = None \<and> (sets_attr l \<or> sets_raw l)
              then Some (uuid_at E (ticks w)) else correlation_id l)) (inner lg) (inner lg')"
  by (auto simp: ensure_correlation_id_def inject_correlation_id_def py_simps split_beta Let_def
      list_all2_conv_all_nth)

end
