(* ===== verification/Worker.thy ===== *)
theory Worker
  imports Event_Loop Inproc Locks Engine_Factory
begin

text \<open>
  The worker (\<open>src/worker.py\<close>): executing one task under the lock of its project, the stream of
  events, retries, the heartbeat and the loop over the queue. A worker is given its queue, so the
  model is over the interface \<open>work_queue\<close>; the Redis queue and the in-process queue are its two
  implementations.
\<close>

section \<open>The queue a worker is given\<close>

record 'r work_queue =
  wq_enqueue :: "obj \<Rightarrow> ('r, unit) prog"
  wq_dequeue :: "rat \<Rightarrow> ('r, obj option) prog"
  wq_update :: "thread \<Rightarrow> obj \<Rightarrow> ('r, unit) prog"

definition redis_queue :: "'r env \<Rightarrow> 'r work_queue" where
  "redis_queue E =
     \<lparr>wq_enqueue = enqueue E, wq_dequeue = dequeue E, wq_update = store_update E\<rparr>"

definition inproc_queue :: "'r work_queue" where
  "inproc_queue =
     \<lparr>wq_enqueue = mem_enqueue, wq_dequeue = mem_dequeue, wq_update = (\<lambda>th. mem_update)\<rparr>"

record 'r worker =
  w_queue :: "'r work_queue"
  w_max_retries :: int
  w_poll_interval :: rat

section \<open>Streaming\<close>

definition iter_events :: "engine \<Rightarrow> task_mode \<Rightarrow> task \<Rightarrow> exn + iterator" where
  "iter_events eng md t =
     (if md = NEW then run_stream eng (requirement t) (project_name t)
      else if md = RESUME then resume_stream eng (project_name t) (requirement t)
      else run_secondary_stream eng (project_name t) (requirement t))"

text \<open>Runs in a thread \<open>th\<close>: the loop is looked up there, then every event is published through it,
  and an exception of the iterator comes after its events.\<close>

definition consume_sync :: "'r env \<Rightarrow> thread \<Rightarrow> obj \<Rightarrow> iterator \<Rightarrow> ('r, unit) prog" where
  "consume_sync E th x it =
     py_then (get_running_loop th)
       (py_bind (load x) (\<lambda>t.
        py_then (py_for (\<lambda>ev. run_threadsafe E th (PublishEvent (task_id t) ev)) (fst it))
          (case snd it of None \<Rightarrow> py_return () | Some e \<Rightarrow> py_raise e)))"

text \<open>How the wait for the executor ends: with the thread, by the stream timeout, or because the
  worker itself is cancelled. There is no timeout unless it is positive.\<close>

datatype fate = Completes | TimesOut | Cancelled

definition stream_cancelled :: "'r env \<Rightarrow> exn" where
  "stream_cancelled E = CancelledError (Some (stream_timeout (settings E)))"

definition stream :: "'r env \<Rightarrow> fate \<Rightarrow> obj \<Rightarrow> task_mode \<Rightarrow> engine \<Rightarrow> ('r, unit) prog" where
  "stream E ft x md eng =
     py_bind (load x) (\<lambda>t.
     py_bind (py_of_sum (iter_events eng md t)) (\<lambda>it.
       if ft = Cancelled then py_raise (CancelledError None)
       else if ft = TimesOut \<and> 0 < stream_timeout (settings E) then py_raise (stream_cancelled E)
       else py_try (consume_sync E ExecutorThread x it)
              (\<lambda>e. if e = TimeoutError then py_raise (stream_cancelled E) else py_raise e)))"

section \<open>Retries\<close>

definition handle_retriable :: "'r env \<Rightarrow> 'r worker \<Rightarrow> obj \<Rightarrow> exn \<Rightarrow> ('r, unit) prog" where
  "handle_retriable E W x ex =
     py_bind (load x) (\<lambda>t.
       if retry_count t < w_max_retries W then
         py_then (assign x (\<lambda>t. t\<lparr>retry_count := retry_count t + 1\<rparr>))
        (py_bind (load x) (\<lambda>t.
         py_then (transition E x INTERRUPTED
                    (''retry '' @ show_int (retry_count t) @ '': '' @ exn_str ex))
        (py_then (wq_update (w_queue W) LoopThread x)
           (wq_enqueue (w_queue W) x))))
       else
         py_then (transition E x FAILED
                    (''max retries ('' @ show_int (w_max_retries W) @ '') exceeded: '' @ exn_str ex))
        (py_then (wq_update (w_queue W) LoopThread x)
           (bus_close E (task_id t))))"

section \<open>Executing a task\<close>

text \<open>A transition and the synchronous write of it: what every branch of \<open>_run_locked\<close> does.\<close>

definition to_status :: "'r env \<Rightarrow> 'r worker \<Rightarrow> obj \<Rightarrow> task_status \<Rightarrow> string \<Rightarrow> ('r, unit) prog" where
  "to_status E W x s detail =
     py_then (transition E x s detail) (wq_update (w_queue W) LoopThread x)"

definition close_of :: "'r env \<Rightarrow> obj \<Rightarrow> ('r, unit) prog" where
  "close_of E x = py_bind (load x) (\<lambda>t. bus_close E (task_id t))"

text \<open>The \<open>try\<close> around the stream, up to the \<open>close\<close> that follows it; \<open>True\<close> asks for that close.\<close>

definition run_stream_handlers :: "'r env \<Rightarrow> 'r worker \<Rightarrow> obj \<Rightarrow> exn \<Rightarrow> ('r, bool) prog" where
  "run_stream_handlers E W x e =
     (case e of
        FatalError s \<Rightarrow> py_then (to_status E W x FAILED s) (py_return True)
      | RetriableError s \<Rightarrow>
          py_then (close_of E x) (py_then (handle_retriable E W x e) (py_return False))
      | LockStolenError s \<Rightarrow> py_raise e
      | CancelledError d \<Rightarrow>
          py_then (to_status E W x INTERRUPTED ''worker cancelled'')
            (py_then (close_of E x) (py_raise e))
      | _ \<Rightarrow> py_then (to_status E W x FAILED (''unexpected: '' @ exn_str e)) (py_return True))"

definition run_streaming :: "'r env \<Rightarrow> 'r worker \<Rightarrow> fate \<Rightarrow> obj \<Rightarrow> task_mode \<Rightarrow> engine \<Rightarrow> ('r, unit) prog" where
  "run_streaming E W ft x md eng =
     py_bind
       (py_try (py_then (stream E ft x md eng) (py_then (to_status E W x SUCCESS []) (py_return True)))
          (run_stream_handlers E W x))
       (\<lambda>close. if close then close_of E x else py_return ())"

definition run_locked :: "'r env \<Rightarrow> 'r worker \<Rightarrow> fate \<Rightarrow> obj \<Rightarrow> ('r, unit) prog" where
  "run_locked E W ft x =
     py_bind (load x) (\<lambda>t.
     py_bind
       (py_try
          (py_bind (factory_get E (or_none (work_dir t)) (or_none (config_json t)))
             (\<lambda>pair. py_return (Some pair)))
          (\<lambda>e. if is_Exception e
               then py_then (to_status E W x FAILED (''engine initialisation failed: '' @ exn_str e))
                      (py_then (close_of E x) (py_return None))
               else py_raise e)) (\<lambda>pair.
     case pair of
       None \<Rightarrow> py_return ()
     | Some (eng, sched) \<Rightarrow>
         py_bind
           (py_try (py_bind (decide E sched x) (\<lambda>md. py_return (Some md)))
              (\<lambda>e. if is_ValueError e
                   then py_then (to_status E W x FAILED (exn_str e))
                          (py_then (close_of E x) (py_return None))
                   else py_raise e)) (\<lambda>decision.
         case decision of
           None \<Rightarrow> py_return ()
         | Some md \<Rightarrow>
             py_then (to_status E W x RUNNING (''mode='' @ mode_value md))
               (run_streaming E W ft x md eng))))"

section \<open>The heartbeat and the lock\<close>

text \<open>The heartbeat with \<open>n\<close> intervals before it is cancelled.\<close>

fun heartbeat :: "'r env \<Rightarrow> string \<Rightarrow> string \<Rightarrow> nat \<Rightarrow> ('r, unit) prog" where
  "heartbeat E p token 0 = py_raise (CancelledError None)"
| "heartbeat E p token (Suc n) =
     py_bind (refresh_lock E p token (lock_ttl (settings E))) (\<lambda>still_held.
       if still_held then heartbeat E p token n
       else py_raise (LockStolenError (''lock stolen for project '' @ py_repr p)))"

text \<open>
  One execution. The heartbeat runs beside the task and whatever it raises ends at the \<open>await\<close> in the
  \<open>finally\<close> block, so its \<open>beats\<close> are placed there; this \<open>await\<close> is also where the loop runs what was
  scheduled.
\<close>

definition execute :: "'r env \<Rightarrow> 'r worker \<Rightarrow> fate \<Rightarrow> nat \<Rightarrow> obj \<Rightarrow> ('r, unit) prog" where
  "execute E W ft beats x =
     py_bind (new_uuid E) (\<lambda>lock_token.
     py_bind (load x) (\<lambda>t.
     py_bind (acquire_lock E (project_name t) lock_token (lock_ttl (settings E))) (\<lambda>acquired.
       if \<not> acquired then wq_enqueue (w_queue W) x
       else
         py_finally
           (py_try (run_locked E W ft x)
              (\<lambda>e. case e of
                     LockStolenError _ \<Rightarrow>
                       handle_retriable E W x
                         (RetriableError ''distributed lock was stolen during execution'')
                   | _ \<Rightarrow> py_raise e))
           (py_then
              (py_try
                 (py_then (run_pending E) (heartbeat E (project_name t) lock_token beats))
                 (\<lambda>_. py_return ()))
              (release_lock E (project_name t) lock_token)))))"

text \<open>The loop of a worker over the turns of a run: each turn waits for a task and executes it.\<close>

fun worker_run :: "'r env \<Rightarrow> 'r worker \<Rightarrow> (fate \<times> nat) list \<Rightarrow> ('r, unit) prog" where
  "worker_run E W [] = py_return ()"
| "worker_run E W ((ft, beats) # turns) =
     py_bind (wq_dequeue (w_queue W) (w_poll_interval W)) (\<lambda>task.
       case task of
         None \<Rightarrow> worker_run E W turns
       | Some x \<Rightarrow> py_then (execute E W ft beats x) (worker_run E W turns))"

section \<open>The interface of the queue\<close>

text \<open>Writing a task and queueing it change no task object.\<close>

locale task_queue =
  fixes Q :: "'r work_queue"
  assumes update_heap: "heap (snd (wq_update Q th x w)) = heap w"
    and enqueue_heap: "heap (snd (wq_enqueue Q x w)) = heap w"

text \<open>Nor do they touch the locks or the client.\<close>

locale lock_safe_queue = task_queue Q for Q :: "'r work_queue" +
  fixes view :: "'r \<Rightarrow> keyspace"
  assumes update_locks: "client_ready (snd (wq_update Q th x w)) = client_ready w
      \<and> (client_ready w \<longrightarrow> ks_keys (view (svc (snd (wq_update Q th x w)))) (lock_key p)
          = ks_keys (view (svc w)) (lock_key p))"
    and enqueue_locks: "client_ready (snd (wq_enqueue Q x w)) = client_ready w
      \<and> (client_ready w \<longrightarrow> ks_keys (view (svc (snd (wq_enqueue Q x w)))) (lock_key p)
          = ks_keys (view (svc w)) (lock_key p))"

interpretation redis_q: task_queue "redis_queue E" for E
  by unfold_locales (simp_all add: redis_queue_def store_update_heap)

interpretation inproc_q: lock_safe_queue inproc_queue view for view
  by unfold_locales (simp_all add: inproc_queue_def mem_update_def mem_enqueue_def py_simps)

section \<open>A stream never ends well\<close>

text \<open>What \<open>_stream\<close> raises.\<close>

definition stream_error :: "'r env \<Rightarrow> fate \<Rightarrow> task_mode \<Rightarrow> engine \<Rightarrow> task \<Rightarrow> exn" where
  "stream_error E ft md eng t =
     (case iter_events eng md t of
        Inl e \<Rightarrow> e
      | Inr it \<Rightarrow>
          (if ft = Cancelled then CancelledError None
           else if ft = TimesOut \<and> 0 < stream_timeout (settings E) then stream_cancelled E
           else RuntimeError ''no running event loop''))"

lemma stream_run: "stream E ft x md eng w = (Inl (stream_error E ft md eng (heap w x)), w)"
  by (auto simp: stream_def stream_error_def consume_sync_def get_running_loop_def py_simps
      split: sum.split)

lemma run_streaming_run:
  fixes E :: "'r env"
  shows "run_streaming E W ft x md eng w =
     py_bind (run_stream_handlers E W x (stream_error E ft md eng (heap w x)))
       (\<lambda>close. if close then close_of E x else py_return ()) w"
proof -
  have "py_try (py_then (stream E ft x md eng) k) (run_stream_handlers E W x) w
      = run_stream_handlers E W x (stream_error E ft md eng (heap w x)) w"
    for k :: "('r, bool) prog"
    by (simp add: py_try_def py_then_def py_bind_def stream_run)
  then show ?thesis by (simp add: run_streaming_def py_bind_def split: sum.split)
qed

lemma factory_get_heap [simp]: "heap (snd (factory_get E wd cj w)) = heap w"
  by (cases rule: factory_get_cases [of w E wd cj]) simp_all

lemma keeps_factory [keeps_intros]: "keeps (on_heap Q) (factory_get E wd cj)"
  by (simp add: keeps_def on_heap_def)

lemma keeps_lock_ops [keeps_intros]:
  "keeps (on_heap Q) (acquire_lock E p tok ttl)" "keeps (on_heap Q) (release_lock E p tok)"
  "keeps (on_heap Q) (refresh_lock E p tok ttl)"
proof -
  have "redis_only (acquire_lock E p tok ttl)" "redis_only (release_lock E p tok)"
    "redis_only (refresh_lock E p tok ttl)"
    unfolding acquire_lock_def release_lock_def refresh_lock_def by (intro redis_only_intros)+
  then show "keeps (on_heap Q) (acquire_lock E p tok ttl)" "keeps (on_heap Q) (release_lock E p tok)"
    "keeps (on_heap Q) (refresh_lock E p tok ttl)"
    by (simp_all add: keeps_heap_redis_only)
qed

lemma keeps_heartbeat [keeps_intros]: "keeps (on_heap Q) (heartbeat E p tok n)"
  by (induction n) (auto intro!: keeps_intros)

section \<open>What an execution may do to its task\<close>

text \<open>A property of a task that survives every assignment a worker makes: any status but
  \<open>SUCCESS\<close>, a detail, a mode, a timestamp, and one more retry while the bound is not reached.\<close>

definition steady :: "int \<Rightarrow> (task \<Rightarrow> bool) \<Rightarrow> bool" where
  "steady mr G =
     (\<forall>t. G t \<longrightarrow>
        (\<forall>s. s \<noteq> SUCCESS \<longrightarrow> G (t\<lparr>status := s\<rparr>)) \<and> (\<forall>d. G (t\<lparr>status_detail := d\<rparr>))
        \<and> (\<forall>m. G (t\<lparr>mode := m\<rparr>)) \<and> (\<forall>u. G (t\<lparr>updated_at := u\<rparr>))
        \<and> (retry_count t < mr \<longrightarrow> G (t\<lparr>retry_count := retry_count t + 1\<rparr>)))"

abbreviation keeps_task :: "obj \<Rightarrow> (task \<Rightarrow> bool) \<Rightarrow> ('r, 'a) prog \<Rightarrow> bool" where
  "keeps_task x G m \<equiv> keeps (on_heap (\<lambda>h. G (h x))) m"

lemma keeps_touch:
  assumes "steady mr G"
  shows "keeps_task x G (touch E x)"
  using assms unfolding touch_def
  by (intro keeps_intros keeps_heap_assign) (simp add: steady_def)

lemma keeps_transition:
  assumes "steady mr G" "s \<noteq> SUCCESS"
  shows "keeps_task x G (transition E x s d)"
  using assms unfolding transition_def
  by (intro keeps_intros keeps_heap_assign keeps_touch [OF assms(1)]) (simp_all add: steady_def)

lemma keeps_decide:
  assumes "steady mr G"
  shows "keeps_task x G (decide E S x)"
  using assms unfolding decide_def Let_def checked_def apply_mode_def
  by (intro keeps_intros keeps_heap_assign keeps_touch [OF assms]) (simp_all add: steady_def)

context task_queue
begin

lemma keeps_queue [keeps_intros]:
  "keeps (on_heap P) (wq_update Q th x)" "keeps (on_heap P) (wq_enqueue Q x)"
  by (simp_all add: keeps_def on_heap_def update_heap enqueue_heap)

lemma keeps_to_status:
  assumes "w_queue W = Q" "steady mr G" "s \<noteq> SUCCESS"
  shows "keeps_task x G (to_status E W x s d)"
  unfolding to_status_def assms(1)
  by (intro keeps_intros keeps_transition [OF assms(2,3)])

lemma keeps_close_of [keeps_intros]: "keeps (on_heap P) (close_of E x)"
  unfolding close_of_def by (intro keeps_intros)

lemma keeps_retry:
  assumes "steady mr G" "keeps_task x G m" "keeps_task x G k"
  shows "keeps_task x G (py_bind (load x) (\<lambda>t. if retry_count t < mr
      then py_then (assign x (\<lambda>t. t\<lparr>retry_count := retry_count t + 1\<rparr>)) m else k))"
  using assms by (auto simp: keeps_def on_heap_def steady_def py_simps)

lemma keeps_handle_retriable:
  assumes "w_queue W = Q" "steady (w_max_retries W) G"
  shows "keeps_task x G (handle_retriable E W x e)"
proof -
  have eq: "handle_retriable E W x e =
      py_bind (load x) (\<lambda>t. if retry_count t < w_max_retries W
        then py_then (assign x (\<lambda>t. t\<lparr>retry_count := retry_count t + 1\<rparr>))
          (py_bind (load x) (\<lambda>t.
             py_then (transition E x INTERRUPTED
                        (''retry '' @ show_int (retry_count t) @ '': '' @ exn_str e))
            (py_then (wq_update (w_queue W) LoopThread x) (wq_enqueue (w_queue W) x))))
        else
          py_bind (load x) (\<lambda>t.
             py_then (transition E x FAILED
                        (''max retries ('' @ show_int (w_max_retries W) @ '') exceeded: '' @ exn_str e))
            (py_then (wq_update (w_queue W) LoopThread x) (bus_close E (task_id t)))))"
    by (rule ext) (simp add: handle_retriable_def py_simps)
  show ?thesis
    unfolding eq assms(1)
    by (intro keeps_retry keeps_intros keeps_transition [OF assms(2)] assms) simp_all
qed

lemma keeps_handlers:
  assumes "w_queue W = Q" "steady (w_max_retries W) G"
  shows "keeps_task x G (run_stream_handlers E W x e)"
  using assms unfolding run_stream_handlers_def
  by (cases e) (auto intro!: keeps_intros keeps_to_status [OF assms] keeps_handle_retriable [OF assms])

lemma keeps_run_streaming:
  assumes "w_queue W = Q" "steady (w_max_retries W) G"
  shows "keeps_task x G (run_streaming E W ft x md eng)"
proof -
  have "keeps_task x G (py_bind (run_stream_handlers E W x e)
      (\<lambda>close. if close then close_of E x else py_return ()))" for e
    using assms by (intro keeps_intros keeps_handlers)
  then show ?thesis by (simp add: keeps_def run_streaming_run)
qed

lemma keeps_run_locked:
  assumes "w_queue W = Q" "steady (w_max_retries W) G"
  shows "keeps_task x G (run_locked E W ft x)"
  unfolding run_locked_def
  by (intro keeps_intros keeps_to_status [OF assms] keeps_decide [OF assms(2)]
      keeps_run_streaming [OF assms]) simp_all

lemma keeps_execute:
  assumes "w_queue W = Q" "steady (w_max_retries W) G"
  shows "keeps_task x G (execute E W ft beats x)"
proof -
  have "keeps_task x G (case e of
      LockStolenError _ \<Rightarrow> handle_retriable E W x
        (RetriableError ''distributed lock was stolen during execution'')
    | _ \<Rightarrow> py_raise e)" for e
    using keeps_handle_retriable [OF assms] by (cases e) (auto intro: keeps_intros)
  then show ?thesis
    unfolding execute_def using keeps_queue keeps_run_locked [OF assms] assms(1)
    by (intro keeps_intros) auto
qed

text \<open>A task that was not successful is not successful after an execution.\<close>

lemma execute_not_success:
  assumes "w_queue W = Q" "status (heap w x) \<noteq> SUCCESS"
  shows "status (heap (snd (execute E W ft beats x w)) x) \<noteq> SUCCESS"
proof -
  have "steady (w_max_retries W) (\<lambda>t. status t \<noteq> SUCCESS)" by (simp add: steady_def)
  from keepsD [OF keeps_execute [OF assms(1) this]] assms(2) show ?thesis
    by (simp add: on_heap_def)
qed

lemma execute_identity:
  assumes "w_queue W = Q"
  shows "same_identity (heap w x) (heap (snd (execute E W ft beats x w)) x)"
proof -
  have "steady (w_max_retries W) (same_identity (heap w x))"
    by (simp add: steady_def same_identity_def)
  from keepsD [OF keeps_execute [OF assms this]] show ?thesis
    by (simp add: on_heap_def)
qed

lemma execute_retry_bound:
  assumes "w_queue W = Q" "retry_count (heap w x) \<le> w_max_retries W"
  shows "retry_count (heap w x) \<le> retry_count (heap (snd (execute E W ft beats x w)) x)
    \<and> retry_count (heap (snd (execute E W ft beats x w)) x) \<le> w_max_retries W"
proof -
  have "steady (w_max_retries W)
      (\<lambda>t. retry_count (heap w x) \<le> retry_count t \<and> retry_count t \<le> w_max_retries W)"
    by (simp add: steady_def)
  from keepsD [OF keeps_execute [OF assms(1) this]] assms(2) show ?thesis
    by (simp add: on_heap_def)
qed

end

section \<open>The Redis queue\<close>

lemma lock_key_differs [simp]:
  "lock_key p \<noteq> task_key i" "task_key i \<noteq> lock_key p" "lock_key p \<noteq> queue_key"
  "queue_key \<noteq> lock_key p" "lock_key p \<noteq> digest_key E q r" "digest_key E q r \<noteq> lock_key p"
  "lock_key p \<noteq> project_tasks_key q" "project_tasks_key q \<noteq> lock_key p"
  by (simp_all add: lock_key_def task_key_def queue_key_def digest_key_def digest_entry_def
      project_tasks_key_def)

text \<open>A task that has just been marked \<open>RUNNING\<close>.\<close>

definition running_task :: "'r env \<Rightarrow> nat \<Rightarrow> task_mode \<Rightarrow> task \<Rightarrow> task" where
  "running_task E n md t =
     t\<lparr>mode := md, status := RUNNING, status_detail := ''mode='' @ mode_value md,
       updated_at := time_at E n\<rparr>"

text \<open>With the Redis store the write of every transition raises.\<close>

lemma redis_to_status:
  assumes "w_queue W = redis_queue E"
  shows "to_status E W x s d w =
    (Inl TimeoutError, (snd (transition E x s d w))\<lparr>pending := pending w @ [AsyncUpdate x]\<rparr>)"
  by (simp add: to_status_def assms redis_queue_def py_then_def py_bind_def transition_run
      store_update_run)

lemma redis_run_locked_raises:
  assumes "w_queue W = redis_queue E"
  shows "\<exists>e. fst (run_locked E W ft x w) = Inl e"
proof -
  let ?t = "heap w x"
  let ?get = "factory_get E (or_none (work_dir ?t)) (or_none (config_json ?t))"
  show ?thesis
  proof (cases "fst (?get w)")
    case (Inl e)
    then show ?thesis
      by (auto simp: run_locked_def py_simps redis_to_status [OF assms])
  next
    case (Inr pair)
    obtain eng sched where pair: "pair = (eng, sched)" by (cases pair)
    let ?w = "snd (?get w)"
    show ?thesis
    proof (cases "fst (decide E sched x ?w)")
      case (Inl e)
      with Inr pair show ?thesis
        by (auto simp: run_locked_def py_simps redis_to_status [OF assms])
    next
      case md: (Inr md)
      with Inr pair show ?thesis
        by (auto simp: run_locked_def py_simps redis_to_status [OF assms])
    qed
  qed
qed

lemma redis_handle_retriable_raises:
  assumes "w_queue W = redis_queue E"
  shows "fst (handle_retriable E W x e w) = Inl TimeoutError"
  by (simp add: handle_retriable_def assms redis_queue_def py_simps transition_run store_update_run)

lemma py_finally_raises: "fst (m w) = Inl e \<Longrightarrow> \<exists>e'. fst (py_finally m f w) = Inl e'"
  by (simp add: py_finally_def split: sum.split)

lemma redis_execute_raises:
  assumes "w_queue W = redis_queue E"
    and "fst (acquire_lock E (project_name (heap w x)) (uuid_at E (ticks w)) (lock_ttl (settings E))
           (w\<lparr>ticks := Suc (ticks w)\<rparr>)) = Inr True"
  shows "\<exists>e. fst (execute E W ft beats x w) = Inl e"
proof -
  let ?m = "py_try (run_locked E W ft x)
      (\<lambda>e. case e of
             LockStolenError _ \<Rightarrow> handle_retriable E W x
               (RetriableError ''distributed lock was stolen during execution'')
           | _ \<Rightarrow> py_raise e)"
  have "\<exists>e. fst (?m v) = Inl e" for v
  proof -
    obtain e where "fst (run_locked E W ft x v) = Inl e"
      using redis_run_locked_raises [OF assms(1)] by blast
    then show ?thesis
      by (cases e) (simp_all add: py_simps redis_handle_retriable_raises [OF assms(1)])
  qed
  then have "\<exists>e. fst (py_finally ?m f v) = Inl e" for f v
    by (meson py_finally_raises)
  then show ?thesis
    using assms(2) by (simp add: execute_def py_bind_def new_uuid_def load_def)
qed

section \<open>Locks are left as they were found\<close>

definition lock_state :: "('r \<Rightarrow> keyspace) \<Rightarrow> (string \<Rightarrow> rval option) \<Rightarrow> 'r world \<Rightarrow> bool" where
  "lock_state view L w =
     (client_ready w \<and> (\<forall>p. ks_keys (view (svc w)) (lock_key p) = L p))"

lemma keeps_lock_state_local [keeps_intros]:
  "keeps (lock_state view L) (new_uuid E)" "keeps (lock_state view L) (now E)"
  "keeps (lock_state view L) (assign x f)" "keeps (lock_state view L) (factory_get E wd cj)"
proof -
  show "keeps (lock_state view L) (factory_get E wd cj)"
    unfolding keeps_def
  proof (intro allI impI)
    fix w assume "lock_state view L w"
    then show "lock_state view L (snd (factory_get E wd cj w))"
      by (cases rule: factory_get_cases [of w E wd cj]) (simp_all add: lock_state_def)
  qed
qed (simp_all add: keeps_def lock_state_def py_simps)

lemma keeps_lock_transition [keeps_intros]: "keeps (lock_state view L) (transition E x s d)"
  unfolding transition_def touch_def by (intro keeps_intros)

lemma keeps_lock_decide [keeps_intros]: "keeps (lock_state view L) (decide E S x)"
  unfolding decide_def Let_def checked_def apply_mode_def touch_def by (intro keeps_intros)

context deployment
begin

lemma keeps_lock_bus [keeps_intros]:
  "keeps (lock_state view L) (bus_close E i)" "keeps (lock_state view L) (bus_publish E i ev)"
proof -
  show "keeps (lock_state view L) (bus_close E i)"
    by (simp add: keeps_def lock_state_def bus_close_run redis_only_frame(1) redis_only_bus
        cmd_publish_def)
  show "keeps (lock_state view L) (bus_publish E i ev)"
    unfolding keeps_def
  proof (intro allI impI)
    fix w :: "'r world" assume w: "lock_state view L w"
    show "lock_state view L (snd (bus_publish E i ev w))"
    proof (cases "event_payload ev")
      case (Inl e)
      with w show ?thesis by (simp add: lock_state_def bus_publish_refused)
    next
      case (Inr j)
      with w show ?thesis
        by (simp add: lock_state_def bus_publish_run redis_only_frame(1) redis_only_bus
            cmd_publish_def)
    qed
  qed
qed

lemma keeps_lock_update [keeps_intros]: "keeps (lock_state view L) (async_update E x)"
  by (simp add: keeps_def lock_state_def async_update_run updated_keys)

lemma keeps_lock_pending [keeps_intros]: "keeps (lock_state view L) (run_pending E)"
proof -
  have c: "keeps (lock_state view L) (run_coro E c)" for c
    by (cases c) (simp_all add: keeps_intros)
  have p: "keeps (lock_state view L) (py_put (\<lambda>w. w\<lparr>pending := []\<rparr>))"
    by (simp add: keeps_def lock_state_def py_simps)
  show ?thesis
    unfolding run_pending_def by (intro keeps_intros p c)
qed

lemma keeps_lock_heartbeat [keeps_intros]:
  assumes "0 < lock_ttl (settings E)"
  shows "keeps (lock_state view L) (heartbeat E p tok n)"
proof (induction n)
  case (Suc n)
  have "keeps (lock_state view L) (refresh_lock E p tok (lock_ttl (settings E)))"
    using assms by (auto simp: keeps_def lock_state_def lock_defs py_simps cmd_get_def cmd_expire_def
        split: option.splits rval.splits)
  with Suc show ?case by (auto intro!: keeps_intros)
qed (simp add: keeps_intros)

sublocale redis_locks: lock_safe_queue "redis_queue E" view
proof
  show "client_ready (snd (wq_update (redis_queue E) th x w)) = client_ready w
      \<and> (client_ready w \<longrightarrow> ks_keys (view (svc (snd (wq_update (redis_queue E) th x w)))) (lock_key p)
          = ks_keys (view (svc w)) (lock_key p))" for th x w p
    by (cases th) (simp_all add: redis_queue_def store_update_run)
  have "fst (r_lpush (redis E) queue_key v r) = fst (cmd_lpush queue_key v (view r))" for v r
    by simp
  then show "client_ready (snd (wq_enqueue (redis_queue E) x w)) = client_ready w
      \<and> (client_ready w \<longrightarrow> ks_keys (view (svc (snd (wq_enqueue (redis_queue E) x w)))) (lock_key p)
          = ks_keys (view (svc w)) (lock_key p))" for x w p
    by (auto simp: redis_queue_def enqueue_def py_simps cmd_lpush_def split: option.splits rval.splits)
qed

lemma keeps_lock_queue:
  assumes "lock_safe_queue Q view"
  shows "keeps (lock_state view L) (wq_update Q th x)" "keeps (lock_state view L) (wq_enqueue Q x)"
  using lock_safe_queue.update_locks [OF assms] lock_safe_queue.enqueue_locks [OF assms]
  by (simp_all add: keeps_def lock_state_def)

lemma keeps_lock_retriable:
  assumes "lock_safe_queue (w_queue W) view"
  shows "keeps (lock_state view L) (handle_retriable E W x e)"
  unfolding handle_retriable_def by (intro keeps_intros keeps_lock_queue [OF assms])

lemma keeps_lock_run_locked:
  assumes "lock_safe_queue (w_queue W) view"
  shows "keeps (lock_state view L) (run_locked E W ft x)"
proof -
  have st: "keeps (lock_state view L) (to_status E W x s d)" for s d
    unfolding to_status_def by (intro keeps_intros keeps_lock_queue [OF assms])
  have cl: "keeps (lock_state view L) (close_of E x)"
    unfolding close_of_def by (intro keeps_intros)
  have h: "keeps (lock_state view L) (run_stream_handlers E W x e)" for e
    unfolding run_stream_handlers_def
    by (cases e) (auto intro!: keeps_intros st cl keeps_lock_retriable [OF assms])
  have "keeps (lock_state view L) (py_bind (run_stream_handlers E W x e)
      (\<lambda>close. if close then close_of E x else py_return ()))" for e
    by (intro keeps_intros h cl)
  then have "keeps (lock_state view L) (run_streaming E W ft x md eng)" for md eng
    by (simp add: keeps_def run_streaming_run)
  then show ?thesis
    unfolding run_locked_def by (intro keeps_intros st cl)
qed

lemma acquire_keys:
  assumes "client_ready w" "0 < ttl"
  shows "fst (acquire_lock E p tok ttl w) = Inr (ks_keys (view (svc w)) (lock_key p) = None)"
    and "ks_keys (view (svc (snd (acquire_lock E p tok ttl w)))) =
      (if ks_keys (view (svc w)) (lock_key p) = None
       then (ks_keys (view (svc w)))(lock_key p \<mapsto> RStr tok) else ks_keys (view (svc w)))"
  using assms by (auto simp: acquire_lock_def py_simps cmd_set_def)

lemma release_keys:
  assumes "client_ready w" "ks_keys (view (svc w)) (lock_key p) = Some (RStr tok)"
  shows "fst (release_lock E p tok w) = Inr ()"
    and "ks_keys (view (svc (snd (release_lock E p tok w)))) =
      (ks_keys (view (svc w)))(lock_key p := None)"
  using assms by (simp_all add: lock_defs py_simps cmd_get_def cmd_delete_def)

text \<open>Whatever happens to the task: after an execution every lock is as before it.\<close>

lemma execute_locks:
  assumes w: "client_ready w" and ttl: "0 < lock_ttl (settings E)"
    and safe: "lock_safe_queue (w_queue W) view"
  shows "ks_keys (view (svc (snd (execute E W ft beats x w)))) (lock_key q)
    = ks_keys (view (svc w)) (lock_key q)"
proof -
  let ?L = "\<lambda>p. ks_keys (view (svc w)) (lock_key p)"
  let ?p = "project_name (heap w x)" and ?tok = "uuid_at E (ticks w)"
  let ?w1 = "w\<lparr>ticks := Suc (ticks w)\<rparr>"
  let ?acq = "acquire_lock E ?p ?tok (lock_ttl (settings E))"
  let ?w2 = "snd (?acq ?w1)"
  let ?body = "py_try (run_locked E W ft x)
      (\<lambda>e. case e of
             LockStolenError _ \<Rightarrow> handle_retriable E W x
               (RetriableError ''distributed lock was stolen during execution'')
           | _ \<Rightarrow> py_raise e)"
  let ?wait = "py_try (py_then (run_pending E) (heartbeat E ?p ?tok beats)) (\<lambda>_. py_return ())"
  have acq: "fst (?acq ?w1) = Inr (?L ?p = None)"
    "ks_keys (view (svc ?w2)) = (if ?L ?p = None then (ks_keys (view (svc w)))(lock_key ?p \<mapsto> RStr ?tok)
       else ks_keys (view (svc w)))"
    using acquire_keys [of ?w1 _ ?p ?tok] w ttl by simp_all
  have ready: "client_ready ?w2"
    using w redis_only_frame(1) [of ?acq ?w1]
    by (simp add: acquire_lock_def redis_only_intros)
  have run: "execute E W ft beats x w =
      (if ?L ?p \<noteq> None then wq_enqueue (w_queue W) x ?w2
       else py_finally ?body (py_then ?wait (release_lock E ?p ?tok)) ?w2)"
    using acq(1) by (simp add: execute_def py_bind_def new_uuid_def load_def)
  show ?thesis
  proof (cases "?L ?p = None")
    case False
    have "lock_state view ?L ?w2" using acq(2) False ready by (simp add: lock_state_def)
    then have "lock_state view ?L (snd (wq_enqueue (w_queue W) x ?w2))"
      by (rule keepsD [OF keeps_lock_queue(2) [OF safe]])
    with False run show ?thesis by (simp add: lock_state_def)
  next
    case True
    let ?M = "?L(?p \<mapsto> RStr ?tok)"
    let ?w3 = "snd (?body ?w2)"
    let ?w4 = "snd (?wait ?w3)"
    have h: "keeps (lock_state view ?M) (case e of
        LockStolenError _ \<Rightarrow> handle_retriable E W x
          (RetriableError ''distributed lock was stolen during execution'')
      | _ \<Rightarrow> py_raise e)" for e
      by (cases e) (auto intro!: keeps_intros keeps_lock_retriable [OF safe])
    have "lock_state view ?M ?w2" using acq(2) True ready by (simp add: lock_state_def)
    then have "lock_state view ?M ?w3"
      by (rule keepsD [rotated]) (intro keeps_intros keeps_lock_run_locked [OF safe] h)
    then have w4: "lock_state view ?M ?w4"
      by (rule keepsD [rotated]) (intro keeps_intros ttl)
    then have "ks_keys (view (svc (snd (release_lock E ?p ?tok ?w4)))) (lock_key q) = ?L q"
      "fst (release_lock E ?p ?tok ?w4) = Inr ()"
      using release_keys [of ?w4 ?p ?tok] True by (simp_all add: lock_state_def)
    moreover have "fst (?wait ?w3) = Inr ()"
      by (simp add: py_simps split: sum.split)
    ultimately show ?thesis
      using run True by (simp add: py_finally_def py_then_def py_bind_def)
  qed
qed

text \<open>With the Redis queue: a task that reaches \<open>RUNNING\<close> stays there, in no queue, and the
  exception that ends the worker is the timeout of its own write.\<close>

lemma redis_run_locked:
  assumes W: "w_queue W = redis_queue E"
    and cached: "map_of (engine_cache w)
      (cache_key E (or_none (work_dir (heap w x))) (or_none (config_json (heap w x)))) = Some (eng, sched)"
    and checks: "sync_checks sched"
    and md: "decision_table (requirement (heap w x) = []) (has_project sched (project_name (heap w x)))
      (has_checkpoint sched (project_name (heap w x))) = Some md"
  shows "run_locked E W ft x w =
    (Inl TimeoutError,
     w\<lparr>heap := (heap w)(x := running_task E (Suc (ticks w)) md (heap w x)),
       ticks := Suc (Suc (ticks w)), pending := pending w @ [AsyncUpdate x]\<rparr>)"
proof -
  have "factory_get E (or_none (work_dir (heap w x))) (or_none (config_json (heap w x))) w
      = (Inr (eng, sched), w)"
    using cached by (cases rule: factory_get_cases [of w E "or_none (work_dir (heap w x))"
      "or_none (config_json (heap w x))"]) simp_all
  moreover have "decide E sched x w = apply_mode E x md w"
    using md by (simp add: decide_run [OF checks])
  ultimately show ?thesis
    by (simp add: run_locked_def py_bind_def py_try_def py_then_def load_def py_return_def
        apply_mode_run redis_to_status [OF W] transition_run running_task_def)
qed

lemma redis_execute_stuck:
  assumes w: "client_ready w" "pending w = []" and ttl: "0 < lock_ttl (settings E)"
    and free: "ks_keys (view (svc w)) (lock_key (project_name (heap w x))) = None"
    and W: "w_queue W = redis_queue E"
    and cached: "map_of (engine_cache w)
      (cache_key E (or_none (work_dir (heap w x))) (or_none (config_json (heap w x)))) = Some (eng, sched)"
    and checks: "sync_checks sched"
    and md: "decision_table (requirement (heap w x) = []) (has_project sched (project_name (heap w x)))
      (has_checkpoint sched (project_name (heap w x))) = Some md"
  shows "fst (execute E W ft beats x w) = Inl TimeoutError
    \<and> client_ready (snd (execute E W ft beats x w))
    \<and> ks_keys (view (svc (snd (execute E W ft beats x w)))) =
        (ks_keys (view (svc w)))(task_key (task_id (heap w x)) \<mapsto>
          RStr (enc E (running_task E (Suc (Suc (ticks w))) md (heap w x))))"
proof -
  let ?t = "heap w x"
  let ?p = "project_name ?t" and ?tok = "uuid_at E (ticks w)"
  let ?w1 = "w\<lparr>ticks := Suc (ticks w)\<rparr>"
  let ?acq = "acquire_lock E ?p ?tok (lock_ttl (settings E))"
  let ?w2 = "snd (?acq ?w1)"
  let ?t' = "running_task E (Suc (Suc (ticks w))) md ?t"
  let ?w3 = "snd (run_locked E W ft x ?w2)"
  let ?beat = "heartbeat E ?p ?tok beats"
  let ?w4 = "snd (?beat (snd (run_pending E ?w3)))"
  have acq: "fst (?acq ?w1) = Inr True"
    "ks_keys (view (svc ?w2)) = (ks_keys (view (svc w)))(lock_key ?p \<mapsto> RStr ?tok)"
    using acquire_keys [of ?w1 _ ?p ?tok] w ttl free by simp_all
  have "redis_only ?acq"
    unfolding acquire_lock_def by (intro redis_only_intros)
  note frame = redis_only_frame [OF this, of ?w1]
  have run: "run_locked E W ft x ?w2 = (Inl TimeoutError,
      ?w2\<lparr>heap := (heap w)(x := ?t'), ticks := Suc (Suc (Suc (ticks w))), pending := [AsyncUpdate x]\<rparr>)"
    using redis_run_locked [OF W, of ?w2 x eng sched md ft] cached checks md w(2)
    by (simp add: frame)
  have ready: "client_ready ?w3" using run frame w(1) by simp
  have "view (svc (snd (run_pending E ?w3))) = updated E ?t' (view (svc ?w2))"
    using run_pending_update [OF ready, of x] run by simp
  moreover have "\<not> is_terminal ?t'" "task_id ?t' = task_id ?t"
    by (simp_all add: running_task_def is_terminal_def)
  ultimately have k3: "ks_keys (view (svc (snd (run_pending E ?w3))))
      = (ks_keys (view (svc w)))(lock_key ?p \<mapsto> RStr ?tok, task_key (task_id ?t) \<mapsto> RStr (enc E ?t'))"
    using acq(2) by (simp add: updated_keys)
  let ?P = "\<lambda>v. client_ready v \<and> ks_keys (view (svc v)) = ks_keys (view (svc (snd (run_pending E ?w3))))"
  have "keeps ?P ?beat"
  proof (induction beats)
    case (Suc n)
    have "keeps ?P (refresh_lock E ?p ?tok (lock_ttl (settings E)))"
      using ttl by (auto simp: keeps_def lock_defs py_simps cmd_get_def cmd_expire_def
          split: option.splits rval.splits)
    with Suc show ?case by (auto intro!: keeps_intros)
  qed (simp add: keeps_intros)
  then have w4: "client_ready ?w4"
    "ks_keys (view (svc ?w4)) = ks_keys (view (svc (snd (run_pending E ?w3))))"
    using ready by (auto simp: keeps_def run_pending_frame)
  have rel: "fst (release_lock E ?p ?tok ?w4) = Inr ()"
    "ks_keys (view (svc (snd (release_lock E ?p ?tok ?w4))))
      = (ks_keys (view (svc w)))(task_key (task_id ?t) \<mapsto> RStr (enc E ?t'))"
    using release_keys [OF w4(1), of ?p ?tok] free unfolding w4(2) k3
    by (auto simp: fun_eq_iff)
  have wait: "py_try (py_then (run_pending E) ?beat) (\<lambda>_. py_return ()) ?w3 = (Inr (), ?w4)"
    by (simp add: py_try_def py_then_def py_bind_def run_pending_returns py_return_def split: sum.split)
  have "execute E W ft beats x w = (Inl TimeoutError, snd (release_lock E ?p ?tok ?w4))"
    using acq(1) run wait rel(1)
    by (simp add: execute_def py_bind_def new_uuid_def load_def py_finally_def py_then_def py_try_def
        py_raise_def)
  moreover have "redis_only (release_lock E ?p ?tok)"
    unfolding release_lock_def by (intro redis_only_intros)
  ultimately show ?thesis using rel(2) w4(1) by (simp add: redis_only_frame)
qed

end

section \<open>The in-process queue: what a run makes of its task\<close>

text \<open>
  The outcome of a stream that ended with an exception, for a task with retry count \<open>rc\<close> and a queue
  \<open>q\<close>: how \<open>_run_locked\<close> ends, the status, detail and retry count of the task, and the queue.
\<close>

type_synonym outcome = "(exn + unit) \<times> task_status \<times> string \<times> int \<times> obj list"

definition verdict :: "int \<Rightarrow> task_mode \<Rightarrow> exn \<Rightarrow> int \<Rightarrow> obj \<Rightarrow> obj list \<Rightarrow> outcome" where
  "verdict mr md e rc x q =
     (case e of
        FatalError s \<Rightarrow> (Inr (), FAILED, s, rc, q)
      | RetriableError s \<Rightarrow>
          (if rc < mr
           then (Inr (), INTERRUPTED, ''retry '' @ show_int (rc + 1) @ '': '' @ s, rc + 1, q @ [x])
           else (Inr (), FAILED, ''max retries ('' @ show_int mr @ '') exceeded: '' @ s, rc, q))
      | LockStolenError s \<Rightarrow> (Inl e, RUNNING, ''mode='' @ mode_value md, rc, q)
      | CancelledError d \<Rightarrow> (Inl e, INTERRUPTED, ''worker cancelled'', rc, q)
      | _ \<Rightarrow> (Inr (), FAILED, ''unexpected: '' @ exn_str e, rc, q))"

definition observed :: "obj \<Rightarrow> (exn + unit) \<times> 'r world \<Rightarrow> outcome" where
  "observed x res =
     (fst res, status (heap (snd res) x), status_detail (heap (snd res) x),
      retry_count (heap (snd res) x), mem_queue (snd res))"

lemma stream_error_cong:
  "requirement t = requirement u \<Longrightarrow> project_name t = project_name u \<Longrightarrow>
   stream_error E ft md eng t = stream_error E ft md eng u"
  by (simp add: stream_error_def iter_events_def)

lemma inproc_to_status:
  assumes "w_queue W = inproc_queue"
  shows "to_status E W x s d w =
    (Inr (), (snd (transition E x s d w))\<lparr>mem_tasks := dict_set (mem_tasks w) (task_id (heap w x)) x\<rparr>)"
  by (simp add: to_status_def assms inproc_queue_def mem_update_def py_simps transition_run)

lemmas bus_close_frame [simp] = redis_only_frame [OF redis_only_bus(1)]

context deployment
begin

lemma inproc_retriable:
  assumes W: "w_queue W = inproc_queue" and w: "client_ready w"
  shows "observed x (handle_retriable E W x (RetriableError s) w)
    = verdict (w_max_retries W) md (RetriableError s) (retry_count (heap w x)) x (mem_queue w)"
  by (simp add: handle_retriable_def W inproc_queue_def mem_update_def mem_enqueue_def transition_run
      py_simps verdict_def observed_def bus_close_run(1) w)

text \<open>The handlers of the stream and the closing of the channel, on a task that runs.\<close>

lemma inproc_handlers:
  assumes W: "w_queue W = inproc_queue" and w: "client_ready w"
    and t: "status (heap w x) = RUNNING" "status_detail (heap w x) = ''mode='' @ mode_value md"
  shows "observed x (py_bind (run_stream_handlers E W x e)
      (\<lambda>close. if close then close_of E x else py_return ()) w)
    = verdict (w_max_retries W) md e (retry_count (heap w x)) x (mem_queue w)"
proof (cases "\<exists>s. e = RetriableError s")
  case True
  then obtain s where e: "e = RetriableError s" by blast
  let ?w = "snd (bus_close E (task_id (heap w x)) w)"
  have "observed x (handle_retriable E W x e ?w)
      = verdict (w_max_retries W) md e (retry_count (heap w x)) x (mem_queue w)"
    using inproc_retriable [OF W, of ?w x s] w e by simp
  then show ?thesis
    using w e
    by (auto simp: run_stream_handlers_def close_of_def py_simps bus_close_run(1) observed_def
        split: sum.split)
next
  case False
  then show ?thesis
    using w t
    by (cases e) (simp_all add: run_stream_handlers_def inproc_to_status [OF W] transition_run
        close_of_def py_simps bus_close_run(1) observed_def verdict_def)
qed

lemma inproc_run_locked:
  assumes W: "w_queue W = inproc_queue" and w: "client_ready w"
    and cached: "map_of (engine_cache w)
      (cache_key E (or_none (work_dir (heap w x))) (or_none (config_json (heap w x)))) = Some (eng, sched)"
    and checks: "sync_checks sched"
    and md: "decision_table (requirement (heap w x) = []) (has_project sched (project_name (heap w x)))
      (has_checkpoint sched (project_name (heap w x))) = Some md"
  shows "observed x (run_locked E W ft x w)
    = verdict (w_max_retries W) md (stream_error E ft md eng (heap w x)) (retry_count (heap w x)) x
        (mem_queue w)"
proof -
  let ?w = "w\<lparr>heap := (heap w)(x := running_task E (Suc (ticks w)) md (heap w x)),
      ticks := Suc (Suc (ticks w)), mem_tasks := dict_set (mem_tasks w) (task_id (heap w x)) x\<rparr>"
  have "factory_get E (or_none (work_dir (heap w x))) (or_none (config_json (heap w x))) w
      = (Inr (eng, sched), w)"
    using cached by (cases rule: factory_get_cases [of w E "or_none (work_dir (heap w x))"
      "or_none (config_json (heap w x))"]) simp_all
  moreover have "decide E sched x w = apply_mode E x md w"
    using md by (simp add: decide_run [OF checks])
  ultimately have "run_locked E W ft x w = run_streaming E W ft x md eng ?w"
    by (simp add: run_locked_def py_bind_def py_try_def py_then_def load_def py_return_def
        apply_mode_run inproc_to_status [OF W] transition_run running_task_def)
  also have "\<dots> = py_bind (run_stream_handlers E W x (stream_error E ft md eng (heap ?w x)))
      (\<lambda>close. if close then close_of E x else py_return ()) ?w"
    by (rule run_streaming_run)
  also have "stream_error E ft md eng (heap ?w x) = stream_error E ft md eng (heap w x)"
    by (rule stream_error_cong) (simp_all add: running_task_def)
  finally have "run_locked E W ft x w
    = py_bind (run_stream_handlers E W x (stream_error E ft md eng (heap w x)))
        (\<lambda>close. if close then close_of E x else py_return ()) ?w" .
  moreover have "observed x (py_bind (run_stream_handlers E W x e)
      (\<lambda>close. if close then close_of E x else py_return ()) ?w)
    = verdict (w_max_retries W) md e (retry_count (heap w x)) x (mem_queue w)" for e
    using inproc_handlers [OF W, of ?w x md e] w by (simp add: running_task_def)
  ultimately show ?thesis by simp
qed

text \<open>The two ways to fail before the stream.\<close>

lemma inproc_engine_fails:
  assumes W: "w_queue W = inproc_queue" and w: "client_ready w"
    and err: "fst (factory_get E (or_none (work_dir (heap w x))) (or_none (config_json (heap w x))) w)
      = Inl e" "is_Exception e"
  shows "observed x (run_locked E W ft x w)
    = (Inr (), FAILED, ''engine initialisation failed: '' @ exn_str e, retry_count (heap w x),
       mem_queue w)"
proof -
  obtain n where "factory_get E (or_none (work_dir (heap w x))) (or_none (config_json (heap w x))) w
      = (Inl e, w\<lparr>ticks := n\<rparr>)"
    using err(1) by (cases rule: factory_get_cases [of w E "or_none (work_dir (heap w x))"
      "or_none (config_json (heap w x))"]) auto
  then show ?thesis
    using w err(2)
    by (simp add: run_locked_def py_simps inproc_to_status [OF W] transition_run close_of_def
        bus_close_run(1) observed_def)
qed

lemma inproc_no_checkpoint:
  assumes W: "w_queue W = inproc_queue" and w: "client_ready w"
    and cached: "map_of (engine_cache w)
      (cache_key E (or_none (work_dir (heap w x))) (or_none (config_json (heap w x)))) = Some (eng, sched)"
    and checks: "sync_checks sched"
    and none: "decision_table (requirement (heap w x) = []) (has_project sched (project_name (heap w x)))
      (has_checkpoint sched (project_name (heap w x))) = None"
  shows "observed x (run_locked E W ft x w)
    = (Inr (), FAILED, no_checkpoint_message (project_name (heap w x)), retry_count (heap w x),
       mem_queue w)"
proof -
  have "factory_get E (or_none (work_dir (heap w x))) (or_none (config_json (heap w x))) w
      = (Inr (eng, sched), w)"
    using cached by (cases rule: factory_get_cases [of w E "or_none (work_dir (heap w x))"
      "or_none (config_json (heap w x))"]) simp_all
  moreover have "decide E sched x w
      = (Inl (ValueError (no_checkpoint_message (project_name (heap w x)))), w)"
    using none by (simp add: decide_run [OF checks])
  ultimately show ?thesis
    using w
    by (simp add: run_locked_def py_simps inproc_to_status [OF W] transition_run close_of_def
        bus_close_run(1) observed_def)
qed

end

section \<open>Every branch of a run\<close>

text \<open>
  What a run makes of its task, by what the factory answered for it (\<open>resolved\<close>): with a store whose
  update works, and with the Redis store, where the first write raises.
\<close>

definition task_mode_of :: "scheduler \<Rightarrow> task \<Rightarrow> task_mode option" where
  "task_mode_of sched t =
     decision_table (requirement t = []) (has_project sched (project_name t))
       (has_checkpoint sched (project_name t))"

definition run_verdict ::
  "'r env \<Rightarrow> int \<Rightarrow> fate \<Rightarrow> exn + engine \<times> scheduler \<Rightarrow> task \<Rightarrow> obj \<Rightarrow> obj list \<Rightarrow> outcome" where
  "run_verdict E mr ft resolved t x q =
     (case resolved of
        Inl e \<Rightarrow>
          (if is_Exception e
           then (Inr (), FAILED, ''engine initialisation failed: '' @ exn_str e, retry_count t, q)
           else (Inl e, status t, status_detail t, retry_count t, q))
      | Inr (eng, sched) \<Rightarrow>
          (case task_mode_of sched t of
             None \<Rightarrow> (Inr (), FAILED, no_checkpoint_message (project_name t), retry_count t, q)
           | Some md \<Rightarrow> verdict mr md (stream_error E ft md eng t) (retry_count t) x q))"

definition redis_verdict :: "exn + engine \<times> scheduler \<Rightarrow> task \<Rightarrow> obj list \<Rightarrow> outcome" where
  "redis_verdict resolved t q =
     (case resolved of
        Inl e \<Rightarrow>
          (if is_Exception e
           then (Inl TimeoutError, FAILED, ''engine initialisation failed: '' @ exn_str e, retry_count t, q)
           else (Inl e, status t, status_detail t, retry_count t, q))
      | Inr (eng, sched) \<Rightarrow>
          (case task_mode_of sched t of
             None \<Rightarrow> (Inl TimeoutError, FAILED, no_checkpoint_message (project_name t), retry_count t, q)
           | Some md \<Rightarrow> (Inl TimeoutError, RUNNING, ''mode='' @ mode_value md, retry_count t, q)))"

text \<open>Building the engine leaves a cache in which the run finds it.\<close>

lemma run_locked_resolved:
  assumes "factory_get E (or_none (work_dir (heap w x))) (or_none (config_json (heap w x))) w = (Inr pair, v)"
  shows "run_locked E W ft x w = run_locked E W ft x v"
    and "map_of (engine_cache v) (cache_key E (or_none (work_dir (heap w x)))
      (or_none (config_json (heap w x)))) = Some pair"
    and "heap v = heap w" "svc v = svc w" "client_ready v = client_ready w" "pending v = pending w"
      "mem_queue v = mem_queue w"
proof -
  let ?wd = "or_none (work_dir (heap w x))" and ?cj = "or_none (config_json (heap w x))"
  have v: "map_of (engine_cache v) (cache_key E ?wd ?cj) = Some pair \<and> heap v = heap w \<and> svc v = svc w
      \<and> client_ready v = client_ready w \<and> pending v = pending w \<and> mem_queue v = mem_queue w"
    using assms by (cases rule: factory_get_cases [of w E ?wd ?cj]) auto
  then have "factory_get E ?wd ?cj v = (Inr pair, v)"
    by (cases rule: factory_get_cases [of v E ?wd ?cj]) simp_all
  with assms v show "run_locked E W ft x w = run_locked E W ft x v"
    by (simp add: run_locked_def py_bind_def py_try_def load_def py_return_def)
  show "map_of (engine_cache v) (cache_key E ?wd ?cj) = Some pair" "heap v = heap w" "svc v = svc w"
    "client_ready v = client_ready w" "pending v = pending w" "mem_queue v = mem_queue w"
    using v by simp_all
qed

context deployment
begin

lemma inproc_outcome:
  assumes W: "w_queue W = inproc_queue" and w: "client_ready w"
    and checks: "\<And>eng sched. fst (factory_get E (or_none (work_dir (heap w x)))
      (or_none (config_json (heap w x))) w) = Inr (eng, sched) \<Longrightarrow> sync_checks sched"
  shows "observed x (run_locked E W ft x w) = run_verdict E (w_max_retries W) ft
    (fst (factory_get E (or_none (work_dir (heap w x))) (or_none (config_json (heap w x))) w))
    (heap w x) x (mem_queue w)"
proof -
  let ?get = "factory_get E (or_none (work_dir (heap w x))) (or_none (config_json (heap w x))) w"
  show ?thesis
  proof (cases "fst ?get")
    case (Inl e)
    show ?thesis
    proof (cases "is_Exception e")
      case True
      with inproc_engine_fails [OF W w Inl] Inl show ?thesis by (simp add: run_verdict_def)
    next
      case False
      obtain n where "?get = (Inl e, w\<lparr>ticks := n\<rparr>)"
        using Inl by (cases rule: factory_get_cases [of w E "or_none (work_dir (heap w x))"
          "or_none (config_json (heap w x))"]) auto
      with False Inl show ?thesis
        by (simp add: run_locked_def py_simps observed_def run_verdict_def)
    qed
  next
    case (Inr pair)
    obtain eng sched where pair: "pair = (eng, sched)" by (cases pair)
    have "?get = (Inr (eng, sched), snd ?get)" using Inr pair by (simp add: prod_eq_iff)
    note res = run_locked_resolved [OF this]
    have sc: "sync_checks sched" using checks Inr pair by simp
    have ready: "client_ready (snd ?get)" using w res(5) by simp
    show ?thesis
    proof (cases "task_mode_of sched (heap w x)")
      case None
      with inproc_no_checkpoint [OF W ready, of x eng sched ft] res sc Inr pair show ?thesis
        by (simp add: task_mode_of_def run_verdict_def)
    next
      case (Some md)
      with inproc_run_locked [OF W ready, of x eng sched md ft] res sc Inr pair show ?thesis
        by (simp add: task_mode_of_def run_verdict_def)
    qed
  qed
qed

lemma redis_outcome:
  fixes ft :: fate
  assumes W: "w_queue W = redis_queue E"
    and checks: "\<And>eng sched. fst (factory_get E (or_none (work_dir (heap w x)))
      (or_none (config_json (heap w x))) w) = Inr (eng, sched) \<Longrightarrow> sync_checks sched"
  defines "res \<equiv> run_locked E W ft x w"
  shows "observed x res = redis_verdict
      (fst (factory_get E (or_none (work_dir (heap w x))) (or_none (config_json (heap w x))) w))
      (heap w x) (mem_queue w)
    \<and> svc (snd res) = svc w \<and> client_ready (snd res) = client_ready w
    \<and> task_id (heap (snd res) x) = task_id (heap w x)
    \<and> pending (snd res) = pending w @ (if fst res = Inl TimeoutError then [AsyncUpdate x] else [])"
proof -
  let ?get = "factory_get E (or_none (work_dir (heap w x))) (or_none (config_json (heap w x))) w"
  show ?thesis
  proof (cases "fst ?get")
    case (Inl e)
    obtain n where g: "?get = (Inl e, w\<lparr>ticks := n\<rparr>)"
      using Inl by (cases rule: factory_get_cases [of w E "or_none (work_dir (heap w x))"
        "or_none (config_json (heap w x))"]) auto
    show ?thesis
    proof (cases "is_Exception e")
      case True
      with g show ?thesis
        by (simp add: res_def run_locked_def py_simps redis_to_status [OF W] transition_run
            observed_def redis_verdict_def)
    next
      case False
      then have "e \<noteq> TimeoutError" by auto
      with False g show ?thesis
        by (simp add: res_def run_locked_def py_simps observed_def redis_verdict_def)
    qed
  next
    case (Inr pair)
    obtain eng sched where pair: "pair = (eng, sched)" by (cases pair)
    obtain u where g: "?get = (Inr (eng, sched), u)" using Inr pair by (cases ?get) simp
    note v = run_locked_resolved [OF g]
    have sc: "sync_checks sched" using checks Inr pair by simp
    show ?thesis
    proof (cases "task_mode_of sched (heap w x)")
      case None
      have "factory_get E (or_none (work_dir (heap w x))) (or_none (config_json (heap w x))) u
          = (Inr (eng, sched), u)"
        using v(2) by (cases rule: factory_get_cases [of u E "or_none (work_dir (heap w x))"
          "or_none (config_json (heap w x))"]) simp_all
      moreover have "decide E sched x u
          = (Inl (ValueError (no_checkpoint_message (project_name (heap w x)))), u)"
        using None v(3) by (simp add: decide_run [OF sc] task_mode_of_def)
      ultimately show ?thesis
        using None g v
        by (simp add: res_def run_locked_def py_simps redis_to_status [OF W] transition_run
            observed_def redis_verdict_def)
    next
      case (Some md)
      with redis_run_locked [OF W, of u x eng sched md ft] v sc Inr pair show ?thesis
        by (simp add: task_mode_of_def res_def observed_def redis_verdict_def running_task_def)
    qed
  qed
qed

lemma redis_outcome_written:
  assumes W: "w_queue W = redis_queue E" and w: "client_ready w" "pending w = []"
    and checks: "\<And>eng sched. fst (factory_get E (or_none (work_dir (heap w x)))
      (or_none (config_json (heap w x))) w) = Inr (eng, sched) \<Longrightarrow> sync_checks sched"
    and to: "fst (run_locked E W ft x w) = Inl TimeoutError" and hex: "hex32 (task_id (heap w x))"
  shows "holds E (view (svc (snd (run_pending E (snd (run_locked E W ft x w)))))) (task_id (heap w x))
    (heap (snd (run_locked E W ft x w)) x)"
proof -
  let ?w = "snd (run_locked E W ft x w)"
  note out = redis_outcome [OF W checks, where ft = ft]
  have r: "client_ready ?w" "pending ?w = [AsyncUpdate x]" "task_id (heap ?w x) = task_id (heap w x)"
    using out to w by simp_all
  show ?thesis
    using run_pending_update [OF r(1,2)] r(3) hex by (simp add: holds_def updated_keys)
qed

end

section \<open>Properties\<close>

text \<open>The engine, cache and worker of the examples.\<close>

definition demo_engine :: "exn + iterator \<Rightarrow> engine" where
  "demo_engine res =
     \<lparr>run_stream = (\<lambda>_ _. res), resume_stream = (\<lambda>_ _. res), run_secondary_stream = (\<lambda>_ _. res)\<rparr>"

definition with_engine :: "exn + iterator \<Rightarrow> mem world \<Rightarrow> mem world" where
  "with_engine res w =
     w\<lparr>engine_cache := [(cache_key mem_env (or_none []) (or_none []),
                         (demo_engine res, demo_scheduler False False))]\<rparr>"

definition demo_worker :: "mem work_queue \<Rightarrow> mem worker" where
  "demo_worker Q = \<lparr>w_queue = Q, w_max_retries = 3, w_poll_interval = 1\<rparr>"

lemma demo_simps [simp]:
  "client_ready (with_engine res w) = client_ready w" "heap (with_engine res w) = heap w"
  "pending (with_engine res w) = pending w" "svc (with_engine res w) = svc w"
  "mem_queue (with_engine res w) = mem_queue w" "ticks (with_engine res w) = ticks w"
  "map_of (engine_cache (with_engine res w)) (cache_key mem_env (or_none []) (or_none []))
    = Some (demo_engine res, demo_scheduler False False)"
  "w_queue (demo_worker Q) = Q" "w_max_retries (demo_worker Q) = 3"
  "sync_checks (demo_scheduler False False)"
  "has_project (demo_scheduler a b) p = a" "has_checkpoint (demo_scheduler a b) p = b"
  "decision_table False False c = Some NEW"
  by (simp_all add: with_engine_def demo_worker_def sync_checks_def demo_scheduler_def
      has_project_def has_checkpoint_def says_yes_def)

text \<open>with the Redis store a task that starts never finishes. For a task whose engine is at hand,
  whose mode is decided and whose project is not locked, the execution ends with the \<open>TimeoutError\<close> of
  the write of \<open>RUNNING\<close>; the engine was not run; the only trace in Redis is the record, which says
  \<open>RUNNING\<close>, and the task is in no queue.\<close>

theorem redis_task_stuck_running:
  assumes "deployment E view" "client_ready w" "pending w = []" "0 < lock_ttl (settings E)"
    and "ks_keys (view (svc w)) (lock_key (project_name (heap w x))) = None"
    and "w_queue W = redis_queue E"
    and "map_of (engine_cache w)
      (cache_key E (or_none (work_dir (heap w x))) (or_none (config_json (heap w x)))) = Some (eng, sched)"
    and "sync_checks sched"
    and "decision_table (requirement (heap w x) = []) (has_project sched (project_name (heap w x)))
      (has_checkpoint sched (project_name (heap w x))) = Some md"
  shows "fst (execute E W ft beats x w) = Inl TimeoutError
    \<and> ks_keys (view (svc (snd (execute E W ft beats x w)))) =
        (ks_keys (view (svc w)))(task_key (task_id (heap w x)) \<mapsto>
          RStr (enc E (running_task E (Suc (Suc (ticks w))) md (heap w x))))"
  using deployment.redis_execute_stuck [OF assms] by simp

theorem redis_task_stuck_running_witness:
  "fst (execute mem_env (demo_worker (redis_queue mem_env)) Completes 0 0
     (with_engine (Inr ([], None)) start_world)) = Inl TimeoutError"
  using redis_task_stuck_running [OF memory.deployment_axioms, of "with_engine (Inr ([], None)) start_world"
      0 "demo_worker (redis_queue mem_env)" _ _ NEW Completes 0]
  by simp

text \<open>A turn starts a task when the queue has one and its lock is acquired.\<close>

definition starts_task :: "'r env \<Rightarrow> 'r worker \<Rightarrow> 'r world \<Rightarrow> bool" where
  "starts_task E W w =
     (case fst (wq_dequeue (w_queue W) (w_poll_interval W) w) of
        Inr (Some x) \<Rightarrow>
          (let w' = snd (wq_dequeue (w_queue W) (w_poll_interval W) w)
           in fst (acquire_lock E (project_name (heap w' x)) (uuid_at E (ticks w'))
                (lock_ttl (settings E)) (w'\<lparr>ticks := Suc (ticks w')\<rparr>)) = Inr True)
      | _ \<Rightarrow> False)"

lemma started_turn_crashes:
  assumes "w_queue W = redis_queue E" "starts_task E W w"
  shows "\<exists>e. fst (worker_run E W (turn # turns) w) = Inl e"
proof -
  obtain ft beats where turn: "turn = (ft, beats)" by (cases turn)
  let ?w' = "snd (wq_dequeue (w_queue W) (w_poll_interval W) w)"
  obtain x where x: "fst (wq_dequeue (w_queue W) (w_poll_interval W) w) = Inr (Some x)"
    and acq: "fst (acquire_lock E (project_name (heap ?w' x)) (uuid_at E (ticks ?w'))
                (lock_ttl (settings E)) (?w'\<lparr>ticks := Suc (ticks ?w')\<rparr>)) = Inr True"
    using assms(2) by (auto simp: starts_task_def Let_def split: sum.splits option.splits)
  obtain e where "fst (execute E W ft beats x ?w') = Inl e"
    using redis_execute_raises [OF assms(1) acq] by blast
  then show ?thesis using x by (simp add: turn py_bind_def py_then_def)
qed

context deployment
begin

lemma free_task_starts:
  assumes "client_ready w" "store_inv E (view (svc w))" "0 < lock_ttl (settings E)"
    and W: "w_queue W = redis_queue E" and q: "queue_of (view (svc w)) = q @ [enc E t]"
    and free: "ks_keys (view (svc w)) (lock_key (project_name t)) = None"
  shows "starts_task E W w"
proof -
  let ?w1 = "snd (dequeue E (w_poll_interval W) w)" and ?x = "next_obj w"
  have inv: "queue_inv E (view (svc w))" using assms(2) by (simp add: store_inv_def)
  have deq: "fst (dequeue E (w_poll_interval W) w) = Inr (Some ?x)" "heap ?w1 ?x = t"
    "ks_keys (view (svc ?w1)) (lock_key (project_name t)) = None"
    using dequeue_run(2) [OF assms(1) inv q, of "w_poll_interval W"] free by simp_all
  have "client_ready ?w1" by (rule dequeue_inv(2) [OF assms(1,2)])
  with deq assms(3) show ?thesis
    using acquire_keys(1) [of "?w1\<lparr>ticks := Suc (ticks ?w1)\<rparr>"]
    by (simp add: starts_task_def W redis_queue_def)
qed

end

text \<open>with the Redis store every task kills the worker that takes it. Whatever the queued task is,
  when its project is not locked, the run of the worker that dequeues it ends with an exception.\<close>

theorem redis_task_kills_worker:
  assumes "deployment E view" "client_ready w" "store_inv E (view (svc w))"
    and "0 < lock_ttl (settings E)" "w_queue W = redis_queue E"
    and "queue_of (view (svc w)) = q @ [enc E t]"
    and "ks_keys (view (svc w)) (lock_key (project_name t)) = None"
  shows "\<exists>e. fst (worker_run E W (turn # turns) w) = Inl e"
  by (rule started_turn_crashes [OF assms(5) deployment.free_task_starts [OF assms]])

lemma queued_world_free: "ks_keys (mem_view (svc queued_world)) (lock_key (project_name no_task)) = None"
  unfolding queued_world_view by (simp add: queued_keys saved_world_keys)

theorem redis_task_kills_worker_witness:
  "\<exists>e. fst (worker_run mem_env (demo_worker (redis_queue mem_env)) [(Completes, 0)] queued_world) = Inl e"
  by (rule redis_task_kills_worker [OF memory.deployment_axioms _ queued_world_inv _ _ queued_world_queue
        queued_world_free]) simp_all

text \<open>C36: no task is ever successful. Whatever queue the worker was given (one whose operations leave
  task objects alone), whatever the engine does and however the wait for it ends, a task that was not
  \<open>SUCCESS\<close> before an execution is not \<open>SUCCESS\<close> after it: the thread that consumes the events asks for
  the running loop of a thread that has none.\<close>

theorem never_successful:
  assumes "task_queue (w_queue W)" "status (heap w x) \<noteq> SUCCESS"
  shows "status (heap (snd (execute E W ft beats x w)) x) \<noteq> SUCCESS"
  by (rule task_queue.execute_not_success [OF assms(1) refl assms(2)])

theorem never_successful_witness:
  "status (heap (snd (execute mem_env (demo_worker inproc_queue) Completes 0 0
     (with_engine (Inr ([demo_event], None)) start_world))) 0) \<noteq> SUCCESS"
  by (rule never_successful) (simp_all add: inproc_q.task_queue_axioms)



text \<open>C27: an execution changes a task within bounds. Its id, project, requirement, work directory,
  configuration and creation time stay; its retry count does not go down, and does not pass the
  bound.\<close>

theorem execution_bounds:
  assumes "task_queue (w_queue W)" "retry_count (heap w x) \<le> w_max_retries W"
  shows "same_identity (heap w x) (heap (snd (execute E W ft beats x w)) x)
    \<and> retry_count (heap w x) \<le> retry_count (heap (snd (execute E W ft beats x w)) x)
    \<and> retry_count (heap (snd (execute E W ft beats x w)) x) \<le> w_max_retries W"
  using task_queue.execute_identity [OF assms(1) refl]
    task_queue.execute_retry_bound [OF assms(1) refl assms(2)] by blast

theorem execution_bounds_witness:
  "retry_count (heap (snd (execute mem_env (demo_worker inproc_queue) Completes 0 0
     (with_engine (Inl (RetriableError ''e'')) start_world))) 0) \<le> 3"
  using execution_bounds [of "demo_worker inproc_queue" "with_engine (Inl (RetriableError ''e'')) start_world"
      0 mem_env Completes 0]
  by (simp add: inproc_q.task_queue_axioms)

text \<open>C5: what a run makes of its task, on every branch and with either store; \<open>resolved\<close> is what the
  factory answers for the task, from its cache or newly built, and the checks of the scheduler raise
  no more than an \<open>Exception\<close>. With the Redis store, the one the program uses, the first write of the
  run raises \<open>TimeoutError\<close>: the task object is \<open>FAILED\<close> when the engine cannot be built or there is
  nothing to resume, and \<open>RUNNING\<close> otherwise; Redis is unchanged until the loop makes the scheduled
  write, and then its record is that object. With a store whose update works, the in-process one, a
  run ends with \<open>FAILED\<close> when the engine cannot be built, there is nothing to resume, or the stream
  ends with a fatal or an unexpected error (a stream that completes included), or with a retriable one
  when the retries are used up; with \<open>INTERRUPTED\<close>, one more retry and a place at the end of the queue
  on a retriable error within the bound; and with \<open>INTERRUPTED\<close>, the queue as it was and the
  exception on a timeout or a cancellation.\<close>

theorem run_outcome:
  assumes "deployment E view" "client_ready w"
    and "resolved = fst (factory_get E (or_none (work_dir (heap w x))) (or_none (config_json (heap w x))) w)"
    and "\<forall>eng sched. resolved = Inr (eng, sched) \<longrightarrow> sync_checks sched"
  shows "(w_queue W = redis_queue E \<longrightarrow>
        observed x (run_locked E W ft x w) = redis_verdict resolved (heap w x) (mem_queue w)
        \<and> svc (snd (run_locked E W ft x w)) = svc w
        \<and> (fst (run_locked E W ft x w) = Inl TimeoutError \<longrightarrow> pending w = [] \<longrightarrow> hex32 (task_id (heap w x)) \<longrightarrow>
            holds E (view (svc (snd (run_pending E (snd (run_locked E W ft x w)))))) (task_id (heap w x))
              (heap (snd (run_locked E W ft x w)) x)))
    \<and> (w_queue W = inproc_queue \<longrightarrow>
        observed x (run_locked E W ft x w)
          = run_verdict E (w_max_retries W) ft resolved (heap w x) x (mem_queue w))"
  using deployment.redis_outcome [OF assms(1), where W = W and x = x and w = w and ft = ft]
    deployment.inproc_outcome [OF assms(1), where W = W and x = x and w = w and ft = ft]
    deployment.redis_outcome_written [OF assms(1), where W = W and x = x and w = w and ft = ft] assms(2-4)
  by simp

theorem run_outcome_witness:
  "observed 0 (run_locked mem_env (demo_worker (redis_queue mem_env)) Completes 0
      (with_engine (Inl (FatalError ''bad'')) start_world))
    = (Inl TimeoutError, RUNNING, ''mode=new'', 0, [])
  \<and> observed 0 (run_locked mem_env (demo_worker inproc_queue) Completes 0
      (with_engine (Inl (FatalError ''bad'')) start_world))
    = (Inr (), FAILED, ''bad'', 0, [])"
proof -
  let ?w = "with_engine (Inl (FatalError ''bad'')) start_world"
  have res: "Inr (demo_engine (Inl (FatalError ''bad'')), demo_scheduler False False)
      = fst (factory_get mem_env (or_none (work_dir (heap ?w 0))) (or_none (config_json (heap ?w 0))) ?w)"
    by (cases rule: factory_get_cases [of ?w mem_env "or_none []" "or_none []"]) simp_all
  note run = run_outcome [OF memory.deployment_axioms _ res, where ft = Completes]
  have md: "task_mode_of (demo_scheduler False False) no_task = Some NEW"
    by (simp add: task_mode_of_def)
  show ?thesis
    using run [of "demo_worker (redis_queue mem_env)"] run [of "demo_worker inproc_queue"]
    by (simp add: md redis_verdict_def run_verdict_def stream_error_def iter_events_def demo_engine_def
        verdict_def)
qed

text \<open>a stream that completes fails its task. When the engine accepts the task and its stream ends
  without an error, the task is marked \<open>FAILED\<close> with an unexpected \<open>no running event loop\<close>.\<close>

theorem completed_stream_fails:
  assumes "deployment E view" "w_queue W = inproc_queue" "client_ready w"
    and "map_of (engine_cache w)
      (cache_key E (or_none (work_dir (heap w x))) (or_none (config_json (heap w x)))) = Some (eng, sched)"
    and "sync_checks sched"
    and "decision_table (requirement (heap w x) = []) (has_project sched (project_name (heap w x)))
      (has_checkpoint sched (project_name (heap w x))) = Some md"
    and "iter_events eng md (heap w x) = Inr (events, None)"
  shows "observed x (run_locked E W Completes x w)
    = (Inr (), FAILED, ''unexpected: no running event loop'', retry_count (heap w x), mem_queue w)"
  using deployment.inproc_run_locked [OF assms(1-6), of Completes] assms(7)
  by (simp add: stream_error_def verdict_def)

theorem completed_stream_fails_witness:
  "observed 0 (run_locked mem_env (demo_worker inproc_queue) Completes 0
     (with_engine (Inr ([demo_event], None)) start_world))
    = (Inr (), FAILED, ''unexpected: no running event loop'', 0, [])"
  using completed_stream_fails [OF memory.deployment_axioms, of "demo_worker inproc_queue"
      "with_engine (Inr ([demo_event], None)) start_world" 0 _ _ NEW "[demo_event]"]
  by (simp add: iter_events_def demo_engine_def)

text \<open>failures before the stream are final. When the engine cannot be built, or there is nothing to
  resume for an empty requirement, the task is \<open>FAILED\<close> with the reason, the run returns, and nothing
  is queued.\<close>

theorem early_failures:
  assumes "deployment E view" "w_queue W = inproc_queue" "client_ready w"
  shows "(\<forall>e. fst (factory_get E (or_none (work_dir (heap w x))) (or_none (config_json (heap w x))) w) = Inl e
        \<longrightarrow> is_Exception e \<longrightarrow>
        observed x (run_locked E W ft x w)
          = (Inr (), FAILED, ''engine initialisation failed: '' @ exn_str e, retry_count (heap w x),
             mem_queue w))
    \<and> (\<forall>eng sched. map_of (engine_cache w)
          (cache_key E (or_none (work_dir (heap w x))) (or_none (config_json (heap w x)))) = Some (eng, sched)
        \<longrightarrow> sync_checks sched \<longrightarrow> requirement (heap w x) = []
        \<longrightarrow> \<not> has_checkpoint sched (project_name (heap w x)) \<longrightarrow>
        observed x (run_locked E W ft x w)
          = (Inr (), FAILED, no_checkpoint_message (project_name (heap w x)), retry_count (heap w x),
             mem_queue w))"
  using deployment.inproc_engine_fails [OF assms, of x] deployment.inproc_no_checkpoint [OF assms, of x]
  by simp

theorem early_failures_witness:
  "observed 0 (run_locked mem_env (demo_worker inproc_queue) Completes 0
     ((with_engine (Inr ([], None)) start_world)\<lparr>heap := (\<lambda>_. no_task\<lparr>requirement := []\<rparr>)\<rparr>))
    = (Inr (), FAILED, no_checkpoint_message ''demo'', 0, [])"
  using early_failures [OF memory.deployment_axioms, of "demo_worker inproc_queue"
      "(with_engine (Inr ([], None)) start_world)\<lparr>heap := (\<lambda>_. no_task\<lparr>requirement := []\<rparr>)\<rparr>" 0 Completes]
  by (simp add: has_checkpoint_def demo_scheduler_def says_yes_def with_engine_def sync_checks_def)

end
