(* ===== verification/Lifecycle.thy ===== *)
theory Lifecycle
  imports Api Worker Config Lock_Protocol
begin

text \<open>
  What components do together: a task from \<open>POST\<close> through a worker's turn to \<open>GET\<close>, also one that was
  finished while it was queued (\<open>src/api.py\<close>, \<open>src/worker.py\<close>, \<open>src/task_queue\<close>), the default heartbeat interval
  (\<open>src/config.py\<close>) against the lock's time to live (\<open>src/worker_locks.py\<close>), and where the
  \<open>LockStolenError\<close> of a heartbeat (\<open>src/worker.py\<close>) can end up.
\<close>

section \<open>Where a stolen lock is noticed\<close>

definition never_stolen :: "('w, 'a) py \<Rightarrow> bool" where
  "never_stolen m = (\<forall>w s. fst (m w) \<noteq> Inl (LockStolenError s))"

named_theorems never_stolen_intros \<open>blocks that raise no \<open>LockStolenError\<close>\<close>

lemma never_stolen_basic [never_stolen_intros]:
  "never_stolen (py_return x)" "never_stolen (py_get f)" "never_stolen (py_put g)"
  "never_stolen (load y)" "never_stolen (assign y h)" "never_stolen (touch E y)"
  "never_stolen (transition E y st d)"
  by (simp_all add: never_stolen_def touch_run transition_run py_simps)

lemma never_stolen_raise [never_stolen_intros]:
  "(\<And>s. e \<noteq> LockStolenError s) \<Longrightarrow> never_stolen (py_raise e)"
  by (simp add: never_stolen_def py_raise_def)

lemma never_stolen_of_sum [never_stolen_intros]:
  "(\<And>s. r \<noteq> Inl (LockStolenError s)) \<Longrightarrow> never_stolen (py_of_sum r)"
  by (simp add: never_stolen_def py_of_sum_def)

lemma never_stolen_bind [never_stolen_intros]:
  "never_stolen m \<Longrightarrow> (\<And>x. never_stolen (f x)) \<Longrightarrow> never_stolen (py_bind m f)"
  by (auto simp: never_stolen_def py_bind_def split: sum.split)

lemma never_stolen_then [never_stolen_intros]:
  "never_stolen m \<Longrightarrow> never_stolen k \<Longrightarrow> never_stolen (py_then m k)"
  by (simp add: py_then_def never_stolen_bind)

lemma never_stolen_if [never_stolen_intros]:
  "(b \<Longrightarrow> never_stolen m) \<Longrightarrow> (\<not> b \<Longrightarrow> never_stolen k) \<Longrightarrow> never_stolen (if b then m else k)"
  by simp

text \<open>A handler is asked about every exception, or only about those its block can raise.\<close>

lemma never_stolen_try_any: "(\<And>e. never_stolen (h e)) \<Longrightarrow> never_stolen (py_try m h)"
  by (auto simp: never_stolen_def py_try_def split: sum.split)

lemma never_stolen_try:
  "never_stolen m \<Longrightarrow> (\<And>e. (\<And>s. e \<noteq> LockStolenError s) \<Longrightarrow> never_stolen (h e))
    \<Longrightarrow> never_stolen (py_try m h)"
  unfolding never_stolen_def py_try_def by (metis (mono_tags, lifting) Inr_Inl_False fst_conv
      old.sum.simps(5,6) sum.exhaust)

lemma no_pair: "fst (py_then m (py_then k (py_return None)) v) \<noteq> Inr (Some z)"
  by (simp add: py_then_def py_bind_def py_return_def split: sum.split)

text \<open>The same for one start.\<close>

lemma not_stolen_bind:
  "(\<And>s. fst (m w) \<noteq> Inl (LockStolenError s)) \<Longrightarrow> (\<And>x. fst (m w) = Inr x \<Longrightarrow> never_stolen (f x))
    \<Longrightarrow> fst (py_bind m f w) \<noteq> Inl (LockStolenError s)"
  by (auto simp: never_stolen_def py_bind_def split: sum.split)

text \<open>A queue a worker is given raises nothing of the kind, and no engine does.\<close>

definition queue_never_stolen :: "'r work_queue \<Rightarrow> bool" where
  "queue_never_stolen Q =
     ((\<forall>th x. never_stolen (wq_update Q th x)) \<and> (\<forall>x. never_stolen (wq_enqueue Q x)))"

definition engine_never_stolen :: "engine \<Rightarrow> bool" where
  "engine_never_stolen eng = (\<forall>md t s. iter_events eng md t \<noteq> Inl (LockStolenError s))"

lemma never_stolen_stream:
  "engine_never_stolen eng \<Longrightarrow> never_stolen (stream E ft x md eng)"
  unfolding stream_def engine_never_stolen_def
  by (intro never_stolen_intros never_stolen_try)
    (auto simp: stream_cancelled_def consume_sync_def get_running_loop_def never_stolen_def py_simps)

lemma never_stolen_decide: "never_stolen (decide E S x)"
proof -
  have c: "never_stolen (checked m)" for m :: "('r, bool) prog"
    unfolding checked_def
    by (rule never_stolen_try_any) (auto intro!: never_stolen_intros)
  show ?thesis
    unfolding decide_def apply_mode_def Let_def by (intro never_stolen_intros c) auto
qed

context deployment
begin

lemma never_stolen_close [never_stolen_intros]: "never_stolen (bus_close E i)"
  "never_stolen (close_of E x)"
proof -
  have "fst (bus_close E i w) \<noteq> Inl (LockStolenError s)" for i w s
  proof -
    obtain n where "fst (r_publish (redis E) (channel i) done_message (svc w)) = Inr n"
      using publish_answers by blast
    then show ?thesis by (simp add: bus_close_def py_simps not_initialised_def)
  qed
  then show c: "never_stolen (bus_close E i)" for i by (simp add: never_stolen_def)
  show "never_stolen (close_of E x)" unfolding close_of_def by (intro never_stolen_intros c)
qed

lemma redis_queue_never_stolen: "queue_never_stolen (redis_queue E)"
proof -
  have "fst (store_update E th x w) \<noteq> Inl (LockStolenError s)" for th x w s
    by (cases th) (simp_all add: store_update_run)
  moreover have "fst (enqueue E x w) \<noteq> Inl (LockStolenError s)" for x w s
    by (auto simp: enqueue_def py_simps cmd_lpush_def not_initialised_def wrong_type_def
        split: option.splits rval.splits)
  ultimately show ?thesis by (simp add: queue_never_stolen_def never_stolen_def redis_queue_def)
qed

lemma never_stolen_to_status:
  "queue_never_stolen (w_queue W) \<Longrightarrow> never_stolen (to_status E W x st d)"
  unfolding to_status_def queue_never_stolen_def by (intro never_stolen_intros) blast

lemma never_stolen_retriable:
  "queue_never_stolen (w_queue W) \<Longrightarrow> never_stolen (handle_retriable E W x e)"
  unfolding handle_retriable_def queue_never_stolen_def by (intro never_stolen_intros) blast+

lemma never_stolen_streaming:
  assumes Q: "queue_never_stolen (w_queue W)" and eng: "engine_never_stolen eng"
  shows "never_stolen (run_streaming E W ft x md eng)"
proof -
  note intros = never_stolen_intros never_stolen_to_status [OF Q] never_stolen_retriable [OF Q]
  have h: "never_stolen (run_stream_handlers E W x e)" if "\<And>s. e \<noteq> LockStolenError s" for e
    unfolding run_stream_handlers_def using that by (cases e) (auto intro!: intros)
  show ?thesis
    unfolding run_streaming_def
    by (intro intros never_stolen_try never_stolen_stream [OF eng] h) blast
qed

text \<open>So \<open>_run_locked\<close> raises no \<open>LockStolenError\<close>, and the handler for it in \<open>_execute\<close> is dead.\<close>

lemma run_locked_not_stolen:
  assumes Q: "queue_never_stolen (w_queue W)"
    and eng: "\<And>eng sched. fst (factory_get E (or_none (work_dir (heap w x)))
      (or_none (config_json (heap w x))) w) = Inr (eng, sched) \<Longrightarrow> engine_never_stolen eng"
  shows "fst (run_locked E W ft x w) \<noteq> Inl (LockStolenError s)"
proof -
  note intros = never_stolen_intros never_stolen_to_status [OF Q]
  let ?get = "factory_get E (or_none (work_dir (heap w x))) (or_none (config_json (heap w x)))"
  let ?start = "py_try (py_bind ?get (\<lambda>pair. py_return (Some pair)))
    (\<lambda>e. if is_Exception e
         then py_then (to_status E W x FAILED (''engine initialisation failed: '' @ exn_str e))
                (py_then (close_of E x) (py_return None))
         else py_raise e)"
  have try_ns: "never_stolen ?start"
    by (intro never_stolen_try_any intros) auto
  have eng_ok: "engine_never_stolen eng" if t: "fst (?start w) = Inr (Some (eng, sched))" for eng sched
  proof (rule eng)
    show "fst (?get w) = Inr (eng, sched)"
    proof (cases "fst (?get w)")
      case (Inl e)
      then have h: "?start w = (if is_Exception e
          then py_then (to_status E W x FAILED (''engine initialisation failed: '' @ exn_str e))
            (py_then (close_of E x) (py_return None)) (snd (?get w))
          else (Inl e, snd (?get w)))"
        by (simp add: py_try_def py_bind_def py_raise_def)
      with t show ?thesis by (simp add: no_pair split: if_splits)
    next
      case (Inr pair)
      with t show ?thesis by (simp add: py_try_def py_bind_def py_return_def)
    qed
  qed
  have bind: "fst (py_bind ?start K w) \<noteq> Inl (LockStolenError s)"
    if "never_stolen (K None)" "\<And>eng sched. engine_never_stolen eng \<Longrightarrow> never_stolen (K (Some (eng, sched)))"
    for K
  proof (rule not_stolen_bind)
    fix z assume "fst (?start w) = Inr z"
    with eng_ok that show "never_stolen (K z)" by (cases z) auto
  qed (use try_ns in \<open>simp add: never_stolen_def\<close>)
  have after: "never_stolen (case_option (py_return ()) f d)" if "\<And>md. never_stolen (f md)"
    for d :: "task_mode option" and f using that by (cases d) (simp_all add: never_stolen_intros)
  have decision: "never_stolen (py_try (py_bind (decide E sched x) (\<lambda>md. py_return (Some md)))
      (\<lambda>e. if is_ValueError e
         then py_then (to_status E W x FAILED (exn_str e)) (py_then (close_of E x) (py_return None))
         else py_raise e))" for sched
    by (intro never_stolen_try intros never_stolen_decide) blast
  show ?thesis
    unfolding run_locked_def py_bind_def [of "load x"] load_def fst_conv snd_conv sum.case
    by (intro bind)
      (auto intro!: intros never_stolen_bind decision after never_stolen_streaming [OF Q])
qed

text \<open>While the heartbeat of the same execution raises one as soon as the lock is lost.\<close>

lemma heartbeat_stolen:
  assumes "client_ready w" "0 < lock_ttl (settings E)" "locks_wf (view (svc w))"
    and "lock_of (view (svc w)) p \<noteq> Some token"
  shows "fst (heartbeat E p token (Suc n) w)
    = Inl (LockStolenError (''lock stolen for project '' @ py_repr p))"
  using refresh_lock_result(1) [OF assms(1-3), of p token] assms(4)
  by (simp add: py_bind_def py_raise_def)

end

lemma inproc_queue_never_stolen: "queue_never_stolen inproc_queue"
  by (simp add: queue_never_stolen_def never_stolen_def inproc_queue_def mem_update_def
      mem_enqueue_def py_simps)

section \<open>The heartbeat interval and the time to live\<close>

context deployment
begin

lemma beat_in_time:
  assumes "0 < ttl_of E" "inj tok" "lock_start view s0" "lock_run E tok s0 s"
    and at: "lk_at s c = Some p" and elapsed: "ttl_of E - lk_lease s c < ttl_of E"
  shows "fst (refresh_lock E p (tok c) (ttl_of E) (lk_world s)) = Inr True"
proof -
  have inv: "lock_inv view tok s"
    by (rule lock_run_inv [OF assms(4) lock_inv_start [OF assms(3)] assms(2,1)])
  then have "client_ready (lk_world s)" "locks_wf (view (svc (lk_world s)))"
    "lock_of (view (svc (lk_world s))) p = Some (tok c)"
    using at elapsed by (auto simp: lock_inv_def lease_live_def)
  with refresh_lock_result(1) [OF _ assms(1), of "lk_world s" p "tok c"] show ?thesis by simp
qed

section \<open>A posted task\<close>

text \<open>The turn of a worker that takes a snapshot \<open>t\<close> off the queue. It does not read the record.\<close>

lemma queued_task_run:
  assumes w: "client_ready w" "pending w = []" and inv: "store_inv E (view (svc w))"
    and queue: "queue_of (view (svc w)) = q @ [enc E t]"
    and ttl: "0 < lock_ttl (settings E)" and W: "w_queue W = redis_queue E"
    and free: "ks_keys (view (svc w)) (lock_key (project_name t)) = None"
    and cached: "map_of (engine_cache w) (cache_key E (or_none (work_dir t)) (or_none (config_json t)))
      = Some (eng, sched)"
    and checks: "sync_checks sched"
    and md: "decision_table (requirement t = []) (has_project sched (project_name t))
      (has_checkpoint sched (project_name t)) = Some md"
    and w2: "w2 = snd (worker_run E W (turn # turns) w)"
  shows "fst (worker_run E W (turn # turns) w) = Inl TimeoutError
    \<and> queue_of (view (svc w2)) = q
    \<and> (\<exists>n. holds E (view (svc w2)) (task_id t) (running_task E n md t)
        \<and> fst (get_task E (task_id t) w2) = Inr (from_task (running_task E n md t)))"
proof -
  obtain ft beats where turn: "turn = (ft, beats)" by (cases turn)
  have qinv: "queue_inv E (view (svc w))" using inv by (simp add: store_inv_def)
  note deq = dequeue_run(2) [OF w(1) qinv queue, of "w_poll_interval W"]
  let ?x = "next_obj w" and ?v = "snd (dequeue E (w_poll_interval W) w)"
  have d: "fst (dequeue E (w_poll_interval W) w) = Inr (Some ?x)" "heap ?v ?x = t"
    "client_ready ?v" "pending ?v = []" "engine_cache ?v = engine_cache w"
    "queue_of (view (svc ?v)) = q"
    "ks_keys (view (svc ?v)) (lock_key (project_name t)) = None"
    using deq w free by auto
  have ex: "fst (execute E W ft beats ?x ?v) = Inl TimeoutError"
    "ks_keys (view (svc (snd (execute E W ft beats ?x ?v))))
      = (ks_keys (view (svc ?v)))(task_key (task_id t) \<mapsto>
          RStr (enc E (running_task E (Suc (Suc (ticks ?v))) md t)))"
    "client_ready (snd (execute E W ft beats ?x ?v))"
    using redis_execute_stuck [OF d(3,4) ttl _ W, of ?x eng sched md ft beats] d cached checks md
    by simp_all
  have run: "worker_run E W (turn # turns) w = (Inl TimeoutError, snd (execute E W ft beats ?x ?v))"
    using d(1) ex(1) by (simp add: turn py_bind_def py_then_def W redis_queue_def)
  have "holds E (view (svc w2)) (task_id t) (running_task E (Suc (Suc (ticks ?v))) md t)"
    "queue_of (view (svc w2)) = queue_of (view (svc ?v))"
    by (simp_all add: w2 run holds_def ex(2) queue_of_def)
  with get_task_run(1) [of w2] ex(3) d(6) run show ?thesis by (auto simp: w2)
qed

lemma posted_task_run:
  assumes w: "client_ready w" "pending w = []" and inv: "store_inv E (view (svc w))"
    and empty: "queue_of (view (svc w)) = []"
    and nodup: "\<forall>u. \<not> duplicate E (view (svc w)) body u"
    and fresh: "ks_keys (view (svc w)) (task_key (uuid_at E (ticks w))) = None"
    and ttl: "0 < lock_ttl (settings E)" and W: "w_queue W = redis_queue E"
    and free: "ks_keys (view (svc w)) (lock_key (req_project_name body)) = None"
    and cached: "map_of (engine_cache w) (cache_key E (or_none (or_empty (req_work_dir body)))
      (or_none (or_empty (req_config_json body)))) = Some (eng, sched)"
    and checks: "sync_checks sched"
    and md: "decision_table (req_requirement body = []) (has_project sched (req_project_name body))
      (has_checkpoint sched (req_project_name body)) = Some md"
    and t: "t = created_task E (ticks w) body"
    and w1: "w1 = snd (create_task E body w)"
    and w2: "w2 = snd (worker_run E W (turn # turns) w1)"
  shows "fst (create_task E body w) = Inr (from_task t)
    \<and> fst (worker_run E W (turn # turns) w1) = Inl TimeoutError
    \<and> queue_of (view (svc w2)) = []
    \<and> (\<exists>n. holds E (view (svc w2)) (task_id t) (running_task E n md t)
        \<and> fst (get_task E (task_id t) w2) = Inr (from_task (running_task E n md t)))"
proof -
  let ?K = "view (svc w)"
  have c: "fst (create_task E body w) = Inr (from_task t)" "view (svc w1) = queued E t (saved E t ?K)"
    "client_ready w1" "store_inv E (view (svc w1))" "pending w1 = []" "engine_cache w1 = engine_cache w"
    by (rule create_task_cases [OF w(1) inv fresh, of body]; use nodup w(2) in \<open>simp add: t w1\<close>)+
  have proj: "projects_inv E ?K" using inv by (simp add: store_inv_def)
  have "queue_of (view (svc w1)) = [] @ [enc E t]"
    using empty by (simp add: c(2) saved_queue [OF proj])
  moreover have "ks_keys (view (svc w1)) (lock_key (project_name t)) = None"
    using free saved_keys [OF proj, of t] by (auto simp: c(2) queued_keys t)
  ultimately have "fst (worker_run E W (turn # turns) w1) = Inl TimeoutError
      \<and> queue_of (view (svc w2)) = []
      \<and> (\<exists>n. holds E (view (svc w2)) (task_id t) (running_task E n md t)
        \<and> fst (get_task E (task_id t) w2) = Inr (from_task (running_task E n md t)))"
    using queued_task_run [OF c(3,5,4) _ ttl W _ _ checks _ w2, of "[]" t eng md] cached md
    by (simp add: c(6) t created_task_def)
  with c(1) show ?thesis by blast
qed

end

section \<open>A finished task that is still queued\<close>

text \<open>C25: a finished task can be run again. Recovery queues a pending task although it is queued already,
  and the worker that takes the second entry does not look at the stored record: if the task has been
  finished since, its state is overwritten, and \<open>GET\<close> answers that the finished task is \<open>RUNNING\<close>.\<close>

theorem finished_task_rerun:
  assumes "deployment E view" "client_ready w" "pending w = []" "store_inv E (view (svc w))"
    and "queue_of (view (svc w)) = q @ [enc E t]"
    and "holds E (view (svc w)) (task_id t) t'" "is_terminal t'"
    and "0 < lock_ttl (settings E)" "w_queue W = redis_queue E"
    and "ks_keys (view (svc w)) (lock_key (project_name t)) = None"
    and "map_of (engine_cache w) (cache_key E (or_none (work_dir t)) (or_none (config_json t)))
      = Some (eng, sched)"
    and "sync_checks sched"
    and "decision_table (requirement t = []) (has_project sched (project_name t))
      (has_checkpoint sched (project_name t)) = Some md"
    and "w2 = snd (worker_run E W (turn # turns) w)"
  shows "fst (get_task E (task_id t) w) = Inr (from_task t')
    \<and> queue_of (view (svc w2)) = q
    \<and> (\<exists>res. fst (get_task E (task_id t) w2) = Inr res \<and> resp_status res = RUNNING)"
  using deployment.queued_task_run [OF assms(1-5,8-14)]
    deployment.get_task_run(1) [OF assms(1,2,6)]
  by (auto simp: from_task_def running_task_def)

text \<open>A task that is finished while a snapshot of it is queued.\<close>

definition finished_world :: "mem world" where
  "finished_world =
     snd (async_update mem_env 0 (queued_world\<lparr>heap := (\<lambda>_. no_task\<lparr>status := FAILED\<rparr>)\<rparr>))"

lemma finished_world_facts:
  "client_ready finished_world" "pending finished_world = []"
  "store_inv mem_env (mem_view (svc finished_world))"
  "queue_of (mem_view (svc finished_world)) = [] @ [enc mem_env no_task]"
  "holds mem_env (mem_view (svc finished_world)) (task_id no_task) (no_task\<lparr>status := FAILED\<rparr>)"
  "ks_keys (mem_view (svc finished_world)) (lock_key ''demo'') = None"
proof -
  let ?t = "no_task\<lparr>status := FAILED\<rparr>"
  let ?w = "queued_world\<lparr>heap := (\<lambda>_. ?t)\<rparr>"
  have fin: "is_terminal ?t" by (simp add: is_terminal_def)
  have same: "same_identity ?t no_task" by (simp add: same_identity_def)
  have v: "mem_view (svc finished_world) = updated mem_env ?t (mem_view (svc queued_world))"
    using memory.async_update_run(2) [of ?w 0] by (simp add: finished_world_def)
  show "client_ready finished_world" "pending finished_world = []"
    by (simp_all add: finished_world_def queued_world_def)
  show "store_inv mem_env (mem_view (svc finished_world))"
    unfolding v using queued_world_inv queued_world_holds same
    by (intro memory.updated_inv [where t' = no_task]) simp_all
  show "queue_of (mem_view (svc finished_world)) = [] @ [enc mem_env no_task]"
    using queued_world_queue by (simp add: v queue_of_def updated_keys)
  show "holds mem_env (mem_view (svc finished_world)) (task_id no_task) ?t"
    by (simp add: v holds_def updated_keys)
  show "ks_keys (mem_view (svc finished_world)) (lock_key ''demo'') = None"
    using queued_world_free by (simp add: v updated_keys)
qed

theorem finished_task_rerun_witness:
  "\<exists>res. fst (get_task mem_env (task_id no_task)
      (snd (worker_run mem_env (demo_worker (redis_queue mem_env)) [(Completes, 0)]
        (with_engine (Inr ([], None)) finished_world)))) = Inr res
    \<and> resp_status res = RUNNING"
proof -
  have fin: "is_terminal (no_task\<lparr>status := FAILED\<rparr>)" by (simp add: is_terminal_def)
  show ?thesis
    using finished_task_rerun [OF memory.deployment_axioms, of "with_engine (Inr ([], None)) finished_world"
        "[]" no_task "no_task\<lparr>status := FAILED\<rparr>" "demo_worker (redis_queue mem_env)"
        "demo_engine (Inr ([], None))" "demo_scheduler False False" NEW _ "(Completes, 0)" "[]"]
      finished_world_facts fin
    by (simp del: worker_run.simps)
qed

end
