(* ===== verification/Retries.thy ===== *)
theory Retries
  imports Lifecycle
begin

text \<open>
  Retries come to an end: a worker on the in-process queue whose engine fails with a
  \<open>RetriableError\<close> at every attempt runs a task \<open>max_retries - retry_count + 1\<close> times, then the task
  is \<open>FAILED\<close> and in no queue. On the Redis queue the first attempt ends the worker, as for every task.
\<close>

section \<open>The cache survives an execution\<close>

definition cache_state :: "string \<times> string \<Rightarrow> engine \<times> scheduler \<Rightarrow> 'r world \<Rightarrow> bool" where
  "cache_state key pair w = (client_ready w \<and> map_of (engine_cache w) key = Some pair)"

lemma keeps_cache_redis_only: "redis_only m \<Longrightarrow> keeps (cache_state key pair) m"
  by (simp add: keeps_def cache_state_def redis_only_frame)

lemma redis_only_locks [redis_only_intros]:
  "redis_only (acquire_lock E p tok ttl)" "redis_only (release_lock E p tok)"
  "redis_only (refresh_lock E p tok ttl)" "redis_only (heartbeat E p tok n)"
proof -
  show r: "redis_only (refresh_lock E p tok ttl)" for ttl
    unfolding refresh_lock_def by (intro redis_only_intros)
  show "redis_only (heartbeat E p tok n)"
    by (induction n) (auto intro!: redis_only_intros r)
qed (unfold acquire_lock_def release_lock_def, (intro redis_only_intros)+)

lemma keeps_cache_basic [keeps_intros]:
  "keeps (cache_state key pair) (new_uuid E)" "keeps (cache_state key pair) (now E)"
  "keeps (cache_state key pair) (assign x f)" "keeps (cache_state key pair) (run_pending E)"
  by (simp_all add: keeps_def cache_state_def py_simps run_pending_frame)

text \<open>A pair in the cache is never replaced: building only happens for another key.\<close>

lemma keeps_cache_factory [keeps_intros]:
  fixes E :: "'r env"
  shows "keeps (cache_state key pair) (factory_get E wd cj)"
  unfolding keeps_def
proof (intro allI impI)
  fix w :: "'r world" assume "cache_state key pair w"
  then show "cache_state key pair (snd (factory_get E wd cj w))"
    by (cases rule: factory_get_cases [of w E wd cj]) (auto simp: cache_state_def)
qed

lemma keeps_cache_ops [keeps_intros]:
  "keeps (cache_state key pair) (bus_close E i)"
  "keeps (cache_state key pair) (acquire_lock E p tok ttl)"
  "keeps (cache_state key pair) (release_lock E p tok)"
  "keeps (cache_state key pair) (heartbeat E p tok n)"
  by (intro keeps_cache_redis_only redis_only_intros)+

lemma keeps_cache_inproc [keeps_intros]:
  "keeps (cache_state key pair) (wq_update inproc_queue th x)"
  "keeps (cache_state key pair) (wq_enqueue inproc_queue x)"
  by (simp_all add: keeps_def cache_state_def inproc_queue_def mem_defs py_simps)

lemma keeps_cache_steps [keeps_intros]:
  "keeps (cache_state key pair) (touch E x)" "keeps (cache_state key pair) (transition E x s d)"
  "keeps (cache_state key pair) (decide E S x)" "keeps (cache_state key pair) (close_of E x)"
  unfolding transition_def touch_def decide_def Let_def checked_def apply_mode_def close_of_def
  by (intro keeps_intros)+

lemma keeps_cache_execute:
  assumes "w_queue W = inproc_queue"
  shows "keeps (cache_state key pair) (execute E W ft beats x)"
proof -
  let ?P = "cache_state key pair"
  have st: "keeps ?P (to_status E W x s d)" for s d
    unfolding to_status_def assms by (intro keeps_intros)
  have re: "keeps ?P (handle_retriable E W x e)" for e
    unfolding handle_retriable_def assms by (intro keeps_intros)
  have "keeps ?P (run_stream_handlers E W x e)" for e
    unfolding run_stream_handlers_def by (cases e) (auto intro!: keeps_intros st re)
  then have "keeps ?P (py_bind (run_stream_handlers E W x e)
      (\<lambda>close. if close then close_of E x else py_return ()))" for e
    by (intro keeps_intros)
  then have rs: "keeps ?P (run_streaming E W ft x md eng)" for md eng
    by (simp add: keeps_def run_streaming_run)
  have rl: "keeps ?P (run_locked E W ft x)"
    unfolding run_locked_def by (intro keeps_intros st rs)
  have "keeps ?P (case e of
      LockStolenError _ \<Rightarrow> handle_retriable E W x
        (RetriableError ''distributed lock was stolen during execution'')
    | _ \<Rightarrow> py_raise e)" for e
    by (cases e) (auto intro!: keeps_intros re)
  then show ?thesis
    unfolding execute_def assms by (intro keeps_intros rl)
qed

section \<open>One execution\<close>

lemma py_then_run: "fst (m w) = Inr a \<Longrightarrow> py_then m k w = k (snd (m w))"
  by (simp add: py_then_def py_bind_def)

lemma py_finally_run:
  "fst (f (snd (m w))) = Inr () \<Longrightarrow> py_finally m f w = (fst (m w), snd (f (snd (m w))))"
  by (simp add: py_finally_def)

context deployment
begin

lemma inproc_execute:
  assumes W: "w_queue W = inproc_queue" and w: "client_ready w" and ttl: "0 < lock_ttl (settings E)"
    and free: "ks_keys (view (svc w)) (lock_key (project_name (heap w x))) = None"
    and cached: "map_of (engine_cache w)
      (cache_key E (or_none (work_dir (heap w x))) (or_none (config_json (heap w x)))) = Some (eng, sched)"
    and checks: "sync_checks sched"
    and md: "decision_table (requirement (heap w x) = []) (has_project sched (project_name (heap w x)))
      (has_checkpoint sched (project_name (heap w x))) = Some md"
    and stolen: "\<forall>s. stream_error E ft md eng (heap w x) \<noteq> LockStolenError s"
  shows "observed x (execute E W ft beats x w)
    = verdict (w_max_retries W) md (stream_error E ft md eng (heap w x)) (retry_count (heap w x)) x
        (mem_queue w)"
proof -
  let ?p = "project_name (heap w x)" and ?tok = "uuid_at E (ticks w)"
  let ?e = "stream_error E ft md eng (heap w x)"
  let ?w1 = "w\<lparr>ticks := Suc (ticks w)\<rparr>"
  let ?acq = "acquire_lock E ?p ?tok (lock_ttl (settings E))"
  let ?w2 = "snd (?acq ?w1)"
  let ?res = "run_locked E W ft x ?w2"
  let ?beat = "heartbeat E ?p ?tok beats"
  let ?wait = "py_try (py_then (run_pending E) ?beat) (\<lambda>_. py_return ())"
  let ?w4 = "snd (?wait (snd ?res))"
  have acq: "fst (?acq ?w1) = Inr True"
    "ks_keys (view (svc ?w2)) = (ks_keys (view (svc w)))(lock_key ?p \<mapsto> RStr ?tok)"
    using acquire_keys [of ?w1 _ ?p ?tok] w ttl free by simp_all
  note frame = redis_only_frame [OF redis_only_locks(1) [of E ?p ?tok "lock_ttl (settings E)"], of ?w1]
  have obs: "observed x ?res
      = verdict (w_max_retries W) md ?e (retry_count (heap w x)) x (mem_queue w)"
    using inproc_run_locked [OF W, of ?w2 x eng sched md ft] w cached checks md by (simp add: frame)
  have nostolen: "fst ?res \<noteq> Inl (LockStolenError s)" for s
    using arg_cong [OF obs, of fst] stolen
    by (cases ?e) (auto simp: observed_def verdict_def)
  have safe: "lock_safe_queue (w_queue W) view"
    by (simp add: W inproc_q.lock_safe_queue_axioms)
  let ?L = "\<lambda>q. ks_keys (view (svc ?w2)) (lock_key q)"
  have "lock_state view ?L ?w2" using w frame(1) by (simp add: lock_state_def)
  then have "lock_state view ?L (snd ?res)"
    by (rule keepsD [OF keeps_lock_run_locked [OF safe]])
  then have "lock_state view ?L ?w4"
    by (rule keepsD [rotated]) (intro keeps_intros ttl)
  then have w4: "client_ready ?w4" "ks_keys (view (svc ?w4)) (lock_key ?p) = Some (RStr ?tok)"
    using acq(2) by (simp_all add: lock_state_def)
  have "redis_only ?beat" by (rule redis_only_locks(4))
  note beat = redis_only_frame [OF this]
  have same: "heap ?w4 = heap (snd ?res)" "mem_queue ?w4 = mem_queue (snd ?res)"
    by (simp_all add: py_try_def py_then_def py_bind_def run_pending_returns py_return_def beat
        run_pending_frame split: sum.split)
  let ?rel = "release_lock E ?p ?tok ?w4"
  have wait: "fst (?wait v) = Inr ()" for v
    by (simp add: py_simps split: sum.split)
  have fin: "fst (py_then ?wait (release_lock E ?p ?tok) (snd ?res)) = Inr ()"
    "snd (py_then ?wait (release_lock E ?p ?tok) (snd ?res)) = snd ?rel"
    using release_keys(1) [OF w4] by (simp_all only: py_then_run [where m = ?wait, OF wait])
  let ?body = "py_try (run_locked E W ft x)
      (\<lambda>e. case e of
             LockStolenError _ \<Rightarrow> handle_retriable E W x
               (RetriableError ''distributed lock was stolen during execution'')
           | _ \<Rightarrow> py_raise e)"
  have body: "?body ?w2 = ?res"
    using nostolen by (auto simp: py_try_def py_raise_def prod_eq_iff split: sum.split exn.split)
  have "execute E W ft beats x w
      = py_finally ?body (py_then ?wait (release_lock E ?p ?tok)) ?w2"
    using acq(1) by (simp add: execute_def py_bind_def new_uuid_def load_def)
  also have "\<dots> = (fst ?res, snd ?rel)"
    using py_finally_run [where m = ?body and w = ?w2
      and f = "py_then ?wait (release_lock E ?p ?tok)", unfolded body, OF fin(1)]
    unfolding fin(2) .
  finally have "execute E W ft beats x w = (fst ?res, snd ?rel)" .
  moreover note redis_only_frame [OF redis_only_locks(2) [of E ?p ?tok], of ?w4]
  ultimately show ?thesis
    using obs same by (simp add: observed_def)
qed

end

section \<open>All of them\<close>

text \<open>A task of the in-process queue that fails with a \<open>RetriableError\<close> whenever it is run: its
  engine is in the cache, it has a mode, the call for that mode raises, and its lock is free.\<close>

definition always_retriable ::
  "'r env \<Rightarrow> ('r \<Rightarrow> keyspace) \<Rightarrow> obj \<Rightarrow> string \<Rightarrow> 'r world \<Rightarrow> bool" where
  "always_retriable E view x s w =
     (let t = heap w x
      in client_ready w
         \<and> ks_keys (view (svc w)) (lock_key (project_name t)) = None
         \<and> (\<exists>eng sched md.
              map_of (engine_cache w) (cache_key E (or_none (work_dir t)) (or_none (config_json t)))
                = Some (eng, sched)
              \<and> sync_checks sched
              \<and> decision_table (requirement t = []) (has_project sched (project_name t))
                  (has_checkpoint sched (project_name t)) = Some md
              \<and> iter_events eng md t = Inl (RetriableError s)))"

context deployment
begin

lemma retriable_execute:
  assumes W: "w_queue W = inproc_queue" and ttl: "0 < lock_ttl (settings E)"
    and r: "always_retriable E view x s w"
  shows "\<exists>md. observed x (execute E W ft beats x w)
      = verdict (w_max_retries W) md (RetriableError s) (retry_count (heap w x)) x (mem_queue w)"
    and "always_retriable E view x s (snd (execute E W ft beats x w))"
proof -
  let ?t = "heap w x" and ?w' = "snd (execute E W ft beats x w)"
  obtain eng sched md where
    w: "client_ready w" "ks_keys (view (svc w)) (lock_key (project_name ?t)) = None"
    and c: "map_of (engine_cache w) (cache_key E (or_none (work_dir ?t)) (or_none (config_json ?t)))
        = Some (eng, sched)"
    and s: "sync_checks sched"
      "decision_table (requirement ?t = []) (has_project sched (project_name ?t))
        (has_checkpoint sched (project_name ?t)) = Some md"
      "iter_events eng md ?t = Inl (RetriableError s)"
    using r by (auto simp: always_retriable_def Let_def)
  have err: "stream_error E ft md eng ?t = RetriableError s"
    using s(3) by (simp add: stream_error_def)
  show "\<exists>md. observed x (execute E W ft beats x w)
      = verdict (w_max_retries W) md (RetriableError s) (retry_count (heap w x)) x (mem_queue w)"
    using inproc_execute [OF W w(1) ttl w(2) c s(1,2), of ft beats] err by auto
  have same: "same_identity ?t (heap ?w' x)"
    by (rule inproc_q.execute_identity [OF W])
  have "cache_state (cache_key E (or_none (work_dir ?t)) (or_none (config_json ?t))) (eng, sched) ?w'"
    by (rule keepsD [OF keeps_cache_execute [OF W]]) (simp add: cache_state_def w c)
  moreover have "ks_keys (view (svc ?w')) (lock_key (project_name ?t)) = None"
    using execute_locks [OF w(1) ttl, of W] w(2) by (simp add: W inproc_q.lock_safe_queue_axioms)
  moreover have "iter_events eng md (heap ?w' x) = iter_events eng md ?t"
    using same by (simp add: iter_events_def same_identity_def)
  ultimately show "always_retriable E view x s ?w'"
    using same s unfolding always_retriable_def Let_def
    by (auto simp: cache_state_def same_identity_def)
qed

lemma retries_end:
  assumes W: "w_queue W = inproc_queue" and ttl: "0 < lock_ttl (settings E)"
  shows "always_retriable E view x s w \<Longrightarrow> mem_queue w = [x]
    \<Longrightarrow> retry_count (heap w x) + int n = w_max_retries W \<Longrightarrow> length turns = Suc n
    \<Longrightarrow> fst (worker_run E W turns w) = Inr ()
      \<and> status (heap (snd (worker_run E W turns w)) x) = FAILED
      \<and> retry_count (heap (snd (worker_run E W turns w)) x) = w_max_retries W
      \<and> mem_queue (snd (worker_run E W turns w)) = []"
proof (induction n arbitrary: w turns)
  case (0 w)
  obtain ft beats where turns: "turns = [(ft, beats)]"
    using 0 by (cases turns) auto
  let ?w = "w\<lparr>mem_queue := []\<rparr>"
  have "always_retriable E view x s ?w" using 0 by (simp add: always_retriable_def)
  from retriable_execute(1) [OF W ttl this, of ft beats] 0
  have "fst (execute E W ft beats x ?w) = Inr ()"
    "status (heap (snd (execute E W ft beats x ?w)) x) = FAILED"
    "retry_count (heap (snd (execute E W ft beats x ?w)) x) = w_max_retries W"
    "mem_queue (snd (execute E W ft beats x ?w)) = []"
    by (auto simp: observed_def verdict_def)
  moreover have "worker_run E W turns w = py_then (execute E W ft beats x) (py_return ()) ?w"
    using 0 by (simp add: turns W inproc_queue_def mem_dequeue_def py_simps)
  ultimately show ?case by (simp add: py_simps)
next
  case (Suc n w)
  obtain ft beats turns' where turns: "turns = (ft, beats) # turns'" "length turns' = Suc n"
    using Suc.prems by (cases turns) auto
  let ?w = "w\<lparr>mem_queue := []\<rparr>"
  let ?w' = "snd (execute E W ft beats x ?w)"
  have r: "always_retriable E view x s ?w" using Suc.prems by (simp add: always_retriable_def)
  from retriable_execute(1) [OF W ttl r, of ft beats] Suc.prems(3)
  have ex: "fst (execute E W ft beats x ?w) = Inr ()" "mem_queue ?w' = [x]"
    "retry_count (heap ?w' x) + int n = w_max_retries W"
    by (auto simp: observed_def verdict_def)
  have "worker_run E W turns w = py_then (execute E W ft beats x) (worker_run E W turns') ?w"
    using Suc.prems(2) by (simp add: turns W inproc_queue_def mem_dequeue_def py_simps)
  also have "\<dots> = worker_run E W turns' ?w'"
    by (rule py_then_run) (rule ex(1))
  finally have "worker_run E W turns w = worker_run E W turns' ?w'" .
  with Suc.IH [OF retriable_execute(2) [OF W ttl r] ex(2,3) turns(2)] show ?case by simp
qed

text \<open>The same task on the Redis queue.\<close>

lemma retriable_redis:
  assumes W: "w_queue W = redis_queue E" and ttl: "0 < lock_ttl (settings E)"
    and r: "always_retriable E view x s w" and w: "pending w = []" "store_inv E (view (svc w))"
    and q: "queue_of (view (svc w)) = q @ [enc E (heap w x)]"
  shows "fst (worker_run E W (turn # turns) w) = Inl TimeoutError
    \<and> queue_of (view (svc (snd (worker_run E W (turn # turns) w)))) = q
    \<and> (\<exists>r. fst (get_task E (task_id (heap w x)) (snd (worker_run E W (turn # turns) w))) = Inr r
         \<and> resp_status r = RUNNING \<and> resp_retry_count r = retry_count (heap w x))"
proof -
  let ?t = "heap w x"
  obtain eng sched md where "client_ready w" "ks_keys (view (svc w)) (lock_key (project_name ?t)) = None"
    "map_of (engine_cache w) (cache_key E (or_none (work_dir ?t)) (or_none (config_json ?t))) = Some (eng, sched)"
    "sync_checks sched"
    "decision_table (requirement ?t = []) (has_project sched (project_name ?t))
        (has_checkpoint sched (project_name ?t)) = Some md"
    using r by (auto simp: always_retriable_def Let_def)
  from queued_task_run [OF this(1) w q ttl W this(2-5) refl, of turn turns]
  show ?thesis by (auto simp: from_task_def running_task_def simp del: worker_run.simps)
qed

end

section \<open>Properties\<close>

text \<open>C29: retries come to an end. The engine of the task is in the cache and raises a \<open>RetriableError\<close>
  at every attempt, its mode is decided and its lock is free (\<open>always_retriable\<close>). On the in-process
  queue, with no other task in it, \<open>max_retries - retry_count + 1\<close> turns of a worker return with the
  task \<open>FAILED\<close>, its retries used up and the queue empty. On the Redis queue, which the program uses,
  there is no retry: when the task is the next one of the queue, the first turn takes it and ends the
  worker with the \<open>TimeoutError\<close> of its first write; its record stays \<open>RUNNING\<close> with the retries it had,
  and it is not queued again.\<close>

theorem retries_terminate:
  assumes "deployment E view" "0 < lock_ttl (settings E)" "always_retriable E view x s w"
    and "retry_count (heap w x) + int n = w_max_retries W" "length turns = Suc n"
  shows "(w_queue W = inproc_queue \<longrightarrow> mem_queue w = [x] \<longrightarrow>
        fst (worker_run E W turns w) = Inr ()
        \<and> status (heap (snd (worker_run E W turns w)) x) = FAILED
        \<and> retry_count (heap (snd (worker_run E W turns w)) x) = w_max_retries W
        \<and> mem_queue (snd (worker_run E W turns w)) = [])
    \<and> (w_queue W = redis_queue E \<longrightarrow> pending w = [] \<longrightarrow> store_inv E (view (svc w)) \<longrightarrow>
        queue_of (view (svc w)) = q @ [enc E (heap w x)] \<longrightarrow>
        fst (worker_run E W turns w) = Inl TimeoutError
        \<and> queue_of (view (svc (snd (worker_run E W turns w)))) = q
        \<and> (\<exists>r. fst (get_task E (task_id (heap w x)) (snd (worker_run E W turns w))) = Inr r
             \<and> resp_status r = RUNNING \<and> resp_retry_count r = retry_count (heap w x)))"
proof (intro conjI impI)
  show "fst (worker_run E W turns w) = Inr ()"
    "status (heap (snd (worker_run E W turns w)) x) = FAILED"
    "retry_count (heap (snd (worker_run E W turns w)) x) = w_max_retries W"
    "mem_queue (snd (worker_run E W turns w)) = []"
    if "w_queue W = inproc_queue" "mem_queue w = [x]"
    using deployment.retries_end [OF assms(1) that(1) assms(2,3) that(2) assms(4,5)] by blast+
  obtain turn rest where turns: "turns = turn # rest" using assms(5) by (cases turns) simp_all
  show "fst (worker_run E W turns w) = Inl TimeoutError"
    "queue_of (view (svc (snd (worker_run E W turns w)))) = q"
    "\<exists>r. fst (get_task E (task_id (heap w x)) (snd (worker_run E W turns w))) = Inr r
       \<and> resp_status r = RUNNING \<and> resp_retry_count r = retry_count (heap w x)"
    if "w_queue W = redis_queue E" "pending w = []" "store_inv E (view (svc w))"
      "queue_of (view (svc w)) = q @ [enc E (heap w x)]"
    using deployment.retriable_redis [OF assms(1) that(1) assms(2,3) that(2-4), of turn rest]
    unfolding turns by blast+
qed

theorem retries_terminate_witness:
  "status (heap (snd (worker_run mem_env (demo_worker inproc_queue) (replicate 4 (Completes, 1))
     ((with_engine (Inl (RetriableError ''e'')) start_world)\<lparr>mem_queue := [0]\<rparr>))) 0) = FAILED
  \<and> fst (worker_run mem_env (demo_worker (redis_queue mem_env)) (replicate 4 (Completes, 1))
     (with_engine (Inl (RetriableError ''e'')) queued_world)) = Inl TimeoutError"
proof
  let ?e = "Inl (RetriableError ''e'') :: exn + iterator"
  have retriable: "always_retriable mem_env mem_view 0 ''e'' (with_engine ?e w\<lparr>mem_queue := q\<rparr>)"
    if "client_ready w" "heap w 0 = no_task" "ks_keys (mem_view (svc w)) (lock_key ''demo'') = None" for w q
    unfolding always_retriable_def Let_def using that
    by (auto simp: with_engine_def iter_events_def demo_engine_def
        intro!: exI [of _ "demo_engine (Inl (RetriableError ''e''))"]
          exI [of _ "demo_scheduler False False"] exI [of _ NEW])
  have "always_retriable mem_env mem_view 0 ''e'' ((with_engine ?e start_world)\<lparr>mem_queue := [0]\<rparr>)"
    by (rule retriable) simp_all
  from retries_terminate [OF memory.deployment_axioms _ this, of 3 "demo_worker inproc_queue"
      "replicate 4 (Completes, 1)"]
  show "status (heap (snd (worker_run mem_env (demo_worker inproc_queue) (replicate 4 (Completes, 1))
     ((with_engine ?e start_world)\<lparr>mem_queue := [0]\<rparr>))) 0) = FAILED" by simp
  let ?w = "with_engine ?e queued_world"
  have "always_retriable mem_env mem_view 0 ''e'' (?w\<lparr>mem_queue := mem_queue ?w\<rparr>)"
  proof (rule retriable)
    show "client_ready queued_world" "heap queued_world 0 = no_task"
      by (simp_all add: queued_world_def)
    show "ks_keys (mem_view (svc queued_world)) (lock_key ''demo'') = None"
      using queued_world_free by (simp add: no_task_def)
  qed
  moreover have "?w\<lparr>mem_queue := mem_queue ?w\<rparr> = ?w" by simp
  ultimately have "always_retriable mem_env mem_view 0 ''e'' ?w" by (simp only:)
  from retries_terminate [OF memory.deployment_axioms _ this, of 3 "demo_worker (redis_queue mem_env)"
      "replicate 4 (Completes, 1)" "[]"] queued_world_inv queued_world_queue
  show "fst (worker_run mem_env (demo_worker (redis_queue mem_env)) (replicate 4 (Completes, 1)) ?w)
      = Inl TimeoutError"
    by (simp add: queued_world_def del: worker_run.simps)
qed

end
