(* ===== verification/Application.thy ===== *)
theory Application
  imports Recovery Worker Config
begin

text \<open>
  The entry point (\<open>src/main.py\<close>): the import with its logging configuration, connecting to Redis,
  crash recovery, the pool of workers and its shutdown, the signal handlers, the configuration of the server and the closing of the connection. The
  HTTP server itself, what the operating system says to a handler, and the time the
  loop gives to each coroutine come from outside: a session is what runs between recovery and the end,
  and the pool is a step relation in which any worker may do its next iteration. One iteration (a
  \<open>dequeue\<close> and the execution it leads to) is one step.
\<close>

section \<open>Startup and end\<close>

text \<open>The worker that \<open>_run_app\<close> builds, as many times as \<open>worker_concurrency\<close> says.\<close>

definition app_worker :: "'r env \<Rightarrow> 'r worker" where
  "app_worker E =
     \<lparr>w_queue = redis_queue E, w_max_retries = max_retries (settings E),
      w_poll_interval = worker_poll_interval (settings E)\<rparr>"

definition app_workers :: "'r env \<Rightarrow> 'r worker list" where
  "app_workers E = replicate (nat (worker_concurrency (settings E))) (app_worker E)"

text \<open>Recovery comes first; \<open>fuel\<close> bounds its scan.\<close>

definition run_app :: "nat \<Rightarrow> 'r env \<Rightarrow> ('r worker list \<Rightarrow> ('r, unit) prog) \<Rightarrow> ('r, unit) prog" where
  "run_app fuel E session =
     py_bind (recover_stranded_tasks fuel E) (\<lambda>recovered.
       case recovered of None \<Rightarrow> py_return () | Some n \<Rightarrow> session (app_workers E))"

definition async_main ::
  "nat \<Rightarrow> 'r env \<Rightarrow> exn + unit \<Rightarrow> ('r worker list \<Rightarrow> ('r, unit) prog) \<Rightarrow> ('r, unit) prog" where
  "async_main fuel E ping session =
     py_then (init_redis ping) (py_finally (run_app fuel E session) close_redis)"

text \<open>\<open>asyncio.gather\<close> of \<open>n\<close> awaitables, over their results in the order they end: it raises the first
  exception, or returns when all have; \<open>None\<close> means it still waits.\<close>

fun gather :: "nat \<Rightarrow> (exn + unit) list \<Rightarrow> (exn + unit) option" where
  "gather 0 rs = Some (Inr ())"
| "gather (Suc n) [] = None"
| "gather (Suc n) (Inl e # rs) = Some (Inl e)"
| "gather (Suc n) (Inr u # rs) = gather n rs"

text \<open>The session of \<open>_run_app\<close>: the server and the pool; \<open>outcomes\<close> says how they end, \<open>run\<close> what they do.\<close>

definition serve_and_work ::
  "('r worker list \<Rightarrow> ('r, (exn + unit) list) prog) \<Rightarrow> 'r worker list \<Rightarrow> ('r, unit) prog" where
  "serve_and_work run workers =
     py_bind (run workers) (\<lambda>outcomes.
       case gather 2 outcomes of None \<Rightarrow> py_return () | Some r \<Rightarrow> py_of_sum r)"

section \<open>Signals, the server and the process\<close>

datatype signo = SIGINT | SIGTERM

datatype handler = LoopHandler | ProcessHandler

definition not_implemented :: exn where
  "not_implemented = OtherError ''NotImplementedError''"

text \<open>The loop over the signals: a loop that has no signal handlers leaves them to the process. Either
  handler sets the shutdown event, the step \<open>stop\<close> of the pool below.\<close>

fun install_handlers ::
  "(signo \<Rightarrow> exn + unit) \<Rightarrow> (signo \<Rightarrow> exn + unit) \<Rightarrow> signo list \<Rightarrow> exn + (signo \<times> handler) list" where
  "install_handlers add sys [] = Inr []"
| "install_handlers add sys (sig # sigs) =
     (case (case add sig of
              Inr _ \<Rightarrow> Inr LoopHandler
            | Inl e \<Rightarrow>
                (if e = not_implemented
                 then (case sys sig of Inr _ \<Rightarrow> Inr ProcessHandler | Inl e' \<Rightarrow> Inl e') else Inl e)) of
        Inl e \<Rightarrow> Inl e
      | Inr h \<Rightarrow>
          (case install_handlers add sys sigs of
             Inl e \<Rightarrow> Inl e
           | Inr hs \<Rightarrow> Inr ((sig, h) # hs)))"

record server_config =
  sc_host :: string
  sc_port :: int
  sc_log_level :: string
  sc_loop :: string

text \<open>\<open>lower\<close> on ASCII letters, of which the names of log levels consist.\<close>

definition uvicorn_config :: "'f settings_of \<Rightarrow> (environ, server_config) py" where
  "uvicorn_config S =
     py_bind (getenv ''LOG_LEVEL'' ''info'') (\<lambda>level.
       py_return \<lparr>sc_host = api_host S, sc_port = api_port S, sc_log_level = map lower_char level,
                  sc_loop = ''none''\<rparr>)"

text \<open>How \<open>asyncio.run\<close> ends, and what the process makes of it.\<close>

datatype run_end = Ends "exn + unit" | Interrupted

datatype process_end = Returns | Exits int | Uncaught exn

definition main :: "run_end \<Rightarrow> process_end" where
  "main r =
     (case r of
        Ends (Inr _) \<Rightarrow> Returns
      | Ends (Inl e) \<Rightarrow> Uncaught e
      | Interrupted \<Rightarrow> Exits 0)"

lemma handlers_installed:
  assumes "install_handlers add sys sigs = Inr hs"
  shows "map fst hs = sigs"
  using assms by (induction sigs arbitrary: hs) (auto split: sum.splits if_splits)

lemma gather_waits:
  "gather n rs = Some (Inr ()) \<longleftrightarrow> n \<le> length rs \<and> (\<forall>r \<in> set (take n rs). r = Inr ())"
  by (induction n rs rule: gather.induct) auto

section \<open>Importing the module\<close>

text \<open>\<open>logging.basicConfig(level=...)\<close>: nothing when the root logger has handlers already, else the level
  must be one of the names of \<open>logging\<close>, in capitals.\<close>

definition level_names :: "string list" where
  "level_names =
     [''CRITICAL'', ''FATAL'', ''ERROR'', ''WARN'', ''WARNING'', ''INFO'', ''DEBUG'', ''NOTSET'']"

definition basic_config :: "bool \<Rightarrow> (environ, unit) py" where
  "basic_config has_handlers =
     py_bind (getenv ''LOG_LEVEL'' ''INFO'') (\<lambda>level.
       if has_handlers \<or> level \<in> set level_names then py_return ()
       else py_raise (ValueError (''Unknown level: '' @ py_repr level)))"

text \<open>\<open>src/config.py\<close> is imported first, and with it the settings are loaded.\<close>

definition import_main :: "bool \<Rightarrow> (environ, py_float settings_of) py" where
  "import_main has_handlers =
     py_bind load_settings (\<lambda>S. py_then (basic_config has_handlers) (py_return S))"

lemma load_settings_env: "snd (load_settings env) = env"
proof -
  have bind: "snd (py_bind m f env) = env" if "snd (m env) = env" "\<And>a. snd (f a env) = env"
    for m :: "(environ, 'a) py" and f :: "'a \<Rightarrow> (environ, 'b) py"
    using that by (simp add: py_bind_def split: sum.split)
  have reads: "snd (environ_item k env) = env" "snd (int_env k d env) = env"
    "snd (float_env k d env) = env" "snd (getenv k d env) = env" "snd (heartbeat_env env) = env" for k d
    by (simp_all add: environ_item_def int_env_def float_env_def heartbeat_env_def py_simps
        split: option.split sum.split)
  show ?thesis
    unfolding load_settings_def by (intro bind reads) (simp add: py_return_def)
qed

text \<open>The process starts exactly when the settings load and the level is known.\<close>

lemma import_main_starts:
  "fst (import_main has_handlers env) = Inr S \<longleftrightarrow>
     fst (load_settings env) = Inr S
     \<and> (has_handlers \<or> (case env ''LOG_LEVEL'' of None \<Rightarrow> True | Some level \<Rightarrow> level \<in> set level_names))"
  using load_settings_env [of env]
  by (auto simp: import_main_def basic_config_def env_or_def level_names_def py_simps
      split: sum.split option.split)

text \<open>The default of \<open>uvicorn_config\<close>, \<open>info\<close>, is no level here.\<close>

lemma lower_case_level_fails:
  assumes "fst (load_settings env) = Inr S" "env ''LOG_LEVEL'' = Some ''info''"
  shows "fst (import_main False env) = Inl (ValueError (''Unknown level: '' @ py_repr ''info''))"
    and "sc_log_level (projr (fst (uvicorn_config S env))) = ''info''"
proof -
  show "fst (import_main False env) = Inl (ValueError (''Unknown level: '' @ py_repr ''info''))"
    using assms load_settings_env [of env]
    by (simp add: import_main_def basic_config_def env_or_def level_names_def py_simps)
  have "map lower_char ''info'' = ''info''" by code_simp
  then show "sc_log_level (projr (fst (uvicorn_config S env))) = ''info''"
    using assms(2) by (simp add: uvicorn_config_def env_or_def py_simps)
qed

section \<open>The pool\<close>

datatype worker_state = Looping | Finished | Crashed exn

text \<open>The state of \<open>_run_worker_pool\<close>: the workers' coroutines, and whether \<open>stop()\<close> was called.
  \<open>pl_started\<close> counts the executions that got their lock (\<open>starts_task\<close>); the program does not keep it.\<close>

record 'r pool =
  pl_world :: "'r world"
  pl_workers :: "worker_state list"
  pl_stopping :: bool
  pl_started :: nat

definition after_turn :: "bool \<Rightarrow> exn + unit \<Rightarrow> worker_state" where
  "after_turn stopping r =
     (case r of Inl e \<Rightarrow> Crashed e | Inr _ \<Rightarrow> if stopping then Finished else Looping)"

text \<open>A worker that waits for a task may be cancelled once the pool is stopping; one that executes is
  cancelled by the fate of its turn.\<close>

inductive pool_step :: "'r env \<Rightarrow> 'r worker \<Rightarrow> 'r pool \<Rightarrow> 'r pool \<Rightarrow> bool"
  for E :: "'r env" and W :: "'r worker" where
  iterate: "i < length (pl_workers s) \<Longrightarrow> pl_workers s ! i = Looping \<Longrightarrow>
     worker_run E W [turn] (pl_world s) = (r, w) \<Longrightarrow>
     pool_step E W s
       (s\<lparr>pl_world := w, pl_workers := (pl_workers s)[i := after_turn (pl_stopping s) r],
          pl_started := pl_started s + (if starts_task E W (pl_world s) then 1 else 0)\<rparr>)"
| stop: "pool_step E W s (s\<lparr>pl_stopping := True\<rparr>)"
| cancel: "pl_stopping s \<Longrightarrow> i < length (pl_workers s) \<Longrightarrow> pl_workers s ! i = Looping \<Longrightarrow>
     pool_step E W s (s\<lparr>pl_workers := (pl_workers s)[i := Crashed (CancelledError None)]\<rparr>)"

inductive pool_run :: "'r env \<Rightarrow> 'r worker \<Rightarrow> 'r pool \<Rightarrow> 'r pool \<Rightarrow> bool"
  for E :: "'r env" and W :: "'r worker" where
  here: "pool_run E W s s"
| more: "pool_run E W s t \<Longrightarrow> pool_step E W t u \<Longrightarrow> pool_run E W s u"

inductive_cases pool_stepE: "pool_step E W s t"

text \<open>\<open>asyncio.gather(..., return_exceptions=True)\<close> returns when all coroutines have ended, whatever
  with.\<close>

definition pool_returns :: "'r pool \<Rightarrow> bool" where
  "pool_returns s = (pl_stopping s \<and> Looping \<notin> set (pl_workers s))"

section \<open>How many tasks a pool can start\<close>

definition alive :: "worker_state list \<Rightarrow> nat" where
  "alive ws = length (filter (\<lambda>v. v = Looping) ws)"

lemma alive_update:
  "i < length ws \<Longrightarrow> ws ! i = Looping \<Longrightarrow>
   alive (ws[i := v]) + (if v = Looping then 0 else 1) = alive ws"
proof (induction ws arbitrary: i)
  case (Cons v' ws)
  then show ?case by (cases i) (auto simp: alive_def)
qed simp

lemma alive_zero: "alive ws = 0 \<longleftrightarrow> Looping \<notin> set ws"
  by (auto simp: alive_def filter_empty_conv)

definition capacity :: "'r pool \<Rightarrow> nat" where
  "capacity s = pl_started s + alive (pl_workers s)"

lemma pool_step_capacity:
  assumes "w_queue W = redis_queue E" "pool_step E W s t"
  shows "capacity t \<le> capacity s"
  using assms(2)
proof (rule pool_stepE)
  fix i turn r w
  assume i: "i < length (pl_workers s)" "pl_workers s ! i = Looping"
    and run: "worker_run E W [turn] (pl_world s) = (r, w)"
    and t: "t = s\<lparr>pl_world := w, pl_workers := (pl_workers s)[i := after_turn (pl_stopping s) r],
      pl_started := pl_started s + (if starts_task E W (pl_world s) then 1 else 0)\<rparr>"
  have "after_turn (pl_stopping s) r \<noteq> Looping" if "starts_task E W (pl_world s)"
    using started_turn_crashes [OF assms(1) that, of turn "[]"] run by (auto simp: after_turn_def)
  with alive_update [OF i, of "after_turn (pl_stopping s) r"] show ?thesis
    by (cases "starts_task E W (pl_world s)") (auto simp: capacity_def t split: if_splits)
next
  assume "t = s\<lparr>pl_stopping := True\<rparr>"
  then show ?thesis by (simp add: capacity_def)
next
  fix i
  assume i: "i < length (pl_workers s)" "pl_workers s ! i = Looping"
    and t: "t = s\<lparr>pl_workers := (pl_workers s)[i := Crashed (CancelledError None)]\<rparr>"
  from alive_update [OF i, of "Crashed (CancelledError None)"] show ?thesis
    by (simp add: capacity_def t)
qed

lemma pool_run_capacity:
  "pool_run E W s t \<Longrightarrow> w_queue W = redis_queue E \<Longrightarrow> capacity t \<le> capacity s"
  by (induction rule: pool_run.induct) (auto dest: pool_step_capacity)

lemma pool_run_trans: "pool_run E W t u \<Longrightarrow> pool_run E W s t \<Longrightarrow> pool_run E W s u"
  by (induction rule: pool_run.induct) (auto intro: pool_run.more)

text \<open>Cancelling the workers that wait, one after the other.\<close>

lemma pool_stops:
  "pl_stopping s \<Longrightarrow> \<exists>t. pool_run E W s t \<and> pl_world t = pl_world s \<and> pool_returns t"
proof (induction "alive (pl_workers s)" arbitrary: s)
  case 0
  then have "pool_returns s" by (simp add: pool_returns_def alive_zero [symmetric])
  then show ?case using pool_run.here by blast
next
  case (Suc n)
  then have "Looping \<in> set (pl_workers s)" by (metis alive_zero nat.distinct(1))
  then obtain i where i: "i < length (pl_workers s)" "pl_workers s ! i = Looping"
    by (auto simp: in_set_conv_nth)
  let ?s = "s\<lparr>pl_workers := (pl_workers s)[i := Crashed (CancelledError None)]\<rparr>"
  have "n = alive (pl_workers ?s)"
    using alive_update [OF i, of "Crashed (CancelledError None)"] Suc.hyps(2) by simp
  with Suc.hyps(1) [of ?s] Suc.prems obtain t where
    t: "pool_run E W ?s t" "pl_world t = pl_world s" "pool_returns t" by auto
  have "pool_run E W s ?s"
    by (rule pool_run.more [OF pool_run.here pool_step.cancel]) (use Suc.prems i in simp_all)
  with t pool_run_trans show ?case by blast
qed

section \<open>Properties\<close>

text \<open>C13: a pool starts at most as many tasks as it has workers. On the Redis queue, however the
  iterations of the workers interleave and whatever the engines do, the tasks started and the workers
  still looping never exceed the number of workers; nothing brings a worker back.\<close>

theorem pool_capacity:
  assumes "w_queue W = redis_queue E" "pool_run E W s t"
    and "pl_workers s = replicate n Looping" "pl_started s = 0"
  shows "pl_started t + alive (pl_workers t) \<le> n"
  using pool_run_capacity [OF assms(2,1)] assms(3,4) by (simp add: capacity_def alive_def)

text \<open>the pool can always be shut down. From every state of a pool whose shutdown has begun there are
  steps after which every worker has ended and \<open>_run_worker_pool\<close> returns.\<close>

theorem pool_shutdown:
  assumes "pl_stopping s"
  shows "\<exists>t. pool_run E W s t \<and> pool_returns t \<and> pl_world t = pl_world s"
  using pool_stops [OF assms, of E W] by blast

text \<open>a failing half ends the whole. When the server or the pool raises first, the session raises the same;
  it returns only when both have.\<close>

theorem session_outcome:
  shows "gather 2 [Inl e, r] = Some (Inl e)" "gather 2 [Inr (), r] = Some r" "gather 2 [Inr ()] = None"
  by (cases r; simp add: numeral_2_eq_2)+

text \<open>the application closes what it opened. Once the server has answered the ping, the shared client
  is gone when \<open>_async_main\<close> ends, whether recovery and the session return or raise; when the ping
  fails, nothing else is run and the client stays.\<close>

theorem connection_closed:
  shows "\<not> client_ready (snd (async_main fuel E (Inr ()) session w))
    \<and> fst (async_main fuel E (Inr ()) session w) = fst (run_app fuel E session (w\<lparr>client_ready := True\<rparr>))
    \<and> async_main fuel E (Inl e) session w = (Inl e, w\<lparr>client_ready := True\<rparr>)"
  by (simp add: async_main_def init_redis_def close_redis_def py_simps py_finally_def)


theorem pool_capacity_witness:
  "\<exists>t. pl_started t = 1 \<and> alive (pl_workers t) = 0
     \<and> pool_run mem_env (app_worker mem_env)
         \<lparr>pl_world = queued_world, pl_workers = [Looping], pl_stopping = False,
          pl_started = 0\<rparr> t"
proof -
  let ?W = "app_worker mem_env" and ?w = "queued_world"
  let ?s = "\<lparr>pl_world = ?w, pl_workers = [Looping], pl_stopping = False, pl_started = 0\<rparr>"
  let ?r = "worker_run mem_env ?W [(Completes, 0)] ?w"
  have W: "w_queue ?W = redis_queue mem_env" by (simp add: app_worker_def)
  have start: "starts_task mem_env ?W ?w"
    by (rule memory.free_task_starts [OF _ queued_world_inv _ W queued_world_queue queued_world_free])
      simp_all
  let ?t = "?s\<lparr>pl_world := snd ?r, pl_workers := (pl_workers ?s)[0 := after_turn False (fst ?r)],
      pl_started := 0 + 1\<rparr>"
  have "pool_step mem_env ?W ?s ?t"
    using pool_step.iterate [of 0 ?s mem_env ?W "(Completes, 0)" "fst ?r" "snd ?r"] start by simp
  then have run: "pool_run mem_env ?W ?s ?t" by (rule pool_run.more [OF pool_run.here])
  from pool_capacity [OF W run, of 1] have "alive (pl_workers ?t) = 0" by simp
  with run show ?thesis by (intro exI [of _ ?t]) simp
qed

theorem pool_shutdown_witness:
  "\<exists>t. pool_run mem_env (app_worker mem_env)
       \<lparr>pl_world = start_world, pl_workers = replicate 4 Looping, pl_stopping = True, pl_started = 0\<rparr> t
     \<and> pool_returns t"
  using pool_shutdown [of "\<lparr>pl_world = start_world, pl_workers = replicate 4 Looping,
      pl_stopping = True, pl_started = 0\<rparr>" mem_env "app_worker mem_env"]
  by auto

end
