(* ===== verification/Frames.thy ===== *)
theory Frames
  imports Concurrent_Creates Worker Recovery Lock_Protocol
begin

text \<open>
  What the operations of all components leave alone: every block of the store, queue, API, worker and
  recovery (\<open>src/task_queue/store.py\<close>, \<open>queue.py\<close>, \<open>src/api.py\<close>, \<open>src/worker.py\<close>, \<open>src/recovery.py\<close>)
  other than the lock operations keeps the locks, and every block keeps what identifies a task. The
  lemmas serve the system of theory \<open>System\<close>, where the operations interleave.
\<close>

section \<open>Locks, counters and identities\<close>

definition ttls_on_locks :: "keyspace \<Rightarrow> bool" where
  "ttls_on_locks K = (\<forall>k. ks_ttl K k \<noteq> None \<longrightarrow> (\<exists>p. k = lock_key p))"

definition same_locks :: "keyspace \<Rightarrow> keyspace \<Rightarrow> bool" where
  "same_locks K K' =
     (\<forall>p. ks_keys K' (lock_key p) = ks_keys K (lock_key p) \<and> ks_ttl K' (lock_key p) = ks_ttl K (lock_key p))"

definition grown :: "('r \<Rightarrow> keyspace) \<Rightarrow> 'r world \<Rightarrow> 'r world \<Rightarrow> bool" where
  "grown view w0 w =
     (client_ready w \<and> ttls_on_locks (view (svc w)) \<and> ticks w0 \<le> ticks w \<and> next_obj w0 \<le> next_obj w
      \<and> (\<forall>x < next_obj w0. same_identity (heap w0 x) (heap w x)))"

definition framed :: "('r \<Rightarrow> keyspace) \<Rightarrow> 'r world \<Rightarrow> 'r world \<Rightarrow> bool" where
  "framed view w0 w = (grown view w0 w \<and> same_locks (view (svc w0)) (view (svc w)))"

lemmas framed_defs = framed_def grown_def

lemma same_locks_refl [simp]: "same_locks K K"
  by (simp add: same_locks_def)

lemma same_locks_trans: "same_locks K K' \<Longrightarrow> same_locks K' K'' \<Longrightarrow> same_locks K K''"
  by (simp add: same_locks_def)

lemma framed_local [keeps_intros]:
  "keeps (framed view w0) (new_uuid E)" "keeps (framed view w0) (now E)"
  "keeps (framed view w0) (py_put (\<lambda>w. w\<lparr>pending := f w\<rparr>))"
  "keeps (framed view w0) (factory_get E wd cj)" "keeps (framed view w0) (alloc t)"
proof -
  show "keeps (framed view w0) (factory_get E wd cj)"
    unfolding keeps_def
  proof (intro allI impI)
    fix w assume "framed view w0 w"
    then show "framed view w0 (snd (factory_get E wd cj w))"
      by (cases rule: factory_get_cases [of w E wd cj]) (simp_all add: framed_defs)
  qed
qed (simp_all add: keeps_def framed_defs py_simps)

lemma framed_assign: "(\<And>t. same_identity t (f t)) \<Longrightarrow> keeps (framed view w0) (assign x f)"
  by (auto simp: keeps_def framed_defs py_simps intro: same_identity_trans)

lemma framed_touch [keeps_intros]:
  "keeps (framed view w0) (touch E x)" "keeps (framed view w0) (transition E x s d)"
  unfolding touch_def transition_def
  by (intro keeps_intros framed_assign; simp add: same_identity_def)+

lemma framed_decide [keeps_intros]: "keeps (framed view w0) (decide E S x)"
  unfolding decide_def Let_def checked_def apply_mode_def
  by (intro keeps_intros framed_assign; simp add: same_identity_def)

lemma framed_dump [keeps_intros]: "keeps (framed view w0) (model_dump_json E x)"
  unfolding model_dump_json_def by (intro keeps_intros)

lemma keeps_model_field:
  "keeps P dflt \<Longrightarrow> keeps P (model_field m k conv dflt)"
  by (auto simp: model_field_def intro!: keeps_intros split: option.split)

lemma framed_validate [keeps_intros]: "keeps (framed view w0) (model_validate_json E s)"
proof -
  have "keeps (framed view w0) (task_of_json (pyd E) (new_uuid E) (now E) j)" for j
    unfolding task_of_json_def by (cases j) (auto intro!: keeps_intros keeps_model_field)
  then show ?thesis
    unfolding model_validate_json_def by (intro keeps_intros)
qed

lemma framed_new_task [keeps_intros]: "keeps (framed view w0) (new_task E p r wd cj)"
  unfolding new_task_def by (intro keeps_intros)

lemma framed_collect [keeps_intros]:
  "(\<And>x. keeps P (f x)) \<Longrightarrow> keeps P (py_collect f xs)"
  by (induction xs) (auto intro!: keeps_intros)

section \<open>Commands on keys that are no locks\<close>

text \<open>A command that leaves locks and puts no time to live on anything else.\<close>

definition off_locks :: "('r \<Rightarrow> keyspace) \<Rightarrow> ('r, 'a) py \<Rightarrow> bool" where
  "off_locks view m =
     (\<forall>r. ttls_on_locks (view r) \<longrightarrow>
        ttls_on_locks (view (snd (m r))) \<and> same_locks (view r) (view (snd (m r))))"

lemma framed_redis: "off_locks view m \<Longrightarrow> keeps (framed view w0) (on_redis m)"
  by (auto simp: keeps_def framed_defs off_locks_def on_redis_def intro: same_locks_trans)

context deployment
begin

lemma off_locks_commands:
  assumes "\<And>p. k \<noteq> lock_key p"
  shows "off_locks view (r_set (redis E) k v nx None)" "off_locks view (r_delete (redis E) k)"
    and "off_locks view (r_sadd (redis E) k v)" "off_locks view (r_lpush (redis E) k v)"
    and "off_locks view (r_brpop (redis E) k n)"
  using assms assms [symmetric]
  by (auto simp: off_locks_def ttls_on_locks_def same_locks_def cmd_defs
      split: option.splits rval.splits if_splits)

lemma off_locks_reads:
  "off_locks view (r_get (redis E) k)" "off_locks view (r_smembers (redis E) k)"
  "off_locks view (r_llen (redis E) k)" "off_locks view (r_publish (redis E) c v)"
  by (simp_all add: off_locks_def same_locks_def ttls_on_locks_def cmd_publish_def)

lemma framed_commands [keeps_intros]:
  "keeps (framed view w0) (on_redis (r_set (redis E) (task_key i) v nx None))"
  "keeps (framed view w0) (on_redis (r_set (redis E) (digest_key E p r) v nx None))"
  "keeps (framed view w0) (on_redis (r_sadd (redis E) (project_tasks_key p) i))"
  "keeps (framed view w0) (on_redis (r_delete (redis E) (digest_key E p r)))"
  "keeps (framed view w0) (on_redis (r_lpush (redis E) queue_key v))"
  "keeps (framed view w0) (on_redis (r_brpop (redis E) queue_key n))"
  "keeps (framed view w0) (on_redis (r_get (redis E) k))"
  "keeps (framed view w0) (on_redis (r_smembers (redis E) k))"
  "keeps (framed view w0) (on_redis (r_publish (redis E) c v))"
  by (rule framed_redis, simp add: off_locks_commands off_locks_reads)+

lemma framed_store [keeps_intros]:
  "keeps (framed view w0) (store_save E x)" "keeps (framed view w0) (async_update E x)"
  "keeps (framed view w0) (store_get E i)" "keeps (framed view w0) (enqueue E x)"
  "keeps (framed view w0) (dequeue E n)"
  unfolding store_save_def async_update_def store_get_def enqueue_def dequeue_def
  by (intro keeps_intros)+

lemma framed_parse [keeps_intros]: "keeps (framed view w0) (parse_tasks E raws)"
  by (induction E raws rule: parse_tasks.induct) (auto intro!: keeps_intros)

lemma framed_find [keeps_intros]:
  "keeps (framed view w0) (find_incomplete E p)" "keeps (framed view w0) (find_by_digest E p r)"
  unfolding find_incomplete_def find_by_digest_def list_by_project_def pipe_get_def
  by (intro keeps_intros)+

lemma framed_bus [keeps_intros]:
  "keeps (framed view w0) (bus_close E i)" "keeps (framed view w0) (bus_publish E i ev)"
  unfolding bus_close_def bus_publish_def by (intro keeps_intros)+

lemma framed_run_coro [keeps_intros]: "keeps (framed view w0) (run_coro E c)"
  by (cases c) (auto intro!: keeps_intros)

lemma framed_advance [keeps_intros]: "keeps (framed view w0) (advance E ph)"
  unfolding advance_def respond_def by (cases ph) (auto intro!: keeps_intros split: option.split)

lemma framed_get_task [keeps_intros]: "keeps (framed view w0) (get_task E i)"
  unfolding get_task_def respond_def by (intro keeps_intros)

lemma framed_recover_key [keeps_intros]: "keeps (framed view w0) (recover_key E k)"
  unfolding recover_key_def by (intro keeps_intros)

lemma framed_recover_keys [keeps_intros]: "keeps (framed view w0) (recover_keys E ks n)"
  by (induction ks arbitrary: n) (auto intro!: keeps_intros)

end

section \<open>The store\<close>

text \<open>Every key but the locks.\<close>

definition same_off :: "keyspace \<Rightarrow> keyspace \<Rightarrow> bool" where
  "same_off K K' = (\<forall>k. (\<forall>p. k \<noteq> lock_key p) \<longrightarrow> ks_keys K' k = ks_keys K k)"

lemma same_off_keys: "ks_keys K' = ks_keys K \<Longrightarrow> same_off K K'"
  by (simp add: same_off_def)

lemma record_key_no_lock: "is_record_key k \<Longrightarrow> k \<noteq> lock_key p"
  by (auto simp: is_record_key_def lock_key_def)

lemma same_offD:
  assumes "same_off K K'"
  shows "ks_keys K' (task_key i) = ks_keys K (task_key i)"
    and "ks_keys K' (project_tasks_key p) = ks_keys K (project_tasks_key p)"
    and "ks_keys K' (digest_entry h) = ks_keys K (digest_entry h)"
    and "ks_keys K' queue_key = ks_keys K queue_key"
    and "holds E K' i t = holds E K i t" "members K' p = members K p" "queue_of K' = queue_of K"
proof -
  have d: "digest_entry h \<noteq> lock_key p" for p
    by (simp add: digest_entry_def lock_key_def)
  show "ks_keys K' (task_key i) = ks_keys K (task_key i)"
    "ks_keys K' (project_tasks_key p) = ks_keys K (project_tasks_key p)"
    "ks_keys K' (digest_entry h) = ks_keys K (digest_entry h)"
    "ks_keys K' queue_key = ks_keys K queue_key"
    using assms d by (simp_all add: same_off_def)
  then show "holds E K' i t = holds E K i t" "members K' p = members K p" "queue_of K' = queue_of K"
    by (simp_all add: holds_def members_def queue_of_def)
qed

lemma store_inv_same_off:
  assumes "same_off K K'"
  shows "store_inv E K' = store_inv E K" "task_keys_wf K' = task_keys_wf K" "carries E K K'"
proof -
  show "store_inv E K' = store_inv E K"
    unfolding store_inv_defs live_digest_def snapshot_def same_offD [OF assms] ..
  have "ks_keys K' k = ks_keys K k" if "is_record_key k" for k
    using assms record_key_no_lock [OF that] by (simp add: same_off_def)
  then show "task_keys_wf K' = task_keys_wf K" by (auto simp: task_keys_wf_def)
  show "carries E K K'"
    unfolding carries_def same_offD [OF assms] by (auto intro: exI [of _ _])
qed

lemma carries_refl [simp]: "carries E K K"
  unfolding carries_def using same_identity_refl by blast

lemma carries_trans: "carries E K K' \<Longrightarrow> carries E K' K'' \<Longrightarrow> carries E K K''"
  unfolding carries_def by (meson same_identity_trans)

lemma progressed_carries: "progressed E K K' \<Longrightarrow> carries E K K'"
  unfolding progressed_def carries_def by (metis settled_def same_identity_refl)

text \<open>A task object whose record is in the store.\<close>

definition stored :: "'r env \<Rightarrow> ('r \<Rightarrow> keyspace) \<Rightarrow> 'r world \<Rightarrow> obj \<Rightarrow> bool" where
  "stored E view w x =
     (x < next_obj w \<and> hex32 (task_id (heap w x))
      \<and> (\<exists>t. holds E (view (svc w)) (task_id (heap w x)) t \<and> same_identity (heap w x) t))"

definition sound :: "'r env \<Rightarrow> ('r \<Rightarrow> keyspace) \<Rightarrow> 'r world \<Rightarrow> bool" where
  "sound E view w =
     (store_inv E (view (svc w)) \<and> task_keys_wf (view (svc w))
      \<and> (\<forall>x. AsyncUpdate x \<in> set (pending w) \<longrightarrow> stored E view w x))"

definition kept :: "'r env \<Rightarrow> ('r \<Rightarrow> keyspace) \<Rightarrow> 'r world \<Rightarrow> 'r world \<Rightarrow> bool" where
  "kept E view w0 w =
     (grown view w0 w \<and> sound E view w \<and> carries E (view (svc w0)) (view (svc w)))"

definition good :: "'r env \<Rightarrow> ('r \<Rightarrow> keyspace) \<Rightarrow> 'r world \<Rightarrow> 'r world \<Rightarrow> bool" where
  "good E view w0 w = (kept E view w0 w \<and> same_locks (view (svc w0)) (view (svc w)))"

lemma goodD: "good E view w0 w \<Longrightarrow> kept E view w0 w" "good E view w0 w \<Longrightarrow> framed view w0 w"
  by (simp_all add: good_def kept_def framed_def)

lemma keptD:
  assumes "kept E view w0 w"
  shows "client_ready w" "ttls_on_locks (view (svc w))" "ticks w0 \<le> ticks w" "next_obj w0 \<le> next_obj w"
    "store_inv E (view (svc w))" "task_keys_wf (view (svc w))"
    "carries E (view (svc w0)) (view (svc w))"
    "x < next_obj w0 \<Longrightarrow> same_identity (heap w0 x) (heap w x)"
    "AsyncUpdate x \<in> set (pending w) \<Longrightarrow> stored E view w x"
  using assms by (simp_all add: kept_def grown_def sound_def)

lemma framed_self: "kept E view w0 w \<Longrightarrow> framed view w w"
  by (simp add: kept_def framed_defs)

lemma kept_self: "kept E view w0 w \<Longrightarrow> kept E view w w"
  by (simp add: kept_def grown_def)

lemma kept_trans: "kept E view w0 w1 \<Longrightarrow> kept E view w1 w2 \<Longrightarrow> kept E view w0 w2"
  unfolding kept_def grown_def by (auto intro: carries_trans same_identity_trans)

lemma good_self: "good E view w0 w \<Longrightarrow> good E view w w"
  by (auto simp: good_def intro: kept_self)

lemma good_trans: "good E view w0 w1 \<Longrightarrow> good E view w1 w2 \<Longrightarrow> good E view w0 w2"
  by (auto simp: good_def intro: kept_trans same_locks_trans)

lemma stored_grown:
  assumes "stored E view w0 x" "grown view w0 w" "carries E (view (svc w0)) (view (svc w))"
  shows "stored E view w x"
proof -
  obtain t where t: "x < next_obj w0" "hex32 (task_id (heap w0 x))"
    "holds E (view (svc w0)) (task_id (heap w0 x)) t" "same_identity (heap w0 x) t"
    using assms(1) by (auto simp: stored_def)
  have same: "same_identity (heap w0 x) (heap w x)" and x: "x < next_obj w"
    using assms(2) t(1) by (auto simp: grown_def)
  obtain t' where t': "holds E (view (svc w)) (task_id (heap w0 x)) t'" "same_identity t t'"
    using carriesD [OF assms(3) t(2,3)] by blast
  have "same_identity (heap w x) t'"
    using same_identity_trans [OF same_identity_sym [OF same] same_identity_trans [OF t(4) t'(2)]] .
  moreover have "task_id (heap w x) = task_id (heap w0 x)" using same by (simp add: same_identity_def)
  ultimately show ?thesis using x t(2) t'(1) by (auto simp: stored_def)
qed

lemma stored_kept: "stored E view w0 x \<Longrightarrow> kept E view w0 w \<Longrightarrow> stored E view w x"
  by (auto simp: kept_def intro: stored_grown)

text \<open>One more step that has been looked at by itself.\<close>

lemma kept_step:
  assumes w: "kept E view w0 w" and "grown view w w'" "carries E (view (svc w)) (view (svc w'))"
    and "store_inv E (view (svc w'))" "task_keys_wf (view (svc w'))"
    and "\<And>x. AsyncUpdate x \<in> set (pending w') \<Longrightarrow> AsyncUpdate x \<in> set (pending w) \<or> stored E view w x"
  shows "kept E view w w'" "kept E view w0 w'"
proof -
  have "stored E view w' x" if "AsyncUpdate x \<in> set (pending w')" for x
    using assms(6) [OF that] keptD(9) [OF w] stored_grown [OF _ assms(2,3)] by blast
  with assms show "kept E view w w'" by (simp add: kept_def sound_def)
  with w show "kept E view w0 w'" by (rule kept_trans)
qed

lemma good_step:
  assumes w: "good E view w0 w" and "framed view w w'" "carries E (view (svc w)) (view (svc w'))"
    and "store_inv E (view (svc w'))" "task_keys_wf (view (svc w'))"
    and "\<And>x. AsyncUpdate x \<in> set (pending w') \<Longrightarrow> AsyncUpdate x \<in> set (pending w) \<or> stored E view w x"
  shows "good E view w0 w'"
proof -
  have "kept E view w0 w'"
    by (rule kept_step(2) [OF goodD(1) [OF w]]) (use assms in \<open>simp_all add: framed_def\<close>)
  with w assms(2) show ?thesis by (auto simp: good_def framed_def intro: same_locks_trans)
qed

text \<open>Blocks that leave the records and the scheduled updates alone.\<close>

definition records :: "('r \<Rightarrow> keyspace) \<Rightarrow> (string \<Rightarrow> rval option) \<Rightarrow> coro list \<Rightarrow> 'r world \<Rightarrow> bool" where
  "records view F cs w = (client_ready w \<and> ks_keys (view (svc w)) = F \<and> pending w = cs)"

lemma keeps_good:
  fixes m :: "('r, 'a) prog"
  assumes f: "\<And>w0. keeps (framed view w0) m" and r: "\<And>F cs. keeps (records view F cs) m"
  shows "keeps (good E view w0) m"
  unfolding keeps_def
proof (intro allI impI)
  fix w assume w: "good E view w0 w"
  let ?w' = "snd (m w)"
  have fr: "framed view w ?w'" by (rule keepsD [OF f framed_self [OF goodD(1) [OF w]]])
  have "records view (ks_keys (view (svc w))) (pending w) w"
    using keptD(1) [OF goodD(1) [OF w]] by (simp add: records_def)
  from keepsD [OF r this] have k: "same_off (view (svc w)) (view (svc ?w'))" "pending ?w' = pending w"
    by (simp_all add: records_def same_off_keys)
  show "good E view w0 ?w'"
    by (rule good_step [OF w fr]) (use keptD(5,6) [OF goodD(1) [OF w]] k in
        \<open>simp_all add: store_inv_same_off [OF k(1)]\<close>)
qed

lemma records_local [keeps_intros]:
  "keeps (records view F cs) (new_uuid E)" "keeps (records view F cs) (now E)"
  "keeps (records view F cs) (assign x f)" "keeps (records view F cs) (factory_get E wd cj)"
  "keeps (records view F cs) (alloc t)"
proof -
  show "keeps (records view F cs) (factory_get E wd cj)"
    unfolding keeps_def
  proof (intro allI impI)
    fix w assume "records view F cs w"
    then show "records view F cs (snd (factory_get E wd cj w))"
      by (cases rule: factory_get_cases [of w E wd cj]) (simp_all add: records_def)
  qed
qed (simp_all add: keeps_def records_def py_simps)

lemma records_transition [keeps_intros]:
  "keeps (records view F cs) (transition E x s d)" "keeps (records view F cs) (decide E S x)"
  unfolding transition_def touch_def decide_def Let_def checked_def apply_mode_def
  by (intro keeps_intros)+

lemma records_validate [keeps_intros]: "keeps (records view F cs) (model_validate_json E s)"
proof -
  have "keeps (records view F cs) (task_of_json (pyd E) (new_uuid E) (now E) j)" for j
    unfolding task_of_json_def by (cases j) (auto intro!: keeps_intros keeps_model_field)
  then show ?thesis
    unfolding model_validate_json_def by (intro keeps_intros)
qed

lemma records_parse [keeps_intros]: "keeps (records view F cs) (parse_tasks E raws)"
  by (induction E raws rule: parse_tasks.induct) (auto intro!: keeps_intros)

section \<open>Every operation but the locks'\<close>

lemma grows_carries: "grows E view w w' \<Longrightarrow> carries E (view (svc w)) (view (svc w'))"
  unfolding grows_def carries_def using same_identity_refl by blast

lemma task_keys_wf_put:
  assumes "task_keys_wf K" "is_record_key k \<Longrightarrow> \<exists>i. hex32 i \<and> k = task_key i"
    and "ks_keys K' = (ks_keys K)(k := v)"
  shows "task_keys_wf K'"
  using assms unfolding task_keys_wf_def by (metis fun_upd_apply)

lemma no_record_keys:
  "\<not> is_record_key queue_key" "\<not> is_record_key (project_tasks_key p)" "\<not> is_record_key (digest_entry h)"
  by (simp_all add: is_record_key_def queue_key_def project_tasks_key_def digest_entry_def starts_with_iff)

lemma task_keys_wf_writes:
  assumes "task_keys_wf K"
  shows "hex32 (task_id t) \<Longrightarrow> task_keys_wf (updated E t K)" "task_keys_wf (queued E t K)"
    and "hex32 (task_id t) \<Longrightarrow> projects_inv E K \<Longrightarrow> task_keys_wf (saved E t K)"
proof -
  have one: "task_keys_wf K'" if "task_keys_wf L" "ks_keys K' = (ks_keys L)(k := v)" "\<not> is_record_key k"
    for L K' k v using task_keys_wf_put that by blast
  note keys = updated_keys queued_keys no_record_keys digest_key_def
  show "task_keys_wf (queued E t K)"
    by (rule one [OF assms queued_keys no_record_keys(1)])
  assume hex: "hex32 (task_id t)"
  let ?L = "K\<lparr>ks_keys := (ks_keys K)(task_key (task_id t) \<mapsto> RStr (enc E t))\<rparr>"
  have L: "task_keys_wf ?L"
    by (rule task_keys_wf_put [OF assms]) (use hex in auto)
  show "task_keys_wf (updated E t K)"
    using L one [OF L, of "updated E t K" "digest_key E (project_name t) (requirement t)" None]
    by (auto simp: task_keys_wf_def keys)
  assume "projects_inv E K"
  then obtain xs where xs: "ks_keys (saved E t K) =
        (if requirement t \<noteq> []
         then (ks_keys K)(task_key (task_id t) \<mapsto> RStr (enc E t),
                project_tasks_key (project_name t) \<mapsto> RSet xs,
                digest_key E (project_name t) (requirement t) \<mapsto> RStr (task_id t))
         else (ks_keys K)(task_key (task_id t) \<mapsto> RStr (enc E t),
                project_tasks_key (project_name t) \<mapsto> RSet xs))"
    using saved_keys by blast
  let ?M = "?L\<lparr>ks_keys := (ks_keys ?L)(project_tasks_key (project_name t) \<mapsto> RSet xs)\<rparr>"
  have M: "task_keys_wf ?M" by (rule one [OF L _ no_record_keys(2)]) simp
  have "task_keys_wf (?M\<lparr>ks_keys := (ks_keys ?M)(digest_key E (project_name t) (requirement t)
      \<mapsto> RStr (task_id t))\<rparr>)"
    unfolding digest_key_def by (rule one [OF M _ no_record_keys(3)]) simp
  with M show "task_keys_wf (saved E t K)"
    by (simp add: task_keys_wf_def xs)
qed

context deployment
begin

lemma storedD:
  assumes "stored E view w x"
  obtains t where "x < next_obj w" "hex32 (task_id (heap w x))" "same_identity (heap w x) t"
    "holds E (view (svc w)) (task_id (heap w x)) t"
  using assms by (auto simp: stored_def)

text \<open>Writing and queueing a stored task, and scheduling a write of it.\<close>

lemma good_async_update:
  assumes x: "stored E view w0 x"
  shows "keeps (good E view w0) (async_update E x)"
  unfolding keeps_def
proof (intro allI impI)
  fix w assume w: "good E view w0 w"
  note K = keptD [OF goodD(1) [OF w]]
  let ?w' = "snd (async_update E x w)" and ?t = "heap w x"
  obtain t where t: "hex32 (task_id ?t)" "same_identity ?t t" "holds E (view (svc w)) (task_id ?t) t"
    using stored_kept [OF x goodD(1) [OF w]] by (rule storedD)
  have fr: "framed view w ?w'" by (rule keepsD [OF framed_store(2) framed_self [OF goodD(1) [OF w]]])
  have v: "view (svc ?w') = updated E ?t (view (svc w))" by (rule async_update_run(2) [OF K(1)])
  have only: "u = t" if "holds E (view (svc w)) (task_id ?t) u" for u
    using that t(3) by (simp add: holds_def)
  have "holds E (updated E ?t (view (svc w))) i u = (if i = task_id ?t then u = ?t else holds E (view (svc w)) i u)"
    if "hex32 i" for i u
    using that by (auto simp: holds_def updated_keys)
  then have "carries E (view (svc w)) (updated E ?t (view (svc w)))"
    unfolding carries_def using only same_identity_refl same_identity_sym [OF t(2)] by metis
  then show "good E view w0 ?w'"
    by (intro good_step [OF w fr])
      (simp_all add: v updated_inv [OF K(5) t(1,3,2)] task_keys_wf_writes(1) [OF K(6) t(1)])
qed

lemma good_enqueue:
  assumes x: "stored E view w0 x"
  shows "keeps (good E view w0) (enqueue E x)"
  unfolding keeps_def
proof (intro allI impI)
  fix w assume w: "good E view w0 w"
  note K = keptD [OF goodD(1) [OF w]]
  let ?w' = "snd (enqueue E x w)" and ?t = "heap w x"
  obtain t where t: "hex32 (task_id ?t)" "same_identity ?t t" "holds E (view (svc w)) (task_id ?t) t"
    using stored_kept [OF x goodD(1) [OF w]] by (rule storedD)
  have fr: "framed view w ?w'" by (rule keepsD [OF framed_store(4) framed_self [OF goodD(1) [OF w]]])
  have v: "view (svc ?w') = queued E ?t (view (svc w))"
    using enqueue_run(2) [OF K(1)] K(5) by (simp add: store_inv_def)
  have "carries E (view (svc w)) (queued E ?t (view (svc w)))"
    unfolding carries_def using same_identity_refl by auto
  then show "good E view w0 ?w'"
    by (intro good_step [OF w fr])
      (simp_all add: v queued_inv [OF K(5) t(1,3,2)] task_keys_wf_writes(2) [OF K(6)])
qed

lemma good_store_update:
  assumes x: "stored E view w0 x"
  shows "keeps (good E view w0) (store_update E th x)"
  unfolding keeps_def
proof (intro allI impI)
  fix w assume w: "good E view w0 w"
  note K = keptD [OF goodD(1) [OF w]]
  have st: "stored E view w x" by (rule stored_kept [OF x goodD(1) [OF w]])
  show "good E view w0 (snd (store_update E th x w))"
    by (cases th; simp add: store_update_run w)
      (rule good_step [OF w], use framed_self [OF goodD(1) [OF w]] K st in \<open>auto simp: framed_defs\<close>)
qed

lemma records_bus [keeps_intros]:
  "keeps (records view F cs) (bus_close E i)" "keeps (records view F cs) (bus_publish E i ev)"
proof -
  show "keeps (records view F cs) (bus_close E i)"
    by (simp add: keeps_def records_def bus_close_run redis_only_frame(1,4) redis_only_bus cmd_publish_def)
  show "keeps (records view F cs) (bus_publish E i ev)"
    unfolding keeps_def
  proof (intro allI impI)
    fix w :: "'r world" assume w: "records view F cs w"
    show "records view F cs (snd (bus_publish E i ev w))"
      using w by (cases "event_payload ev")
        (simp_all add: records_def bus_publish_refused bus_publish_run redis_only_frame(1,4) redis_only_bus
          cmd_publish_def)
  qed
qed

lemma good_records [keeps_intros]:
  "keeps (good E view w0) (bus_close E i)" "keeps (good E view w0) (bus_publish E i ev)"
  "keeps (good E view w0) (transition E x s d)" "keeps (good E view w0) (decide E S x)"
  "keeps (good E view w0) (factory_get E wd cj)" "keeps (good E view w0) (new_uuid E)"
  by (intro keeps_good keeps_intros)+

lemma good_run_coro:
  assumes "\<And>x. c = AsyncUpdate x \<Longrightarrow> stored E view w0 x"
  shows "keeps (good E view w0) (run_coro E c)"
  using assms by (cases c) (auto intro: good_async_update keeps_intros)

text \<open>What a worker does under the lock, the handler of \<open>LockStolenError\<close> included.\<close>

lemma good_run_locked:
  assumes x: "stored E view w0 x" and W: "w_queue W = redis_queue E"
  shows "keeps (good E view w0) (run_locked E W ft x)"
    and "keeps (good E view w0) (handle_retriable E W x e)"
proof -
  have up: "keeps (good E view w0) (wq_update (w_queue W) th x)"
    and enq: "keeps (good E view w0) (wq_enqueue (w_queue W) x)" for th
    using good_store_update [OF x] good_enqueue [OF x] by (simp_all add: W redis_queue_def)
  have st: "keeps (good E view w0) (to_status E W x s d)" for s d
    unfolding to_status_def by (intro keeps_intros up)
  have cl: "keeps (good E view w0) (close_of E x)"
    unfolding close_of_def by (intro keeps_intros)
  have retries: "keeps (good E view w0) (assign x (\<lambda>t. t\<lparr>retry_count := retry_count t + 1\<rparr>))"
    by (intro keeps_good framed_assign keeps_intros) (simp add: same_identity_def)
  show re: "keeps (good E view w0) (handle_retriable E W x e)" for e
    unfolding handle_retriable_def by (intro keeps_intros retries up enq)
  have h: "keeps (good E view w0) (run_stream_handlers E W x e)" for e
    unfolding run_stream_handlers_def
    by (cases e) (auto intro!: keeps_intros st cl re)
  have "keeps (good E view w0) (py_bind (run_stream_handlers E W x e)
      (\<lambda>close. if close then close_of E x else py_return ()))" for e
    by (intro keeps_intros h cl)
  then have "keeps (good E view w0) (run_streaming E W ft x md eng)" for md eng
    by (simp add: keeps_def run_streaming_run)
  then show "keeps (good E view w0) (run_locked E W ft x)"
    unfolding run_locked_def by (intro keeps_intros st cl)
qed

text \<open>The lookups of the API.\<close>

lemma records_reads [keeps_intros]:
  "keeps (records view F cs) (on_redis (r_get (redis E) k))"
  "keeps (records view F cs) (on_redis (r_smembers (redis E) k))"
  by (simp_all add: keeps_def records_def py_simps)

lemma good_lookups:
  "keeps (good E view w0) (find_incomplete E p)" "keeps (good E view w0) (find_by_digest E p r)"
  "keeps (good E view w0) (get_task E i)"
proof -
  have "keeps (records view F cs) (find_incomplete E p)" "keeps (records view F cs) (find_by_digest E p r)"
    "keeps (records view F cs) (get_task E i)" for F cs
    unfolding find_incomplete_def find_by_digest_def list_by_project_def pipe_get_def get_task_def
      respond_def store_get_def
    by (intro keeps_intros)+
  then show "keeps (good E view w0) (find_incomplete E p)" "keeps (good E view w0) (find_by_digest E p r)"
    "keeps (good E view w0) (get_task E i)"
    by (intro keeps_good keeps_intros; blast)+
qed

end

section \<open>Requests\<close>

text \<open>A request: its object is stored, its answer is about a stored task.\<close>

definition answers :: "task_response \<Rightarrow> task \<Rightarrow> bool" where
  "answers a t = (\<exists>u. a = from_task u \<and> same_identity u t)"

definition request_ok :: "'r env \<Rightarrow> ('r \<Rightarrow> keyspace) \<Rightarrow> 'r world \<Rightarrow> phase \<Rightarrow> bool" where
  "request_ok E view w ph =
     (case ph of
        Stored x \<Rightarrow> stored E view w x
      | Answered a \<Rightarrow> (\<exists>i t. hex32 i \<and> holds E (view (svc w)) i t \<and> answers a t)
      | _ \<Rightarrow> True)"

lemma request_ok_carries:
  assumes "request_ok E view w ph" "grown view w w'" "carries E (view (svc w)) (view (svc w'))"
  shows "request_ok E view w' ph"
proof (cases ph)
  case (Stored x)
  with assms stored_grown show ?thesis by (auto simp: request_ok_def)
next
  case (Answered a)
  with assms(1) obtain i t u where t: "hex32 i" "holds E (view (svc w)) i t" "a = from_task u"
    "same_identity u t" by (auto simp: request_ok_def answers_def)
  obtain t' where "holds E (view (svc w')) i t'" "same_identity t t'"
    using carriesD [OF assms(3) t(1,2)] by blast
  with t(1,3) same_identity_trans [OF t(4)] show ?thesis
    unfolding Answered request_ok_def answers_def by auto
qed (simp_all add: request_ok_def)

context deployment
begin

lemma phase_ok_request: "phase_ok E view w ph \<Longrightarrow> request_ok E view w ph"
  by (cases ph) (auto simp: phase_ok_def request_ok_def stored_def answers_def intro: same_identity_refl)

lemma advance_good:
  assumes w: "good E view w0 w" and ph: "request_ok E view w ph"
  shows "good E view w0 (snd (advance E ph w))
    \<and> request_ok E view (snd (advance E ph w)) (next_phase (fst (advance E ph w)))"
proof -
  note K = keptD [OF goodD(1) [OF w]]
  let ?w' = "snd (advance E ph w)"
  have fr: "framed view w ?w'"
    by (rule keepsD [OF framed_advance framed_self [OF goodD(1) [OF w]]])
  show ?thesis
  proof (cases ph)
    case (Incoming body)
    have "keeps (good E view w0) (advance E ph)"
      unfolding Incoming advance_def respond_def phase.case by (intro keeps_intros good_lookups)
    with w advance_Incoming_inv [OF K(1,5), of body] show ?thesis
      by (auto simp: Incoming keeps_def intro: phase_ok_request)
  next
    case (NoIncomplete body)
    have "keeps (good E view w0) (advance E ph)"
      unfolding NoIncomplete advance_def respond_def phase.case by (intro keeps_intros good_lookups)
    with w advance_NoIncomplete_inv [OF K(1,5), of body] show ?thesis
      by (auto simp: NoIncomplete keeps_def intro: phase_ok_request)
  next
    case (Unique body)
    let ?t = "created_task E (ticks w) body"
    have pend: "pending ?w' = pending w"
      unfolding Unique by (cases "fst (store_save E (next_obj w) (with_created E body w))")
        (simp_all add: advance_unique with_created_def)
    show ?thesis
    proof (cases "ks_keys (view (svc w)) (task_key (task_id ?t)) = None")
      case True
      from advance_Unique_inv(1) [OF K(1,5) refl True] obtain v where
        v: "advance E (Unique body) w = (Inr (Stored (next_obj w)), v)"
        and *: "grows E view w v" "view (svc v) = saved E ?t (view (svc w))" "store_inv E (view (svc v))"
        "heap v = (heap w)(next_obj w := ?t)" "next_obj v = Suc (next_obj w)"
        by blast
      have hex: "hex32 (task_id ?t)" and proj: "projects_inv E (view (svc w))"
        using uuid_hex K(5) by (simp_all add: store_inv_def)
      have "good E view w0 ?w'"
        by (rule good_step [OF w fr])
          (use *(1,3) grows_carries [OF *(1)] task_keys_wf_writes(3) [OF K(6) hex proj] pend
            in \<open>simp_all add: Unique v *(2)\<close>)
      moreover have "stored E view v (next_obj w)"
        using *(4,5) hex saved_holds(1) [OF proj hex hex]
        by (auto simp: stored_def *(2) intro: same_identity_refl)
      ultimately show ?thesis by (simp add: Unique v request_ok_def)
    next
      case False
      from advance_Unique_inv(2) [OF K(1,5) refl False] obtain v where
        v: "advance E (Unique body) w = (Inl (task_exists (task_id ?t)), v)" "view (svc v) = view (svc w)"
        by blast
      have "good E view w0 ?w'"
        by (rule good_step [OF w fr]) (use K(5,6) pend in \<open>simp_all add: Unique v\<close>)
      then show ?thesis by (simp add: Unique v request_ok_def)
    qed
  next
    case (Stored x)
    have x: "stored E view w x" using ph by (simp add: Stored request_ok_def)
    let ?e = "enqueue E x w"
    have q: "fst ?e = Inr ()" using enqueue_run(1) [OF K(1)] K(5) by (simp add: store_inv_def)
    note run = advance_stored(2) [OF q]
    have good: "good E view w0 (snd ?e)"
      by (rule good_trans [OF w]) (use keepsD [OF good_enqueue [OF x]] w in \<open>auto simp: good_def kept_self\<close>)
    obtain t where t: "hex32 (task_id (heap w x))" "holds E (view (svc w)) (task_id (heap w x)) t"
      "same_identity (heap w x) t" using x by (rule storedD)
    have "view (svc (snd ?e)) = queued E (heap w x) (view (svc w))"
      using enqueue_run(2) [OF K(1)] K(5) by (simp add: store_inv_def)
    with t good show ?thesis
      by (auto simp: Stored run request_ok_def answers_def)
  qed (use w ph in \<open>simp_all add: advance_def py_simps\<close>)
qed

section \<open>Taking a task off the queue\<close>

lemma dequeue_good:
  assumes w: "good E view w0 w"
  shows "good E view w0 (snd (dequeue E n w))
    \<and> (\<exists>r. fst (dequeue E n w) = Inr r
        \<and> (\<forall>x. r = Some x \<longrightarrow> stored E view (snd (dequeue E n w)) x))"
proof -
  note K = keptD [OF goodD(1) [OF w]]
  let ?K = "view (svc w)" and ?w' = "snd (dequeue E n w)"
  have fr: "framed view w ?w'"
    by (rule keepsD [OF framed_store(5) framed_self [OF goodD(1) [OF w]]])
  have q: "queue_inv E ?K" using K(5) by (simp add: store_inv_def)
  note inv = dequeue_inv(1) [OF K(1,5), of n]
  show ?thesis
  proof (cases "queue_of ?K = []")
    case True
    note run = dequeue_run(1) [OF K(1) q True, of n]
    have "pending ?w' = pending w"
      using K(1) True by (cases rule: queue_key_cases [OF q])
        (simp_all add: dequeue_def py_simps cmd_brpop_def)
    then have "good E view w0 ?w'"
      by (intro good_step [OF w fr]) (use run K(5,6) in simp_all)
    with run show ?thesis by auto
  next
    case False
    then obtain ss s where ss: "queue_of ?K = ss @ [s]" by (metis rev_exhaust)
    then have "s \<in> set (queue_of ?K)" by simp
    with q have "snapshot E ?K s" unfolding queue_inv_def by blast
    then obtain t t' where t: "s = enc E t" "hex32 (task_id t)" "holds E ?K (task_id t) t'" "same_identity t t'"
      by (auto simp: snapshot_def)
    from dequeue_run(2) [OF K(1) q, of ss t n] ss t(1) have
      run: "fst (dequeue E n w) = Inr (Some (next_obj w))" "heap ?w' = (heap w)(next_obj w := t)"
      "next_obj ?w' = Suc (next_obj w)" "pending ?w' = pending w"
      and other: "\<And>k. k \<noteq> queue_key \<Longrightarrow> ks_keys (view (svc ?w')) k = ks_keys ?K k"
      by blast+
    have h: "holds E (view (svc ?w')) i u = holds E ?K i u" for i u
      by (simp add: holds_def other)
    have c: "carries E ?K (view (svc ?w'))"
      unfolding carries_def h using same_identity_refl by blast
    have "task_keys_wf (view (svc ?w'))"
      unfolding task_keys_wf_def using K(6) other no_record_keys(1) by (metis task_keys_wf_def)
    then have "good E view w0 ?w'"
      by (intro good_step [OF w fr c inv]) (simp_all add: run)
    moreover have "stored E view ?w' (next_obj w)"
      using t(2-4) by (auto simp: stored_def run h)
    ultimately show ?thesis using run(1) by auto
  qed
qed

section \<open>The operations on locks, and time\<close>

lemma kept_off_locks:
  assumes w: "kept E view w0 w" and "client_ready w'" "ttls_on_locks (view (svc w'))"
    "ticks w \<le> ticks w'" "heap w' = heap w" "next_obj w' = next_obj w" "pending w' = pending w"
    and off: "same_off (view (svc w)) (view (svc w'))"
  shows "kept E view w0 w'"
  by (rule kept_step(2) [OF w]) (use assms keptD(5,6) [OF w] in
      \<open>simp_all add: grown_def store_inv_same_off [OF off]\<close>)

lemma lock_ops_kept:
  assumes w: "kept E view w0 w" and ttl: "0 < ttl"
  shows "kept E view w0 (snd (acquire_lock E p tok ttl w))"
    and "kept E view w0 (snd (release_lock E p tok w))"
    and "kept E view w0 (snd (refresh_lock E p tok ttl w))"
proof -
  note K = keptD [OF w]
  have only: "redis_only (acquire_lock E p tok ttl)" "redis_only (release_lock E p tok)"
    "redis_only (refresh_lock E p tok ttl)"
    unfolding acquire_lock_def release_lock_def refresh_lock_def by (intro redis_only_intros)+
  note fr = redis_only_frame [OF only(1)] redis_only_frame [OF only(2)] redis_only_frame [OF only(3)]
  have "same_off (view (svc w)) (view (svc (snd (acquire_lock E p tok ttl w))))
      \<and> ttls_on_locks (view (svc (snd (acquire_lock E p tok ttl w))))"
    using K(1,2) ttl by (auto simp: lock_defs py_simps cmd_set_def same_off_def ttls_on_locks_def)
  then show "kept E view w0 (snd (acquire_lock E p tok ttl w))"
    by (intro kept_off_locks [OF w]) (use K(1) in \<open>simp_all add: fr\<close>)
  have "same_off (view (svc w)) (view (svc (snd (release_lock E p tok w))))
      \<and> ttls_on_locks (view (svc (snd (release_lock E p tok w))))"
    using K(1,2) by (auto simp: lock_defs py_simps cmd_get_def cmd_delete_def ks_remove_def same_off_def
        ttls_on_locks_def split: option.splits rval.splits)
  then show "kept E view w0 (snd (release_lock E p tok w))"
    by (intro kept_off_locks [OF w]) (use K(1) in \<open>simp_all add: fr\<close>)
  have "same_off (view (svc w)) (view (svc (snd (refresh_lock E p tok ttl w))))
      \<and> ttls_on_locks (view (svc (snd (refresh_lock E p tok ttl w))))"
    using K(1,2) ttl by (auto simp: lock_defs py_simps cmd_get_def cmd_expire_def ks_remove_def same_off_def
        ttls_on_locks_def split: option.splits rval.splits)
  then show "kept E view w0 (snd (refresh_lock E p tok ttl w))"
    by (intro kept_off_locks [OF w]) (use K(1) in \<open>simp_all add: fr\<close>)
qed

lemma pass_time_kept:
  assumes w: "kept E view w0 w"
  shows "kept E view w0 (pass_time E n w)"
proof -
  note K = keptD [OF w]
  have "same_off (view (svc w)) (ks_elapse n (view (svc w)))" "ttls_on_locks (ks_elapse n (view (svc w)))"
    using K(2) by (auto simp: same_off_def ttls_on_locks_def ks_elapse_def split: option.splits if_splits)
  then show ?thesis
    by (intro kept_off_locks [OF w]) (simp_all add: pass_time_def K(1))
qed

section \<open>Recovery\<close>

lemma recover_key_good:
  assumes w: "good E view w0 w" and i: "hex32 i" "holds E (view (svc w)) i t"
  shows "good E view w0 (snd (recover_key E (task_key i) w))"
proof -
  note K = keptD [OF goodD(1) [OF w]]
  let ?x = "next_obj w"
  let ?w0 = "w\<lparr>svc := snd (r_get (redis E) (task_key i) (svc w))\<rparr>"
  let ?w1 = "?w0\<lparr>heap := (heap w)(?x := t), next_obj := Suc ?x\<rparr>"
  let ?rest = "py_then (if status t = RUNNING
      then py_then (transition E ?x INTERRUPTED crash_detail) (async_update E ?x) else py_return ())
    (py_then (enqueue E ?x) (py_return True))"
  have run: "recover_key E (task_key i) w = (if is_terminal t then (Inr False, ?w1) else ?rest ?w1)"
    using i(2) by (simp add: recover_key_def py_bind_def on_redis_def cmd_get_def holds_def py_try_def
        alloc_def py_return_def load_def)
  have "framed view w ?w1" using framed_self [OF goodD(1) [OF w]] by (simp add: framed_defs)
  then have w1: "good E view w0 ?w1"
    by (intro good_step [OF w]) (use K(5,6) in simp_all)
  note w1 = w1 good_self [OF w1]
  have "task_id t = i" using K(5) i by (auto simp: store_inv_def records_inv_def holds_def)
  then have x: "stored E view ?w1 ?x" using i by (auto simp: stored_def intro: same_identity_refl)
  have "good E view ?w1 (snd (?rest ?w1))"
    by (rule keepsD [where P = "good E view ?w1", OF _ w1(2)])
      (intro keeps_intros good_async_update [OF x] good_enqueue [OF x])
  with run w1(1) show ?thesis by (auto intro: good_trans)
qed

lemma recover_keys_good:
  assumes "good E view w0 w" "\<forall>i \<in> set is. hex32 i \<and> (\<exists>t. holds E (view (svc w)) i t)"
  shows "good E view w0 (snd (recover_keys E (map task_key is) n w))"
  using assms
proof (induction "is" arbitrary: n w)
  case (Cons i ids)
  then obtain t where i: "hex32 i" "holds E (view (svc w)) i t" by auto
  let ?w1 = "snd (recover_key E (task_key i) w)"
  have w1: "good E view w0 ?w1" by (rule recover_key_good [OF Cons.prems(1) i])
  have "carries E (view (svc w)) (view (svc ?w1))"
    by (rule keptD(7) [OF goodD(1) [OF recover_key_good [OF good_self [OF Cons.prems(1)] i]]])
  with Cons.prems(2) have "\<forall>j \<in> set ids. hex32 j \<and> (\<exists>u. holds E (view (svc ?w1)) j u)"
    unfolding carries_def by (meson list.set_intros(2))
  from Cons.IH [OF w1 this] w1 show ?case
    by (cases "fst (recover_key E (task_key i) w)") (simp_all add: py_bind_def)
qed (simp add: py_simps)

end

text \<open>More fuel changes nothing.\<close>

lemma scan_loop_more:
  "scan_loop n E cur acc w = (Inr (Some ks), w') \<Longrightarrow> n \<le> m \<Longrightarrow> scan_loop m E cur acc w = (Inr (Some ks), w')"
proof (induction n arbitrary: m cur acc w)
  case (Suc n)
  then obtain m' where "m = Suc m'" "n \<le> m'" by (cases m) auto
  with Suc show ?case
    by (auto simp: py_bind_def Let_def split: sum.splits if_splits prod.splits)
qed (simp add: py_simps)

lemma scan_loop_determined:
  assumes "scan_loop n E cur acc w = (Inr (Some ks), w')" "scan_loop m E cur acc w = (Inr (Some ls), w'')"
  shows "ks = ls" "w' = w''"
  using scan_loop_more [OF assms(1), of "max n m"] scan_loop_more [OF assms(2), of "max n m"] by simp_all

lemma recover_scanned:
  assumes "recover_stranded_tasks n E w = (Inr (Some k), w')"
  shows "\<exists>ks v. scan_loop n E 0 [] w = (Inr (Some ks), v) \<and> recover_keys E ks 0 v = (Inr k, w')"
  using assms by (cases "scan_loop n E 0 [] w")
    (auto simp: recover_stranded_tasks_def py_simps prod_eq_iff split: sum.splits option.splits if_splits)

lemma recover_determined:
  assumes "recover_stranded_tasks n E w = (Inr (Some k), w')"
    and "recover_stranded_tasks m E w = (Inr (Some l), w'')"
  shows "w' = w''"
proof -
  obtain ks v where 1: "scan_loop n E 0 [] w = (Inr (Some ks), v)" "recover_keys E ks 0 v = (Inr k, w')"
    using recover_scanned [OF assms(1)] by blast
  obtain ls u where 2: "scan_loop m E 0 [] w = (Inr (Some ls), u)" "recover_keys E ls 0 u = (Inr l, w'')"
    using recover_scanned [OF assms(2)] by blast
  from 1(2) 2(2) show ?thesis unfolding scan_loop_determined [OF 1(1) 2(1)] by simp
qed

context deployment
begin

text \<open>A recovery that returns, whatever its fuel.\<close>

lemma recovery_good:
  assumes w: "good E view w0 w" and run: "recover_stranded_tasks fuel E w = (Inr (Some n), w')"
  shows "good E view w0 w'"
    and "hex32 i \<Longrightarrow> holds E (view (svc w')) i t \<Longrightarrow>
      status t \<noteq> RUNNING \<and> (is_terminal t \<or> enc E t \<in> set (queue_of (view (svc w'))))"
proof -
  note K = keptD [OF goodD(1) [OF w]]
  obtain m k q where m: "fst (recover_stranded_tasks m E w) = Inr (Some k)"
    and q: "queue_of (view (svc (snd (recover_stranded_tasks m E w)))) = q @ queue_of (view (svc w))"
      "\<forall>i t. hex32 i \<longrightarrow> holds E (view (svc (snd (recover_stranded_tasks m E w)))) i t \<longrightarrow>
               status t \<noteq> RUNNING \<and> (\<not> is_terminal t \<longrightarrow> enc E t \<in> set q)"
    using recovery_run [OF K(1,5,6)] by blast
  from m have "recover_stranded_tasks m E w = (Inr (Some k), snd (recover_stranded_tasks m E w))"
    by (simp add: prod_eq_iff)
  from recover_determined [OF this run] have w': "snd (recover_stranded_tasks m E w) = w'" .
  show "status t \<noteq> RUNNING \<and> (is_terminal t \<or> enc E t \<in> set (queue_of (view (svc w'))))"
    if "hex32 i" "holds E (view (svc w')) i t"
    using q that unfolding w' by auto
  obtain f ids r where loop: "scan_loop f E 0 [] w = (Inr (Some (map task_key ids)), w\<lparr>svc := r\<rparr>)"
    and r: "view r = view (svc w)" and ids: "set ids = {i. hex32 i \<and> ks_keys (view (svc w)) (task_key i) \<noteq> None}"
    using scan_ids [OF K(6)] by blast
  let ?w1 = "w\<lparr>svc := r\<rparr>"
  have "framed view w ?w1" using framed_self [OF goodD(1) [OF w]] r by (simp add: framed_defs)
  then have w1: "good E view w0 ?w1" by (intro good_step [OF w]) (use K(5,6) r in simp_all)
  have "\<forall>i \<in> set ids. hex32 i \<and> (\<exists>t. holds E (view (svc ?w1)) i t)"
    using ids K(5) r unfolding store_inv_def records_inv_def by auto
  note keys = recover_keys_good [OF w1 this, of 0]
  obtain ks v where ks: "scan_loop fuel E 0 [] w = (Inr (Some ks), v)" "recover_keys E ks 0 v = (Inr n, w')"
    using recover_scanned [OF run] by blast
  from scan_loop_determined [OF ks(1) loop] ks(2) keys show "good E view w0 w'" by simp
qed

end

end
