(* ===== verification/System.thy ===== *)
theory System
  imports Frames
begin

text \<open>
  The whole program as one transition system: any number of requests (\<open>src/api.py\<close>), of workers
  (\<open>src/worker.py\<close>) and of heartbeats, the event loop, time, crashes and restarts with recovery
  (\<open>src/recovery.py\<close>, \<open>src/main.py\<close>), in every interleaving of their operations on Redis. Each call of
  the store, the queue or the locks is one step. \<open>_run_locked\<close> is one step too: with the Redis queue it
  never suspends before the write of its first transition raises, and \<open>EngineFactory.get\<close> has no
  suspension point. A worker can be cancelled in every phase; where it has the lock this is the
  cancellation of \<open>_acquire_lock\<close> or \<open>_release_lock\<close> while their command is under way, after which the
  lock stays until it expires. (A cancellation of \<open>_run_locked\<close> is an outcome of the run, and the
  \<open>finally\<close> block follows.)
\<close>

section \<open>Phases of a worker\<close>

text \<open>Between two operations a worker waits for a task, has taken one, was refused the lock, holds it,
  has run the task and waits in the \<open>finally\<close> block with the outcome, or has ended.\<close>

datatype wphase =
    Idle
  | Took obj
  | Refused obj
  | Holding obj string string
  | Ran obj string string "exn + unit"
  | Ended exn

text \<open>The \<open>try\<close> of \<open>_execute\<close> around \<open>_run_locked\<close>, with its handler.\<close>

definition run_guarded :: "'r env \<Rightarrow> 'r worker \<Rightarrow> fate \<Rightarrow> obj \<Rightarrow> ('r, unit) prog" where
  "run_guarded E W ft x =
     py_try (run_locked E W ft x)
       (\<lambda>e. case e of
              LockStolenError _ \<Rightarrow>
                handle_retriable E W x
                  (RetriableError ''distributed lock was stolen during execution'')
            | _ \<Rightarrow> py_raise e)"

definition take_lock :: "'r env \<Rightarrow> obj \<Rightarrow> ('r, wphase) prog" where
  "take_lock E x =
     py_bind (new_uuid E) (\<lambda>lock_token.
     py_bind (load x) (\<lambda>t.
     py_bind (acquire_lock E (project_name t) lock_token (lock_ttl (settings E))) (\<lambda>acquired.
       py_return (if acquired then Holding x (project_name t) lock_token else Refused x))))"

definition work :: "'r env \<Rightarrow> 'r worker \<Rightarrow> fate \<Rightarrow> wphase \<Rightarrow> ('r, wphase) prog" where
  "work E W ft ph =
     (case ph of
        Idle \<Rightarrow>
          py_bind (wq_dequeue (w_queue W) (w_poll_interval W)) (\<lambda>task.
            py_return (case task of None \<Rightarrow> Idle | Some x \<Rightarrow> Took x))
      | Took x \<Rightarrow> take_lock E x
      | Refused x \<Rightarrow> py_then (wq_enqueue (w_queue W) x) (py_return Idle)
      | Holding x p tok \<Rightarrow>
          py_try (py_bind (run_guarded E W ft x) (\<lambda>u. py_return (Ran x p tok (Inr u))))
            (\<lambda>e. py_return (Ran x p tok (Inl e)))
      | Ran x p tok res \<Rightarrow>
          py_then (release_lock E p tok)
            (case res of Inl e \<Rightarrow> py_raise e | Inr u \<Rightarrow> py_return Idle)
      | Ended e \<Rightarrow> py_return (Ended e))"

definition next_wphase :: "exn + wphase \<Rightarrow> wphase" where
  "next_wphase r = (case r of Inl e \<Rightarrow> Ended e | Inr ph \<Rightarrow> ph)"

text \<open>The project and token of a worker that has the lock.\<close>

definition held :: "wphase \<Rightarrow> (string \<times> string) option" where
  "held ph =
     (case ph of
        Holding x p tok \<Rightarrow> Some (p, tok)
      | Ran x p tok res \<Rightarrow> Some (p, tok)
      | _ \<Rightarrow> None)"

definition task_of :: "wphase \<Rightarrow> obj option" where
  "task_of ph =
     (case ph of
        Took x \<Rightarrow> Some x
      | Refused x \<Rightarrow> Some x
      | Holding x p tok \<Rightarrow> Some x
      | Ran x p tok res \<Rightarrow> Some x
      | _ \<Rightarrow> None)"

lemma held_simps [simp]:
  "held Idle = None" "held (Took x) = None" "held (Refused x) = None" "held (Ended e) = None"
  "held (Holding x p tok) = Some (p, tok)" "held (Ran x p tok r) = Some (p, tok)"
  "task_of Idle = None" "task_of (Took x) = Some x" "task_of (Refused x) = Some x"
  "task_of (Ended e) = None" "task_of (Holding x p tok) = Some x" "task_of (Ran x p tok r) = Some x"
  "next_wphase (Inl e) = Ended e" "next_wphase (Inr ph) = ph"
  by (simp_all add: held_def task_of_def next_wphase_def)

lemma held_cases:
  assumes "held ph = Some (p, tok)"
  obtains (Holding) x where "ph = Holding x p tok" | (Ran) x r where "ph = Ran x p tok r"
  using assms by (cases ph) auto

section \<open>Steps\<close>

record 'r system =
  sy_world :: "'r world"
  sy_request :: "nat \<Rightarrow> phase"
  sy_worker :: "nat \<Rightarrow> wphase"
  sy_lease :: "nat \<Rightarrow> int"

text \<open>What a new process of the program starts from: Redis and, of the old one, nothing.\<close>

definition rebooted :: "'r world \<Rightarrow> 'r world" where
  "rebooted w =
     w\<lparr>client_ready := True, pending := [], mem_tasks := [], mem_queue := [], engine_cache := []\<rparr>"

text \<open>Requests that were not finished are lost with the process; their clients may ask anything anew.\<close>

definition outlives :: "phase \<Rightarrow> phase \<Rightarrow> bool" where
  "outlives ph ph' =
     (case ph of
        Answered a \<Rightarrow> ph' = Answered a
      | Raised e \<Rightarrow> ph' = Raised e
      | _ \<Rightarrow> (\<exists>body. ph' = Incoming body))"

text \<open>A lease begins with the lock and begins again with every refresh that succeeds.\<close>

definition leased :: "'r env \<Rightarrow> wphase \<Rightarrow> wphase \<Rightarrow> int \<Rightarrow> int" where
  "leased E ph ph' l = (if held ph = None \<and> held ph' \<noteq> None then ttl_of E else l)"

inductive sys_step :: "'r env \<Rightarrow> 'r worker \<Rightarrow> 'r system \<Rightarrow> 'r system \<Rightarrow> bool"
  for E :: "'r env" and W :: "'r worker" where
  request: "advance E (sy_request s c) (sy_world s) = (r, w) \<Longrightarrow>
     sys_step E W s (s\<lparr>sy_world := w, sy_request := (sy_request s)(c := next_phase r)\<rparr>)"
| poll: "get_task E i (sy_world s) = (r, w) \<Longrightarrow> sys_step E W s (s\<lparr>sy_world := w\<rparr>)"
| worker: "work E W ft (sy_worker s c) (sy_world s) = (r, w) \<Longrightarrow> ph = next_wphase r \<Longrightarrow>
     sys_step E W s
       (s\<lparr>sy_world := w, sy_worker := (sy_worker s)(c := ph),
         sy_lease := (sy_lease s)(c := leased E (sy_worker s c) ph (sy_lease s c))\<rparr>)"
| beat: "held (sy_worker s c) = Some (p, tok) \<Longrightarrow>
     refresh_lock E p tok (ttl_of E) (sy_world s) = (r, w) \<Longrightarrow>
     sys_step E W s
       (s\<lparr>sy_world := w,
         sy_lease := (if r = Inr True then (sy_lease s)(c := ttl_of E) else sy_lease s)\<rparr>)"
| loop: "pending (sy_world s) = co # cs \<Longrightarrow>
     py_try (run_coro E co) (\<lambda>_. py_return ()) ((sy_world s)\<lparr>pending := cs\<rparr>) = (r, w) \<Longrightarrow>
     sys_step E W s (s\<lparr>sy_world := w\<rparr>)"
| cancel: "sys_step E W s (s\<lparr>sy_worker := (sy_worker s)(c := Ended (CancelledError None))\<rparr>)"
| elapse: "sys_step E W s
     (s\<lparr>sy_world := pass_time E n (sy_world s), sy_lease := (\<lambda>c. sy_lease s c - int n)\<rparr>)"
| restart: "recover_stranded_tasks fuel E (rebooted (sy_world s)) = (Inr (Some n), w) \<Longrightarrow>
     (\<forall>c. outlives (sy_request s c) (req c)) \<Longrightarrow>
     sys_step E W s
       (s\<lparr>sy_world := w, sy_request := req, sy_worker := (\<lambda>_. Idle)\<rparr>)"

inductive sys_run :: "'r env \<Rightarrow> 'r worker \<Rightarrow> 'r system \<Rightarrow> 'r system \<Rightarrow> bool"
  for E :: "'r env" and W :: "'r worker" where
  here: "sys_run E W s s"
| more: "sys_run E W s t \<Longrightarrow> sys_step E W t u \<Longrightarrow> sys_run E W s u"

lemma sys_run_trans: "sys_run E W t u \<Longrightarrow> sys_run E W s t \<Longrightarrow> sys_run E W s u"
  by (induction rule: sys_run.induct) (auto intro: sys_run.more)

text \<open>The start: requests come in, workers wait, and nothing is scheduled.\<close>

definition sys_start :: "'r env \<Rightarrow> ('r \<Rightarrow> keyspace) \<Rightarrow> 'r system \<Rightarrow> bool" where
  "sys_start E view s =
     (client_ready (sy_world s) \<and> pending (sy_world s) = []
      \<and> store_inv E (view (svc (sy_world s))) \<and> task_keys_wf (view (svc (sy_world s)))
      \<and> locks_wf (view (svc (sy_world s))) \<and> ttls_on_locks (view (svc (sy_world s)))
      \<and> (\<forall>c. \<exists>body. sy_request s c = Incoming body) \<and> (\<forall>c. sy_worker s c = Idle))"

section \<open>The invariant\<close>

definition locks_of :: "'r system \<Rightarrow> 'r lock_sys" where
  "locks_of s =
     \<lparr>lk_world = sy_world s, lk_at = (\<lambda>c. map_option fst (held (sy_worker s c))), lk_lease = sy_lease s\<rparr>"

definition token_of :: "'r system \<Rightarrow> nat \<Rightarrow> string" where
  "token_of s c = (case held (sy_worker s c) of Some (p, tok) \<Rightarrow> tok | None \<Rightarrow> [])"

text \<open>A worker's task is stored, and the lock it has is that of the task's project.\<close>

definition worker_ok :: "'r env \<Rightarrow> ('r \<Rightarrow> keyspace) \<Rightarrow> 'r world \<Rightarrow> wphase \<Rightarrow> bool" where
  "worker_ok E view w ph =
     (\<forall>x. task_of ph = Some x \<longrightarrow> stored E view w x
        \<and> (\<forall>p tok. held ph = Some (p, tok) \<longrightarrow> project_name (heap w x) = p))"

text \<open>Tokens have been drawn, each by one worker. This, and what the locks say, is claimed as long as
  the generator of ids has not repeated itself.\<close>

definition tokens_ok :: "'r env \<Rightarrow> nat \<Rightarrow> (nat \<Rightarrow> wphase) \<Rightarrow> bool" where
  "tokens_ok E n f =
     ((\<forall>c p tok. held (f c) = Some (p, tok) \<longrightarrow> (\<exists>k < n. tok = uuid_at E k))
      \<and> (\<forall>c d p q tok. held (f c) = Some (p, tok) \<longrightarrow> held (f d) = Some (q, tok) \<longrightarrow> c = d))"

definition fresh_ids :: "'r env \<Rightarrow> 'r system \<Rightarrow> bool" where
  "fresh_ids E s = inj_on (uuid_at E) {..<ticks (sy_world s)}"

definition sys_inv :: "'r env \<Rightarrow> ('r \<Rightarrow> keyspace) \<Rightarrow> 'r system \<Rightarrow> bool" where
  "sys_inv E view s =
     (kept E view (sy_world s) (sy_world s) \<and> locks_wf (view (svc (sy_world s)))
      \<and> (\<forall>c. request_ok E view (sy_world s) (sy_request s c))
      \<and> (\<forall>c. worker_ok E view (sy_world s) (sy_worker s c))
      \<and> (fresh_ids E s \<longrightarrow>
           tokens_ok E (ticks (sy_world s)) (sy_worker s) \<and> lock_inv view (token_of s) (locks_of s)))"

lemma sys_invD:
  assumes "sys_inv E view s"
  shows "kept E view (sy_world s) (sy_world s)" "request_ok E view (sy_world s) (sy_request s c)"
    "worker_ok E view (sy_world s) (sy_worker s c)" "locks_wf (view (svc (sy_world s)))"
    "fresh_ids E s \<Longrightarrow> tokens_ok E (ticks (sy_world s)) (sy_worker s)"
    "fresh_ids E s \<Longrightarrow> lock_inv view (token_of s) (locks_of s)"
  using assms by (simp_all add: sys_inv_def)

lemma sys_inv_start: "sys_start E view s \<Longrightarrow> sys_inv E view s"
proof -
  assume s: "sys_start E view s"
  have "request_ok E view (sy_world s) (sy_request s c)" for c
  proof -
    obtain body where "sy_request s c = Incoming body" using s unfolding sys_start_def by blast
    then show ?thesis by (simp add: request_ok_def)
  qed
  with s show ?thesis
    by (auto simp: sys_start_def sys_inv_def kept_def grown_def sound_def tokens_ok_def worker_ok_def
        lock_inv_def lease_live_def locks_of_def)
qed

context deployment
begin

lemma lock_inv_cong:
  assumes "lock_inv view tok s" "client_ready (lk_world s')"
    and "same_locks (view (svc (lk_world s))) (view (svc (lk_world s')))"
    and "\<And>c p. lease_live s' c p \<Longrightarrow> lease_live s c p \<and> tok' c = tok c \<and> lk_lease s' c = lk_lease s c"
  shows "lock_inv view tok' s'"
proof -
  have L: "lock_of (view (svc (lk_world s'))) p = lock_of (view (svc (lk_world s))) p"
    "ks_ttl (view (svc (lk_world s'))) (lock_key p) = ks_ttl (view (svc (lk_world s))) (lock_key p)" for p
    using assms(3) by (simp_all add: same_locks_def lock_of_def)
  have "locks_wf (view (svc (lk_world s')))"
    using lock_invD(2) [OF assms(1)] assms(3) by (simp add: locks_wf_def same_locks_def)
  with assms(2,4) lock_invD(3) [OF assms(1)] show ?thesis
    unfolding lock_inv_def L by metis
qed

lemma worker_ok_kept:
  assumes "worker_ok E view w ph" "kept E view w w'"
  shows "worker_ok E view w' ph"
proof -
  have "stored E view w' x \<and> project_name (heap w' x) = project_name (heap w x)" if "stored E view w x" for x
    using stored_kept [OF that assms(2)] keptD(8) [OF assms(2), of x] that
    by (auto simp: stored_def same_identity_def)
  with assms(1) show ?thesis by (auto simp: worker_ok_def)
qed

lemma tokens_ok_more: "tokens_ok E n f \<Longrightarrow> n \<le> m \<Longrightarrow> tokens_ok E m f"
  unfolding tokens_ok_def by (meson less_le_trans)

lemma tokens_ok_fewer:
  assumes "tokens_ok E n f" "\<And>c y. held (g c) = Some y \<Longrightarrow> held (f c) = Some y"
  shows "tokens_ok E n g"
  using assms(1) unfolding tokens_ok_def by (blast dest: assms(2))

lemma request_ok_kept: "request_ok E view w ph \<Longrightarrow> kept E view w w' \<Longrightarrow> request_ok E view w' ph"
  by (auto simp: kept_def intro: request_ok_carries)

text \<open>A step that is known to keep the store: what is left to show of the invariant.\<close>

lemma sys_invI:
  assumes s: "sys_inv E view s" and w: "kept E view (sy_world s) (sy_world s')"
    and "\<And>c. sy_request s' c = sy_request s c \<or> request_ok E view (sy_world s') (sy_request s' c)"
    and "\<And>c. sy_worker s' c = sy_worker s c \<or> worker_ok E view (sy_world s') (sy_worker s' c)"
    and "locks_wf (view (svc (sy_world s')))"
    and locks: "fresh_ids E s \<Longrightarrow> fresh_ids E s' \<Longrightarrow>
      tokens_ok E (ticks (sy_world s)) (sy_worker s) \<Longrightarrow> lock_inv view (token_of s) (locks_of s) \<Longrightarrow>
      tokens_ok E (ticks (sy_world s')) (sy_worker s') \<and> lock_inv view (token_of s') (locks_of s')"
  shows "sys_inv E view s'"
proof -
  have "request_ok E view (sy_world s') (sy_request s' c)" for c
    using assms(3) [of c] request_ok_kept [OF sys_invD(2) [OF s] w, of c] by auto
  moreover have "worker_ok E view (sy_world s') (sy_worker s' c)" for c
    using assms(4) [of c] worker_ok_kept [OF sys_invD(3) [OF s] w, of c] by auto
  moreover have "fresh_ids E s" if "fresh_ids E s'"
    using that keptD(3) [OF w] unfolding fresh_ids_def by (auto elim: inj_on_subset)
  ultimately show ?thesis
    using locks sys_invD(5,6) [OF s] assms(5) kept_self [OF w] by (simp add: sys_inv_def)
qed

text \<open>A step that changes no lock, after which every worker that has a lock had it before.\<close>

lemma sys_inv_good:
  assumes s: "sys_inv E view s" and w: "good E view (sy_world s) (sy_world s')"
    and "\<And>c. sy_request s' c = sy_request s c \<or> request_ok E view (sy_world s') (sy_request s' c)"
    and "\<And>c. sy_worker s' c = sy_worker s c \<or> worker_ok E view (sy_world s') (sy_worker s' c)"
    and held: "\<And>c. held (sy_worker s' c) = None \<or> held (sy_worker s' c) = held (sy_worker s c)"
    and lease: "\<And>c. held (sy_worker s' c) \<noteq> None \<Longrightarrow> sy_lease s' c = sy_lease s c"
  shows "sys_inv E view s'"
proof (rule sys_invI [OF s goodD(1) [OF w] assms(3,4)])
  note K = keptD [OF goodD(1) [OF w]]
  have same: "same_locks (view (svc (sy_world s))) (view (svc (sy_world s')))"
    using w by (simp add: good_def)
  with sys_invD(4) [OF s] show "locks_wf (view (svc (sy_world s')))"
    by (simp add: locks_wf_def same_locks_def)
  have was: "held (sy_worker s c) = Some y" if "held (sy_worker s' c) = Some y" for c y
    using held [of c] that by auto
  assume tokens: "tokens_ok E (ticks (sy_world s)) (sy_worker s)"
    and locks: "lock_inv view (token_of s) (locks_of s)"
  have "tokens_ok E (ticks (sy_world s')) (sy_worker s')"
    by (rule tokens_ok_fewer [OF tokens_ok_more [OF tokens K(3)] was])
  moreover have "lock_inv view (token_of s') (locks_of s')"
  proof (rule lock_inv_cong [OF locks])
    show "client_ready (lk_world (locks_of s'))" using K(1) by (simp add: locks_of_def)
    show "same_locks (view (svc (lk_world (locks_of s)))) (view (svc (lk_world (locks_of s'))))"
      using same by (simp add: locks_of_def)
    fix c p assume live: "lease_live (locks_of s') c p"
    then obtain tok where t: "held (sy_worker s' c) = Some (p, tok)"
      by (auto simp: lease_live_def locks_of_def)
    with was [OF t] lease [of c] live
    show "lease_live (locks_of s) c p \<and> token_of s' c = token_of s c
        \<and> lk_lease (locks_of s') c = lk_lease (locks_of s) c"
      by (simp add: lease_live_def locks_of_def token_of_def)
  qed
  ultimately show "tokens_ok E (ticks (sy_world s')) (sy_worker s')
      \<and> lock_inv view (token_of s') (locks_of s')" ..
qed

section \<open>Every step keeps the invariant\<close>

lemma inv_good: "sys_inv E view s \<Longrightarrow> good E view (sy_world s) (sy_world s)"
  using sys_invD(1) by (simp add: good_def)

lemma request_inv:
  assumes s: "sys_inv E view s" and run: "advance E (sy_request s c) (sy_world s) = (r, w)"
  shows "sys_inv E view (s\<lparr>sy_world := w, sy_request := (sy_request s)(c := next_phase r)\<rparr>)"
proof -
  from advance_good [OF inv_good [OF s] sys_invD(2) [OF s, of c]] run
  have "good E view (sy_world s) w" "request_ok E view w (next_phase r)" by simp_all
  then show ?thesis by (intro sys_inv_good [OF s]) simp_all
qed

lemma poll_inv:
  assumes s: "sys_inv E view s" and run: "get_task E i (sy_world s) = (r, w)"
  shows "sys_inv E view (s\<lparr>sy_world := w\<rparr>)"
proof -
  from keepsD [OF good_lookups(3) inv_good [OF s], of i] run
  have "good E view (sy_world s) w" by simp
  then show ?thesis by (intro sys_inv_good [OF s]) simp_all
qed

lemma loop_inv:
  assumes s: "sys_inv E view s" and co: "pending (sy_world s) = co # cs"
    and run: "py_try (run_coro E co) (\<lambda>_. py_return ()) ((sy_world s)\<lparr>pending := cs\<rparr>) = (r, w)"
  shows "sys_inv E view (s\<lparr>sy_world := w\<rparr>)"
proof -
  let ?w = "sy_world s"
  let ?w1 = "?w\<lparr>pending := cs\<rparr>"
  note K = keptD [OF sys_invD(1) [OF s]]
  have "framed view ?w ?w1" using K(1,2) by (simp add: framed_defs)
  then have w1: "good E view ?w ?w1"
    by (intro good_step [OF inv_good [OF s]]) (use K(5,6) co in \<open>simp_all\<close>)
  have "stored E view ?w1 x" if "co = AsyncUpdate x" for x
    using K(9) [of x] co that stored_kept [OF _ goodD(1) [OF w1]] by simp
  then have "keeps (good E view ?w1) (py_try (run_coro E co) (\<lambda>_. py_return ()))"
    by (intro keeps_intros good_run_coro)
  from keepsD [OF this good_self [OF w1]] run have "good E view ?w1 w" by simp
  with w1 have "good E view ?w w" by (rule good_trans)
  then show ?thesis by (intro sys_inv_good [OF s]) simp_all
qed

lemma cancel_inv:
  assumes s: "sys_inv E view s"
  shows "sys_inv E view (s\<lparr>sy_worker := (sy_worker s)(c := Ended e)\<rparr>)"
  by (rule sys_inv_good [OF s]) (use inv_good [OF s] in \<open>simp_all add: worker_ok_def\<close>)

lemma restart_inv:
  assumes s: "sys_inv E view s"
    and run: "recover_stranded_tasks fuel E (rebooted (sy_world s)) = (Inr (Some n), w)"
    and req: "\<forall>c. outlives (sy_request s c) (req c)"
  shows "sys_inv E view (s\<lparr>sy_world := w, sy_request := req, sy_worker := (\<lambda>_. Idle)\<rparr>)"
    and "good E view (sy_world s) w"
proof -
  let ?w = "sy_world s"
  note K = keptD [OF sys_invD(1) [OF s]]
  have "framed view ?w (rebooted ?w)" using K(1,2) by (simp add: framed_defs rebooted_def)
  then have "good E view ?w (rebooted ?w)"
    by (intro good_step [OF inv_good [OF s]]) (use K(5,6) in \<open>simp_all add: rebooted_def\<close>)
  then show w: "good E view ?w w" using run by (rule recovery_good)
  have "req c = sy_request s c \<or> request_ok E view w (req c)" for c
    using req [rule_format, of c] by (auto simp: outlives_def request_ok_def split: phase.splits)
  with w show "sys_inv E view (s\<lparr>sy_world := w, sy_request := req, sy_worker := (\<lambda>_. Idle)\<rparr>)"
    by (intro sys_inv_good [OF s]) (simp_all add: worker_ok_def)
qed

lemma elapse_inv:
  assumes s: "sys_inv E view s"
  shows "sys_inv E view (s\<lparr>sy_world := pass_time E n (sy_world s), sy_lease := (\<lambda>c. sy_lease s c - int n)\<rparr>)"
    (is "sys_inv E view ?s'")
proof (rule sys_invI [OF s])
  show "kept E view (sy_world s) (sy_world ?s')"
    using pass_time_kept [OF sys_invD(1) [OF s]] by simp
  show "locks_wf (view (svc (sy_world ?s')))"
    using pass_time_locks(1) [OF sys_invD(4) [OF s]] by simp
  assume tokens: "tokens_ok E (ticks (sy_world s)) (sy_worker s)"
    and locks: "lock_inv view (token_of s) (locks_of s)"
  have "token_of ?s' = token_of s" by (simp add: token_of_def fun_eq_iff)
  moreover have "locks_of ?s' = (locks_of s)\<lparr>lk_world := pass_time E n (lk_world (locks_of s)),
      lk_lease := (\<lambda>c. lk_lease (locks_of s) c - int n)\<rparr>"
    by (simp add: locks_of_def)
  ultimately have "lock_inv view (token_of ?s') (locks_of ?s')"
    using lock_inv_elapse [OF locks] by simp
  moreover have "tokens_ok E (ticks (sy_world ?s')) (sy_worker ?s')"
    using tokens by (simp add: pass_time_def)
  ultimately show "tokens_ok E (ticks (sy_world ?s')) (sy_worker ?s')
      \<and> lock_inv view (token_of ?s') (locks_of ?s')" by simp
qed simp_all

text \<open>A worker that has a lock is told by its token.\<close>

lemma own_token:
  assumes tokens: "tokens_ok E n (sy_worker s)" and c: "held (sy_worker s c) = Some (p, tok)"
    and d: "lease_live (locks_of s) d q" and same: "token_of s d = token_of s c"
  shows "d = c"
proof -
  from d obtain t where "held (sy_worker s d) = Some (q, t)"
    by (auto simp: lease_live_def locks_of_def)
  with c same tokens show ?thesis
    unfolding tokens_ok_def token_of_def by simp
qed

lemma beat_inv:
  assumes s: "sys_inv E view s" and ttl: "0 < ttl_of E" and c: "held (sy_worker s c) = Some (p, tok)"
    and run: "refresh_lock E p tok (ttl_of E) (sy_world s) = (r, w)"
  shows "sys_inv E view (s\<lparr>sy_world := w,
      sy_lease := (if r = Inr True then (sy_lease s)(c := ttl_of E) else sy_lease s)\<rparr>)"
    (is "sys_inv E view ?s'")
proof (rule sys_invI [OF s])
  show k: "kept E view (sy_world s) (sy_world ?s')"
    using lock_ops_kept(3) [OF sys_invD(1) [OF s] ttl, of p tok] run by simp
  show "locks_wf (view (svc (sy_world ?s')))"
    using refresh_lock_result(4) [OF keptD(1) [OF sys_invD(1) [OF s]] ttl sys_invD(4) [OF s], of p tok] run
    by simp
  assume tokens: "tokens_ok E (ticks (sy_world s)) (sy_worker s)"
    and locks: "lock_inv view (token_of s) (locks_of s)"
  have tok: "token_of s c = tok" "token_of ?s' = token_of s" using c by (simp_all add: token_of_def fun_eq_iff)
  have at: "lk_at (locks_of s) c = Some p" using c by (simp add: locks_of_def)
  obtain still_held where r: "r = Inr still_held"
    using refresh_lock_result(1) [OF keptD(1) [OF sys_invD(1) [OF s]] ttl sys_invD(4) [OF s], of p tok] run
    by simp
  have run': "refresh_lock E p (token_of s c) (ttl_of E) (lk_world (locks_of s)) = (Inr still_held, w)"
    using run by (simp add: tok locks_of_def r)
  have "lock_inv view (token_of ?s') (locks_of ?s')"
  proof (cases still_held)
    case True
    have "lock_inv view (token_of s)
        ((locks_of s)\<lparr>lk_world := w, lk_lease := (lk_lease (locks_of s))(c := ttl_of E)\<rparr>)"
      by (rule lock_inv_beat [OF locks own_token [OF tokens c] ttl at])
        (use run' True in simp_all)
    with True show ?thesis unfolding tok(2) by (simp add: locks_of_def r)
  next
    case False
    have "lock_inv view (token_of s) ((locks_of s)\<lparr>lk_world := w\<rparr>)"
      by (rule lock_inv_lost [OF locks ttl]) (use run' False in simp)
    with False show ?thesis unfolding tok(2) by (simp add: locks_of_def r)
  qed
  with tokens_ok_more [OF tokens keptD(3) [OF k]]
  show "tokens_ok E (ticks (sy_world ?s')) (sy_worker ?s')
      \<and> lock_inv view (token_of ?s') (locks_of ?s')" by simp
qed simp_all

text \<open>A turn of a worker that changes no lock.\<close>

lemma work_good:
  assumes s: "sys_inv E view s" and W: "w_queue W = redis_queue E"
    and other: "\<And>x. sy_worker s c \<noteq> Took x" "\<And>x p tok r. sy_worker s c \<noteq> Ran x p tok r"
    and run: "work E W ft (sy_worker s c) (sy_world s) = (r, w)" and ph: "ph = next_wphase r"
  shows "good E view (sy_world s) w \<and> worker_ok E view w ph \<and> held ph = held (sy_worker s c)"
proof -
  let ?w = "sy_world s"
  note good = inv_good [OF s]
  note ok = sys_invD(3) [OF s, of c]
  show ?thesis
  proof (cases "sy_worker s c")
    case Idle
    let ?d = "dequeue E (w_poll_interval W) ?w"
    from dequeue_good [OF good, of "w_poll_interval W"] obtain got where
      d: "good E view ?w (snd ?d)" "fst ?d = Inr got" "\<forall>x. got = Some x \<longrightarrow> stored E view (snd ?d) x" by blast
    then show ?thesis
      using run ph by (cases got)
        (auto simp: Idle work_def W redis_queue_def py_simps worker_ok_def)
  next
    case (Refused x)
    have x: "stored E view ?w x" using ok by (simp add: Refused worker_ok_def)
    have "fst (enqueue E x ?w) = Inr ()"
      using enqueue_run(1) [of ?w x] keptD(1,5) [OF sys_invD(1) [OF s]] by (simp add: store_inv_def)
    with keepsD [OF good_enqueue [OF x] good] run ph show ?thesis
      by (auto simp: Refused work_def W redis_queue_def py_simps worker_ok_def)
  next
    case (Holding x p tok)
    have x: "stored E view ?w x" "project_name (heap ?w x) = p" using ok by (simp_all add: Holding worker_ok_def)
    have "keeps (good E view ?w) (case e of
        LockStolenError _ \<Rightarrow> handle_retriable E W x
          (RetriableError ''distributed lock was stolen during execution'')
      | _ \<Rightarrow> py_raise e)" for e
      by (cases e) (auto intro!: keeps_intros good_run_locked(2) [OF x(1) W])
    then have "keeps (good E view ?w) (run_guarded E W ft x)"
      unfolding run_guarded_def by (intro keeps_intros good_run_locked(1) [OF x(1) W])
    from keepsD [OF this good] have w: "good E view ?w (snd (run_guarded E W ft x ?w))" .
    have "w = snd (run_guarded E W ft x ?w) \<and> (\<exists>res. ph = Ran x p tok res)"
      using run ph by (cases "fst (run_guarded E W ft x ?w)") (auto simp: Holding work_def py_simps)
    with w worker_ok_kept [OF ok goodD(1) [OF w]] show ?thesis
      by (auto simp: Holding worker_ok_def)
  next
    case (Ended e)
    with run ph good show ?thesis by (auto simp: work_def py_simps worker_ok_def)
  qed (use other in auto)
qed

lemma take_lock_inv:
  assumes s: "sys_inv E view s" and ttl: "0 < ttl_of E"
    and x: "sy_worker s c = Took x" and run: "take_lock E x (sy_world s) = (r, w)"
    and ph: "ph = next_wphase r"
  shows "sys_inv E view (s\<lparr>sy_world := w, sy_worker := (sy_worker s)(c := ph),
      sy_lease := (sy_lease s)(c := leased E (sy_worker s c) ph (sy_lease s c))\<rparr>)"
    (is "sys_inv E view ?s'")
proof -
  let ?w = "sy_world s"
  let ?w1 = "?w\<lparr>ticks := Suc (ticks ?w)\<rparr>"
  let ?tok = "uuid_at E (ticks ?w)" and ?p = "project_name (heap ?w x)"
  note K = keptD [OF sys_invD(1) [OF s]]
  have w1: "good E view ?w ?w1"
    using keepsD [OF good_records(6) inv_good [OF s]] by (simp add: new_uuid_def)
  let ?acq = "acquire_lock E ?p ?tok (ttl_of E) ?w1"
  have wf: "locks_wf (view (svc ?w1))" using sys_invD(4) [OF s] by simp
  obtain got where got: "fst ?acq = Inr got"
    using acquire_lock_result(1) [OF _ ttl wf] K(1) by simp
  have k: "kept E view ?w (snd ?acq)"
    by (rule kept_trans [OF goodD(1) [OF w1] lock_ops_kept(1) [OF kept_self [OF goodD(1) [OF w1]] ttl]])
  have rw: "w = snd ?acq" "ph = (if got then Holding x ?p ?tok else Refused x)"
    using run ph got by (auto simp: take_lock_def py_simps)
  have frame: "ticks w = Suc (ticks ?w)" "heap w = heap ?w"
    using redis_only_frame [of "acquire_lock E ?p ?tok (ttl_of E)" ?w1] unfolding rw(1)
    by (simp_all add: acquire_lock_def redis_only_intros)
  let ?f = "(sy_worker s)(c := ph)"
  show ?thesis
  proof (rule sys_invI [OF s])
    show "kept E view (sy_world s) (sy_world ?s')" using k by (simp add: rw)
    have "worker_ok E view w (Took x)"
      using worker_ok_kept [OF sys_invD(3) [OF s, of c] k] by (simp add: x rw)
    then have "worker_ok E view w ph"
      by (auto simp: worker_ok_def rw(2) frame(2))
    then show "sy_worker ?s' d = sy_worker s d \<or> worker_ok E view (sy_world ?s') (sy_worker ?s' d)" for d
      by simp
    show "locks_wf (view (svc (sy_world ?s')))"
      using acquire_lock_result(3) [OF _ ttl wf] K(1) by (simp add: rw(1))
    assume fresh: "fresh_ids E ?s'" and tokens: "tokens_ok E (ticks ?w) (sy_worker s)"
      and inv: "lock_inv view (token_of s) (locks_of s)"
    have new: "tok \<noteq> ?tok" if h: "held (sy_worker s d) = Some (q, tok)" for d q tok
    proof -
      obtain n where "n < ticks ?w" "tok = uuid_at E n"
        using tokens h unfolding tokens_ok_def by blast
      with fresh show ?thesis by (auto simp: fresh_ids_def frame dest: inj_onD)
    qed
    have old: "held (?f d) = (if d = c then (if got then Some (?p, ?tok) else None) else held (sy_worker s d))" for d
      by (simp add: rw)
    have "tokens_ok E (Suc (ticks ?w)) ?f"
      using tokens_ok_more [OF tokens, of "Suc (ticks ?w)"] new
      unfolding tokens_ok_def old by (auto split: if_splits)
    moreover
    let ?L = "(locks_of s)\<lparr>lk_world := ?w1\<rparr>" and ?T = "(token_of s)(c := ?tok)"
    have idle: "lk_at ?L c = None" by (simp add: locks_of_def x)
    have L: "lock_inv view ?T ?L"
      by (rule lock_inv_cong [OF inv])
        (use K(1) idle in \<open>auto simp: locks_of_def lease_live_def\<close>)
    have acq: "acquire_lock E ?p (?T c) (ttl_of E) (lk_world ?L) = (Inr got, w)"
      using got by (simp add: prod_eq_iff rw)
    note locks = lock_inv_acquire [OF L ttl idle acq]
    have "lock_inv view (token_of ?s') (locks_of ?s')"
    proof (cases got)
      case True
      have "locks_of ?s' = ?L\<lparr>lk_world := w, lk_at := (lk_at ?L)(c \<mapsto> ?p),
          lk_lease := (lk_lease ?L)(c := ttl_of E)\<rparr>"
        by (simp add: locks_of_def fun_eq_iff rw True x leased_def)
      moreover have "token_of ?s' = ?T" by (simp add: token_of_def fun_eq_iff rw True)
      ultimately show ?thesis using locks(1) [OF True] by (simp add: fun_upd_def)
    next
      case False
      show ?thesis
        by (rule lock_inv_cong [OF locks(2) [OF False]])
          (use lock_invD(1) [OF locks(2) [OF False]] False in
            \<open>auto simp: locks_of_def lease_live_def token_of_def rw x leased_def split: if_splits\<close>)
    qed
    ultimately show "tokens_ok E (ticks (sy_world ?s')) (sy_worker ?s')
        \<and> lock_inv view (token_of ?s') (locks_of ?s')" by (simp add: frame)
  qed simp_all
qed

lemma release_inv:
  assumes s: "sys_inv E view s" and ttl: "0 < ttl_of E"
    and x: "sy_worker s c = Ran x p tok res" and run: "work E W ft (sy_worker s c) (sy_world s) = (r, w)"
    and ph: "ph = next_wphase r"
  shows "sys_inv E view (s\<lparr>sy_world := w, sy_worker := (sy_worker s)(c := ph),
      sy_lease := (sy_lease s)(c := leased E (sy_worker s c) ph (sy_lease s c))\<rparr>)"
    (is "sys_inv E view ?s'")
proof -
  let ?w = "sy_world s"
  note K = keptD [OF sys_invD(1) [OF s]]
  have held: "held (sy_worker s c) = Some (p, tok)" by (simp add: x)
  note wf = sys_invD(4) [OF s]
  let ?rel = "release_lock E p tok ?w"
  have rel: "fst ?rel = Inr ()" by (rule release_lock_result(1) [OF K(1) wf])
  have rw: "w = snd ?rel" "held ph = None" "task_of ph = None"
    using run ph rel by (auto simp: x work_def py_simps split: sum.splits)
  have k: "kept E view ?w w"
    unfolding rw(1) by (rule lock_ops_kept(2) [OF sys_invD(1) [OF s] ttl])
  show ?thesis
  proof (rule sys_invI [OF s])
    show "kept E view (sy_world s) (sy_world ?s')" using k by simp
    show "sy_worker ?s' d = sy_worker s d \<or> worker_ok E view (sy_world ?s') (sy_worker ?s' d)" for d
      by (simp add: worker_ok_def rw(3))
    show "locks_wf (view (svc (sy_world ?s')))"
      using release_lock_result(3) [OF K(1) wf] by (simp add: rw(1))
    assume tokens: "tokens_ok E (ticks ?w) (sy_worker s)"
      and inv: "lock_inv view (token_of s) (locks_of s)"
    have "tokens_ok E (ticks (sy_world ?s')) (sy_worker ?s')"
      by (rule tokens_ok_fewer [OF tokens_ok_more [OF tokens]])
        (use keptD(3) [OF k] rw(2) in \<open>auto split: if_splits\<close>)
    let ?L = "(locks_of s)\<lparr>lk_world := w, lk_at := (lk_at (locks_of s))(c := None)\<rparr>"
    have "release_lock E p (token_of s c) (lk_world (locks_of s)) = (Inr (), w)"
      using rel by (simp add: token_of_def held locks_of_def prod_eq_iff rw(1))
    then have L: "lock_inv view (token_of s) ?L"
      by (intro lock_inv_release [OF inv own_token [OF tokens held]]) simp_all
    have "lock_inv view (token_of ?s') (locks_of ?s')"
      by (rule lock_inv_cong [OF L])
        (use lock_invD(1) [OF L] rw(2) in
          \<open>auto simp: locks_of_def lease_live_def token_of_def split: if_splits\<close>)
    with \<open>tokens_ok E (ticks (sy_world ?s')) (sy_worker ?s')\<close>
    show "tokens_ok E (ticks (sy_world ?s')) (sy_worker ?s')
        \<and> lock_inv view (token_of ?s') (locks_of ?s')" ..
  qed simp_all
qed

lemma sys_step_inv:
  assumes "sys_step E W s s'" "sys_inv E view s" and W: "w_queue W = redis_queue E"
    and ttl: "0 < ttl_of E"
  shows "sys_inv E view s'"
  using assms(1)
proof cases
  case (worker ft c r w ph)
  show ?thesis
  proof (cases "(\<exists>x. sy_worker s c = Took x) \<or> (\<exists>x p tok res. sy_worker s c = Ran x p tok res)")
    case True
    then show ?thesis
      using take_lock_inv [OF assms(2) ttl] release_inv [OF assms(2) ttl _ worker(2,3)] worker
      by (auto simp: work_def)
  next
    case False
    with work_good [OF assms(2) W _ _ worker(2,3)]
    have "good E view (sy_world s) w" "worker_ok E view w ph" "held ph = held (sy_worker s c)" by auto
    then show ?thesis unfolding worker(1)
      by (intro sys_inv_good [OF assms(2)]) (auto simp: leased_def)
  qed
qed (simp_all add: request_inv [OF assms(2)] poll_inv [OF assms(2)] loop_inv [OF assms(2)]
    cancel_inv [OF assms(2)] elapse_inv [OF assms(2)] restart_inv(1) [OF assms(2)] beat_inv [OF assms(2) ttl])

lemma sys_run_inv:
  "sys_run E W s s' \<Longrightarrow> sys_inv E view s \<Longrightarrow> w_queue W = redis_queue E \<Longrightarrow> 0 < ttl_of E
   \<Longrightarrow> sys_inv E view s'"
  by (induction rule: sys_run.induct) (auto intro: sys_step_inv)

end

section \<open>A turn without interruption\<close>

text \<open>What is scheduled does not look at the schedule.\<close>

lemma run_coro_blind:
  "run_coro E co (w\<lparr>pending := cs\<rparr>) =
     (fst (run_coro E co w), (snd (run_coro E co w))\<lparr>pending := cs\<rparr>)"
  by (cases co) (auto simp: async_update_def bus_publish_def py_simps split: sum.split)

lemma quiet_run:
  "snd (py_try (run_coro E co) (\<lambda>_. py_return ()) w) = snd (run_coro E co w)"
  "fst (py_try (run_coro E co) (\<lambda>_. py_return ()) w) = Inr ()"
  by (simp_all add: py_simps split: sum.split)

lemma loops:
  "pending (sy_world s) = cs \<Longrightarrow> sys_run E W s
     (s\<lparr>sy_world := snd (py_for (\<lambda>co. py_try (run_coro E co) (\<lambda>_. py_return ())) cs
        ((sy_world s)\<lparr>pending := []\<rparr>))\<rparr>)"
proof (induction cs arbitrary: s)
  case Nil
  then have "s\<lparr>sy_world := (sy_world s)\<lparr>pending := []\<rparr>\<rparr> = s" by simp
  then show ?case by (simp add: py_simps sys_run.here)
next
  case (Cons co cs)
  let ?f = "\<lambda>co. py_try (run_coro E co) (\<lambda>_. py_return ())"
  let ?w = "sy_world s"
  let ?w1 = "snd (run_coro E co (?w\<lparr>pending := cs\<rparr>))"
  have "?f co (?w\<lparr>pending := cs\<rparr>) = (Inr (), ?w1)"
    by (simp add: prod_eq_iff quiet_run)
  from sys_step.loop [of s co cs E "Inr ()" ?w1 W, OF Cons.prems this]
  have step: "sys_step E W s (s\<lparr>sy_world := ?w1\<rparr>)" .
  have pend: "pending (sy_world (s\<lparr>sy_world := ?w1\<rparr>)) = cs"
    using redis_only_frame(4) [OF redis_only_run_coro, of E co "?w\<lparr>pending := cs\<rparr>"] by simp
  have "?w1\<lparr>pending := []\<rparr> = snd (run_coro E co (?w\<lparr>pending := []\<rparr>))"
    by (simp add: run_coro_blind)
  then have "snd (py_for ?f (co # cs) (?w\<lparr>pending := []\<rparr>)) = snd (py_for ?f cs (?w1\<lparr>pending := []\<rparr>))"
    using quiet_run [of E co "?w\<lparr>pending := []\<rparr>"] by (simp add: py_then_def py_bind_def)
  with sys_run_trans [OF Cons.IH [OF pend] sys_run.more [OF sys_run.here step]] show ?case by simp
qed

lemma loops_pending: "sys_run E W s (s\<lparr>sy_world := snd (run_pending E (sy_world s))\<rparr>)"
  using loops [OF refl, of E W s] by (simp add: run_pending_def py_simps)

lemma beats_run:
  assumes "held (sy_worker s c) = Some (p, tok)"
  shows "\<exists>l. sys_run E W s (s\<lparr>sy_world := snd (heartbeat E p tok n (sy_world s)), sy_lease := l\<rparr>)"
  using assms
proof (induction n arbitrary: s)
  case 0
  have "s\<lparr>sy_world := sy_world s, sy_lease := sy_lease s\<rparr> = s" by simp
  then show ?case by (intro exI [of _ "sy_lease s"]) (simp add: py_simps sys_run.here)
next
  case (Suc n)
  obtain r w where run: "refresh_lock E p tok (ttl_of E) (sy_world s) = (r, w)" by fastforce
  let ?l = "if r = Inr True then (sy_lease s)(c := ttl_of E) else sy_lease s"
  let ?s = "s\<lparr>sy_world := w, sy_lease := ?l\<rparr>"
  have step: "sys_run E W s ?s"
    by (rule sys_run.more [OF sys_run.here sys_step.beat [OF Suc.prems run]])
  show ?case
  proof (cases "r = Inr True")
    case True
    obtain l where "sys_run E W ?s (?s\<lparr>sy_world := snd (heartbeat E p tok n w), sy_lease := l\<rparr>)"
      using Suc.IH [of ?s] Suc.prems by auto
    from sys_run_trans [OF this step] have
      "sys_run E W s (s\<lparr>sy_world := snd (heartbeat E p tok n w), sy_lease := l\<rparr>)" by simp
    moreover have "snd (heartbeat E p tok (Suc n) (sy_world s)) = snd (heartbeat E p tok n w)"
      using run True by (simp add: py_bind_def)
    ultimately show ?thesis by auto
  next
    case False
    then have "snd (heartbeat E p tok (Suc n) (sy_world s)) = w"
      using run by (cases r) (auto simp: py_simps split: sum.split)
    with step show ?thesis by auto
  qed
qed

text \<open>One turn of a worker, up to leases.\<close>

definition turned :: "'r env \<Rightarrow> 'r worker \<Rightarrow> 'r system \<Rightarrow> nat \<Rightarrow> wphase \<Rightarrow> 'r world \<Rightarrow> bool" where
  "turned E W s c ph w =
     (\<exists>l. sys_run E W s (s\<lparr>sy_world := w, sy_worker := (sy_worker s)(c := ph), sy_lease := l\<rparr>))"

lemma turned_work:
  assumes "turned E W s c ph w" "work E W ft ph w = (r, w')"
  shows "turned E W s c (next_wphase r) w'"
proof -
  obtain l where l: "sys_run E W s (s\<lparr>sy_world := w, sy_worker := (sy_worker s)(c := ph), sy_lease := l\<rparr>)"
    using assms(1) unfolding turned_def by blast
  let ?t = "s\<lparr>sy_world := w, sy_worker := (sy_worker s)(c := ph), sy_lease := l\<rparr>"
  have "work E W ft (sy_worker ?t c) (sy_world ?t) = (r, w')" using assms(2) by simp
  from sys_run.more [OF l sys_step.worker [OF this refl]] show ?thesis
    unfolding turned_def by (auto simp: fun_upd_upd)
qed

lemma turned_wait:
  assumes "turned E W s c ph w" "held ph = Some (p, tok)"
  shows "turned E W s c ph (snd (heartbeat E p tok n (snd (run_pending E w))))"
proof -
  obtain l where l: "sys_run E W s (s\<lparr>sy_world := w, sy_worker := (sy_worker s)(c := ph), sy_lease := l\<rparr>)"
    using assms(1) unfolding turned_def by blast
  let ?t = "s\<lparr>sy_world := w, sy_worker := (sy_worker s)(c := ph), sy_lease := l\<rparr>"
  let ?u = "?t\<lparr>sy_world := snd (run_pending E w)\<rparr>"
  have u: "sys_run E W s ?u"
    using sys_run_trans [OF loops_pending [of E W ?t] l] by simp
  have h: "held (sy_worker ?u c) = Some (p, tok)" using assms(2) by simp
  obtain l' where "sys_run E W ?u (?u\<lparr>sy_world := snd (heartbeat E p tok n (sy_world ?u)), sy_lease := l'\<rparr>)"
    using beats_run [OF h] by blast
  from sys_run_trans [OF this u]
  have "sys_run E W s (?u\<lparr>sy_world := snd (heartbeat E p tok n (snd (run_pending E w))), sy_lease := l'\<rparr>)"
    by simp
  moreover have "?u\<lparr>sy_world := v, sy_lease := l'\<rparr>
      = s\<lparr>sy_world := v, sy_worker := (sy_worker s)(c := ph), sy_lease := l'\<rparr>" for v
    by simp
  ultimately show ?thesis unfolding turned_def by metis
qed

definition ends_as :: "exn + unit \<Rightarrow> wphase" where
  "ends_as r = (case r of Inl e \<Rightarrow> Ended e | Inr u \<Rightarrow> Idle)"

lemma turned_execute:
  assumes "turned E W s c (Took x) w"
  shows "turned E W s c (ends_as (fst (execute E W ft n x w))) (snd (execute E W ft n x w))"
proof -
  let ?p = "project_name (heap w x)" and ?tok = "uuid_at E (ticks w)"
  let ?acq = "acquire_lock E ?p ?tok (ttl_of E) (w\<lparr>ticks := Suc (ticks w)\<rparr>)"
  have take: "take_lock E x w = (case fst ?acq of
      Inl e \<Rightarrow> (Inl e, snd ?acq)
    | Inr got \<Rightarrow> (Inr (if got then Holding x ?p ?tok else Refused x), snd ?acq))"
    by (simp add: take_lock_def py_simps split: sum.split)
  let ?wait = "py_try (py_then (run_pending E) (heartbeat E ?p ?tok n)) (\<lambda>_. py_return ())"
  have exe: "execute E W ft n x w = (case fst ?acq of
      Inl e \<Rightarrow> (Inl e, snd ?acq)
    | Inr got \<Rightarrow>
        (if got then py_finally (run_guarded E W ft x) (py_then ?wait (release_lock E ?p ?tok)) (snd ?acq)
         else wq_enqueue (w_queue W) x (snd ?acq)))"
    by (simp add: execute_def run_guarded_def py_bind_def new_uuid_def load_def split: sum.split)
  show ?thesis
  proof (cases "fst ?acq")
    case (Inl e)
    with turned_work [OF assms, of ft "Inl e" "snd ?acq"] show ?thesis
      by (simp add: work_def take exe ends_as_def)
  next
    case (Inr got)
    show ?thesis
    proof (cases got)
      case False
      have "turned E W s c (Refused x) (snd ?acq)"
        using turned_work [OF assms, of ft "Inr (Refused x)" "snd ?acq"] Inr False
        by (simp add: work_def take)
      from turned_work [OF this] show ?thesis
        using Inr False
        by (cases "wq_enqueue (w_queue W) x (snd ?acq)"; cases "fst (wq_enqueue (w_queue W) x (snd ?acq))")
          (auto simp: work_def exe ends_as_def py_simps)
    next
      case True
      let ?g = "run_guarded E W ft x (snd ?acq)"
      let ?v = "snd (heartbeat E ?p ?tok n (snd (run_pending E (snd ?g))))"
      have "turned E W s c (Holding x ?p ?tok) (snd ?acq)"
        using turned_work [OF assms, of ft "Inr (Holding x ?p ?tok)" "snd ?acq"] Inr True
        by (simp add: work_def take)
      from turned_work [OF this, of ft "Inr (Ran x ?p ?tok (fst ?g))" "snd ?g"]
      have "turned E W s c (Ran x ?p ?tok (fst ?g)) (snd ?g)"
        by (simp add: work_def py_simps split: sum.split)
      then have ran: "turned E W s c (Ran x ?p ?tok (fst ?g)) ?v"
        by (rule turned_wait) simp
      have wait: "?wait (snd ?g) = (Inr (), ?v)"
        by (simp add: py_try_def py_then_def py_bind_def run_pending_returns py_return_def split: sum.split)
      let ?rel = "release_lock E ?p ?tok ?v"
      have fin: "execute E W ft n x w = (case fst ?rel of Inl e \<Rightarrow> (Inl e, snd ?rel) | Inr u \<Rightarrow> (fst ?g, snd ?rel))"
        using Inr True wait
        by (simp add: exe py_finally_def py_then_def py_bind_def split: sum.split)
      from turned_work [OF ran, of ft] show ?thesis
        unfolding fin
        by (cases "fst ?rel"; cases "fst ?g"; cases ?rel) (auto simp: work_def ends_as_def py_simps)
    qed
  qed
qed

lemma turned_worker_run:
  assumes "turned E W s c Idle w"
  shows "turned E W s c (ends_as (fst (worker_run E W [(ft, n)] w))) (snd (worker_run E W [(ft, n)] w))"
proof -
  let ?d = "wq_dequeue (w_queue W) (w_poll_interval W) w"
  show ?thesis
  proof (cases "fst ?d")
    case (Inl e)
    with turned_work [OF assms, of ft "Inl e" "snd ?d"] show ?thesis
      by (simp add: work_def ends_as_def py_simps)
  next
    case (Inr task)
    show ?thesis
    proof (cases task)
      case None
      with Inr turned_work [OF assms, of ft "Inr Idle" "snd ?d"] show ?thesis
        by (simp add: work_def ends_as_def py_simps)
    next
      case (Some x)
      with Inr turned_work [OF assms, of ft "Inr (Took x)" "snd ?d"]
      have "turned E W s c (Took x) (snd ?d)" by (simp add: work_def py_simps)
      from turned_execute [OF this, of ft n] Inr Some show ?thesis
        by (simp add: ends_as_def py_then_def py_bind_def py_return_def split: sum.split)
    qed
  qed
qed

section \<open>Properties\<close>

text \<open>C1: the store stays consistent whatever happens. From a consistent start, in every state that
  requests, workers, heartbeats, the event loop, time, cancellations and restarts with recovery reach
  in any interleaving of their operations, the invariants of the store and of the locks hold, and
  every task a worker or a request works on, or whose write is scheduled, is stored.\<close>

theorem system_invariant:
  assumes "deployment E view" "w_queue W = redis_queue E" "0 < lock_ttl (settings E)"
    and "sys_start E view s0" "sys_run E W s0 s"
  shows "store_inv E (view (svc (sy_world s))) \<and> locks_wf (view (svc (sy_world s)))
    \<and> (\<forall>c x. task_of (sy_worker s c) = Some x \<longrightarrow> stored E view (sy_world s) x)
    \<and> (\<forall>c x. sy_request s c = Stored x \<longrightarrow> stored E view (sy_world s) x)
    \<and> (\<forall>x. AsyncUpdate x \<in> set (pending (sy_world s)) \<longrightarrow> stored E view (sy_world s) x)"
proof -
  note S = sys_invD [OF deployment.sys_run_inv [OF assms(1,5) sys_inv_start [OF assms(4)] assms(2,3)]]
  show ?thesis
  proof (intro conjI allI impI)
    show "store_inv E (view (svc (sy_world s)))" "locks_wf (view (svc (sy_world s)))"
      using keptD(5) [OF S(1)] S(4) by simp_all
    show "stored E view (sy_world s) x" if "task_of (sy_worker s c) = Some x" for c x
      using S(3) [of c] that by (simp add: worker_ok_def)
    show "stored E view (sy_world s) x" if "sy_request s c = Stored x" for c x
      using S(2) [of c] that by (simp add: request_ok_def)
    show "stored E view (sy_world s) x" if "AsyncUpdate x \<in> set (pending (sy_world s))" for x
      by (rule keptD(9) [OF S(1) that])
  qed
qed

text \<open>The system of the examples: a task is stored and queued, and requests for its project come in.\<close>

definition demo_system :: "mem system" where
  "demo_system =
     \<lparr>sy_world = queued_world, sy_request = (\<lambda>_. Incoming demo_request), sy_worker = (\<lambda>_. Idle),
      sy_lease = (\<lambda>_. 0)\<rparr>"

abbreviation redis_worker :: "mem worker" where
  "redis_worker \<equiv> demo_worker (redis_queue mem_env)"

lemma demo_system_start: "sys_start mem_env mem_view demo_system"
proof -
  let ?K = "mem_view (svc queued_world)"
  have wf: "task_keys_wf ?K"
    unfolding queued_world_view by (rule task_keys_wf_writes(2) [OF saved_world_task_keys])
  have "ks_keys ?K (lock_key p) = None" for p
    unfolding queued_world_view by (simp add: queued_keys saved_world_keys)
  then have locks: "locks_wf ?K" by (simp add: locks_wf_def)
  have "ks_ttl (mem_view (svc start_world)) k = None" for k
    by (simp add: mem_view_def start_world_def)
  then have "ks_ttl ?K k = None" for k
    unfolding queued_world_view saved_world_view
    by (simp add: queued_def saved_def ks_put_def cmd_sadd_def Let_def)
  then have "ttls_on_locks ?K" by (simp add: ttls_on_locks_def)
  moreover have "pending queued_world = []" by (simp add: queued_world_def)
  ultimately show ?thesis
    using wf locks queued_world_inv by (simp add: sys_start_def demo_system_def)
qed

text \<open>One of its runs: worker 0 takes the task and its lock.\<close>

lemma demo_holding:
  "\<exists>s. sys_run mem_env redis_worker demo_system s \<and> ticks (sy_world s) = 1
    \<and> sy_worker s = (\<lambda>_. Idle)(0 := Holding 1 ''demo'' (hex_of 32 0)) \<and> sy_lease s 0 = 3600"
proof -
  let ?w1 = "snd (dequeue mem_env 1 queued_world)"
  have q: "queue_inv mem_env (mem_view (svc queued_world))"
    using queued_world_inv by (simp add: store_inv_def)
  note run = memory.dequeue_run(2) [OF queued_world_facts(1) q queued_world_queue, of 1]
  have d: "fst (dequeue mem_env 1 queued_world) = Inr (Some 1)" "heap ?w1 1 = no_task" "client_ready ?w1"
    using run by simp_all
  have free: "ks_keys (mem_view (svc ?w1)) (lock_key ''demo'') = None"
    using run queued_world_free by simp
  have k: "ks_keys (mem_view (svc queued_world)) queue_key = Some (RList [enc mem_env no_task])"
    using queued_world_queue by (cases rule: queue_key_cases [OF q]) simp_all
  have t0: "ticks queued_world = 0" by (simp add: queued_world_def)
  have t: "ticks ?w1 = 0"
    by (simp add: dequeue_def py_simps cmd_brpop_def k t0)
  let ?s1 = "demo_system\<lparr>sy_world := ?w1, sy_worker := (\<lambda>_. Idle)(0 := Took 1)\<rparr>"
  have "work mem_env redis_worker Completes (sy_worker demo_system 0) (sy_world demo_system)
      = (Inr (Took 1), ?w1)"
    using d(1) by (simp add: demo_system_def work_def demo_worker_def redis_queue_def py_simps)
  from sys_step.worker [OF this refl] have 1: "sys_step mem_env redis_worker demo_system ?s1"
    by (simp add: demo_system_def leased_def fun_upd_idem)
  let ?acq = "acquire_lock mem_env ''demo'' (hex_of 32 0) 3600 (?w1\<lparr>ticks := 1\<rparr>)"
  have acq: "fst ?acq = Inr True"
    using memory.acquire_keys(1) [of "?w1\<lparr>ticks := 1\<rparr>" 3600 "''demo''" "hex_of 32 0"] d(3) free by simp
  have only: "redis_only (acquire_lock mem_env ''demo'' (hex_of 32 0) 3600)"
    unfolding acquire_lock_def by (intro redis_only_intros)
  let ?s2 = "?s1\<lparr>sy_world := snd ?acq, sy_worker := (\<lambda>_. Idle)(0 := Holding 1 ''demo'' (hex_of 32 0)),
      sy_lease := (\<lambda>_. 0)(0 := 3600)\<rparr>"
  have "work mem_env redis_worker Completes (sy_worker ?s1 0) (sy_world ?s1)
      = (Inr (Holding 1 ''demo'' (hex_of 32 0)), snd ?acq)"
    using acq d(2) t by (simp add: work_def take_lock_def py_simps)
  from sys_step.worker [OF this refl] have 2: "sys_step mem_env redis_worker ?s1 ?s2"
    by (simp add: leased_def demo_system_def)
  have "sys_run mem_env redis_worker demo_system ?s2"
    by (rule sys_run.more [OF sys_run.more [OF sys_run.here 1] 2])
  moreover have "ticks (sy_world ?s2) = 1" using redis_only_frame(7) [OF only] by simp
  ultimately show ?thesis by (intro exI [of _ ?s2]) simp
qed

text \<open>Another: request 0 is answered with the stored task.\<close>

lemma demo_answered:
  "\<exists>s a. sys_run mem_env redis_worker demo_system s \<and> sy_request s 0 = Answered a"
proof -
  obtain r where r: "fst (find_incomplete mem_env ''demo'' queued_world) = Inr r"
    "r = None \<longleftrightarrow> \<not> (\<exists>i t. i \<in> members (mem_view (svc queued_world)) ''demo''
       \<and> holds mem_env (mem_view (svc queued_world)) i t \<and> is_incomplete t)"
    using find_incomplete_correct [OF memory.deployment_axioms queued_world_facts(1) queued_world_inv,
        of "''demo''"] by auto
  have "task_id no_task \<in> members (mem_view (svc queued_world)) ''demo''"
    unfolding queued_world_view by (simp add: members_def queued_keys saved_world_keys)
  moreover have "is_incomplete no_task" by (simp add: is_incomplete_def)
  ultimately obtain x where "fst (find_incomplete mem_env ''demo'' queued_world) = Inr (Some x)"
    using r queued_world_holds by (metis not_Some_eq)
  then have "fst (find_incomplete mem_env (req_project_name demo_request) queued_world) = Inr (Some x)"
    by (simp add: demo_request_def)
  from advance_lookup(3) [OF this] obtain a w where
    "advance mem_env (sy_request demo_system 0) (sy_world demo_system) = (Inr (Answered a), w)"
    by (simp add: demo_system_def)
  from sys_run.more [OF sys_run.here sys_step.request [OF this]] show ?thesis by fastforce
qed

theorem system_invariant_witness:
  "\<exists>s. sys_run mem_env redis_worker demo_system s \<and> held (sy_worker s 0) \<noteq> None
     \<and> store_inv mem_env (mem_view (svc (sy_world s)))"
proof -
  obtain s where s: "sys_run mem_env redis_worker demo_system s"
    "sy_worker s = (\<lambda>_. Idle)(0 := Holding 1 ''demo'' (hex_of 32 0))"
    using demo_holding by blast
  have "store_inv mem_env (mem_view (svc (sy_world s)))"
    using system_invariant [OF memory.deployment_axioms _ _ demo_system_start s(1)] by simp
  with s show ?thesis by (intro exI [of _ s]) simp
qed

text \<open>C2: two workers are never on one project at the same time. As long as the generator of ids has
  not repeated itself, two workers that are executing tasks of one project under leases that are
  live are the same worker, in every interleaving, crashes and restarts included.\<close>

theorem workers_exclude:
  assumes "deployment E view" "w_queue W = redis_queue E" "0 < lock_ttl (settings E)"
    and "sys_start E view s0" "sys_run E W s0 s" "inj_on (uuid_at E) {..<ticks (sy_world s)}"
    and "held (sy_worker s c) \<noteq> None" "task_of (sy_worker s c) = Some x" "0 < sy_lease s c"
    and "held (sy_worker s d) \<noteq> None" "task_of (sy_worker s d) = Some y" "0 < sy_lease s d"
    and "project_name (heap (sy_world s) x) = project_name (heap (sy_world s) y)"
  shows "c = d"
proof -
  note S = sys_invD [OF deployment.sys_run_inv [OF assms(1,5) sys_inv_start [OF assms(4)] assms(2,3)]]
  have fresh: "fresh_ids E s" using assms(6) by (simp add: fresh_ids_def)
  have live: "\<exists>tok. held (sy_worker s b) = Some (project_name (heap (sy_world s) z), tok)
      \<and> lease_live (locks_of s) b (project_name (heap (sy_world s) z))"
    if "held (sy_worker s b) \<noteq> None" "task_of (sy_worker s b) = Some z" "0 < sy_lease s b" for b z
    using S(3) [of b] that by (auto simp: worker_ok_def lease_live_def locks_of_def)
  obtain t where c: "held (sy_worker s c) = Some (project_name (heap (sy_world s) x), t)"
    "lease_live (locks_of s) c (project_name (heap (sy_world s) x))"
    using live [OF assms(7,8,9)] by blast
  obtain u where d: "held (sy_worker s d) = Some (project_name (heap (sy_world s) y), u)"
    "lease_live (locks_of s) d (project_name (heap (sy_world s) y))"
    using live [OF assms(10,11,12)] by blast
  note locks = deployment.lock_invD(3) [OF assms(1) S(6) [OF fresh]]
  have "Some (token_of s c) = Some (token_of s d)"
    using locks [OF c(2)] locks [OF d(2)] assms(13) by metis
  then have "t = u" by (simp add: token_of_def c(1) d(1))
  with c(1) d(1) S(5) [OF fresh] show ?thesis unfolding tokens_ok_def by blast
qed

theorem workers_exclude_witness:
  "\<exists>s. sys_run mem_env redis_worker demo_system s \<and> task_of (sy_worker s 0) = Some 1
     \<and> (\<forall>d. held (sy_worker s d) \<noteq> None \<longrightarrow> task_of (sy_worker s d) = Some 1 \<longrightarrow> 0 < sy_lease s d \<longrightarrow> 0 = d)"
proof -
  obtain s where s: "sys_run mem_env redis_worker demo_system s" "ticks (sy_world s) = 1"
    "sy_worker s = (\<lambda>_. Idle)(0 := Holding 1 ''demo'' (hex_of 32 0))" "sy_lease s 0 = 3600"
    using demo_holding by blast
  have "inj_on (uuid_at mem_env) {..<ticks (sy_world s)}" by (simp add: s(2) inj_on_def)
  note exclude = workers_exclude [OF memory.deployment_axioms _ _ demo_system_start s(1) this,
      of 0 1 _ 1]
  show ?thesis
  proof (intro exI [of _ s] conjI allI impI)
    fix d
    assume "held (sy_worker s d) \<noteq> None" "task_of (sy_worker s d) = Some 1" "0 < sy_lease s d"
    then show "0 = d" by (intro exclude) (simp_all add: s(3,4))
  qed (simp_all add: s)
qed

lemma answered_stays:
  "sys_run E W s s' \<Longrightarrow> sy_request s c = Answered a \<Longrightarrow> sy_request s' c = Answered a"
proof (induction rule: sys_run.induct)
  case (more s t u)
  from more(2) more(3) [OF more(4)] show ?case
  proof cases
    case (request d r w)
    with more(3) [OF more(4)] show ?thesis
      by (cases "d = c") (auto simp: advance_def py_simps)
  next
    case (restart fuel n w req)
    then show ?thesis using more(3) [OF more(4)] by (auto simp: outlives_def dest: spec [of _ c])
  qed simp_all
qed simp

lemma answered_stored:
  assumes "deployment E view" "store_inv E K" "hex32 i" "holds E K i t" "answers a t"
  shows "resp_task_id a = i"
proof -
  obtain u where u: "holds E K i u" "task_id u = i"
    using records_invD [OF assms(2,3,4)] by blast
  have "u = t" by (rule holds_unique [OF assms(1) u(1) assms(4)])
  with u(2) assms(5) show ?thesis by (auto simp: answers_def from_task_def same_identity_def)
qed

text \<open>C3: an accepted task is never lost. A request that was answered stays answered, and in every
  state reached later the task it was answered with is stored under its id, with the identity it was
  answered with. And if the process dies then, the restart's recovery returns, and the task is
  finished or in the queue.\<close>

theorem accepted_never_lost:
  assumes "deployment E view" "w_queue W = redis_queue E" "0 < lock_ttl (settings E)"
    and "sys_start E view s0" "sys_run E W s0 s" "sy_request s c = Answered a" "sys_run E W s s'"
  shows "sy_request s' c = Answered a
    \<and> (\<exists>t. holds E (view (svc (sy_world s'))) (resp_task_id a) t \<and> answers a t)
    \<and> (\<exists>fuel n w t. recover_stranded_tasks fuel E (rebooted (sy_world s')) = (Inr (Some n), w)
        \<and> holds E (view (svc w)) (resp_task_id a) t \<and> answers a t \<and> status t \<noteq> RUNNING
        \<and> (is_terminal t \<or> enc E t \<in> set (queue_of (view (svc w)))))"
proof -
  let ?w = "sy_world s'"
  note run = sys_run_trans [OF assms(7,5)]
  note inv = deployment.sys_run_inv [OF assms(1) run sys_inv_start [OF assms(4)] assms(2,3)]
  note K = keptD [OF sys_invD(1) [OF inv]]
  have a: "sy_request s' c = Answered a" by (rule answered_stays [OF assms(7,6)])
  with sys_invD(2) [OF inv, of c] obtain i t where t: "hex32 i" "holds E (view (svc ?w)) i t" "answers a t"
    by (auto simp: request_ok_def)
  have i: "resp_task_id a = i" by (rule answered_stored [OF assms(1) K(5) t])
  let ?r = "rebooted ?w"
  have r: "client_ready ?r" "view (svc ?r) = view (svc ?w)" by (simp_all add: rebooted_def)
  have "store_inv E (view (svc ?r))" "task_keys_wf (view (svc ?r))" using K(5,6) by (simp_all add: r(2))
  from deployment.recovery_run [OF assms(1) r(1) this] obtain fuel n where
    "fst (recover_stranded_tasks fuel E ?r) = Inr (Some n)" by blast
  then obtain w where rec: "recover_stranded_tasks fuel E ?r = (Inr (Some n), w)"
    by (metis prod.collapse)
  let ?req = "\<lambda>c. case sy_request s' c of Answered a \<Rightarrow> Answered a | Raised e \<Rightarrow> Raised e
      | ph \<Rightarrow> Incoming demo_request"
  have "\<forall>c. outlives (sy_request s' c) (?req c)"
    by (auto simp: outlives_def split: phase.split)
  from deployment.restart_inv(2) [OF assms(1) inv rec this]
  have w: "good E view ?w w" .
  obtain t' where t': "holds E (view (svc w)) i t'" "same_identity t t'"
    using carriesD [OF keptD(7) [OF goodD(1) [OF w]] t(1,2)] by blast
  have "answers a t'"
    using t(3) t'(2) same_identity_trans unfolding answers_def by blast
  moreover have "good E view ?r ?r"
    using K r by (auto simp: good_def kept_def grown_def sound_def rebooted_def)
  then have "status t' \<noteq> RUNNING \<and> (is_terminal t' \<or> enc E t' \<in> set (queue_of (view (svc w))))"
    by (rule deployment.recovery_good(2) [OF assms(1) _ rec t(1) t'(1)])
  ultimately have "recover_stranded_tasks fuel E ?r = (Inr (Some n), w)
      \<and> holds E (view (svc w)) (resp_task_id a) t' \<and> answers a t' \<and> status t' \<noteq> RUNNING
      \<and> (is_terminal t' \<or> enc E t' \<in> set (queue_of (view (svc w))))"
    using rec t'(1) i by simp
  with a t i show ?thesis by blast
qed

theorem accepted_never_lost_witness:
  "\<exists>s a t. sys_run mem_env redis_worker demo_system s \<and> sy_request s 0 = Answered a
     \<and> holds mem_env (mem_view (svc (sy_world s))) (resp_task_id a) t \<and> answers a t"
proof -
  obtain s a where s: "sys_run mem_env redis_worker demo_system s" "sy_request s 0 = Answered a"
    using demo_answered by blast
  from accepted_never_lost [OF memory.deployment_axioms _ _ demo_system_start s sys_run.here] s
  show ?thesis by auto
qed

text \<open>C19: the phases are the code. A worker that takes its turn alone, operation by operation, from
  waiting for a task until it waits again or has ended, does what one turn of \<open>run\<close> does:
  \<open>worker_run\<close>, with the same state and the same exception, and no other worker or request moves.\<close>

theorem phases_are_turns:
  assumes "sy_worker s c = Idle"
  shows "\<exists>l. sys_run E W s
    (s\<lparr>sy_world := snd (worker_run E W [(ft, beats)] (sy_world s)),
      sy_worker := (sy_worker s)(c := (case fst (worker_run E W [(ft, beats)] (sy_world s)) of
         Inr u \<Rightarrow> Idle | Inl e \<Rightarrow> Ended e)),
      sy_lease := l\<rparr>)"
proof -
  have "s\<lparr>sy_world := sy_world s, sy_worker := (sy_worker s)(c := Idle), sy_lease := sy_lease s\<rparr> = s"
    using assms by (simp add: fun_upd_idem)
  then have "turned E W s c Idle (sy_world s)"
    unfolding turned_def by (metis sys_run.here)
  from turned_worker_run [OF this, of ft beats] show ?thesis
    unfolding turned_def ends_as_def by (simp add: sum.case_eq_if)
qed

theorem phases_are_turns_witness:
  "\<exists>s. sys_run mem_env redis_worker demo_system s
     \<and> sy_world s = snd (worker_run mem_env redis_worker [(Completes, 2)] queued_world)"
  using phases_are_turns [of demo_system 0 mem_env redis_worker Completes 2]
  by (force simp: demo_system_def)

end
