(* ===== verification/Crash_Points.thy ===== *)
theory Crash_Points
  imports Api Recovery
begin

text \<open>
  A process that dies between two commands of one operation of the store. \<open>TaskStore.save\<close> and
  \<open>TaskStore.async_update\<close> (\<open>src/task_queue/store.py\<close>) send Redis up to three commands, one by one and not
  in a transaction; here each is cut off after its first \<open>n\<close> commands, and what is then stored decides
  what the next process answers. (In theory \<open>System\<close> a process dies between operations.)
\<close>

section \<open>Operations cut off\<close>

text \<open>The rest of an operation that sends one more command, of which \<open>n\<close> are still sent. Of a dead
  process only the store is left, so what is returned does not matter.\<close>

definition sends :: "nat \<Rightarrow> ('r, unit) prog \<Rightarrow> ('r, unit) prog" where
  "sends n m = (if n = 0 then py_return () else m)"

definition save_upto :: "nat \<Rightarrow> 'r env \<Rightarrow> obj \<Rightarrow> ('r, unit) prog" where
  "save_upto n E x =
     py_then get_redis
       (py_bind (load x) (\<lambda>t.
        py_bind (model_dump_json E x) (\<lambda>payload.
        sends n
          (py_bind (on_redis (r_set (redis E) (task_key (task_id t)) payload True None)) (\<lambda>set_result.
             if \<not> set_result then py_raise (task_exists (task_id t))
             else sends (n - 1)
               (py_then (on_redis (r_sadd (redis E) (project_tasks_key (project_name t)) (task_id t)))
                 (if requirement t \<noteq> []
                  then sends (n - 2)
                    (py_then (on_redis (r_set (redis E) (digest_key E (project_name t) (requirement t))
                       (task_id t) False None)) (py_return ()))
                  else py_return ())))))))"

definition update_upto :: "nat \<Rightarrow> 'r env \<Rightarrow> obj \<Rightarrow> ('r, unit) prog" where
  "update_upto n E x =
     py_then get_redis
       (py_bind (load x) (\<lambda>t.
        py_bind (model_dump_json E x) (\<lambda>payload.
        sends n
          (py_then (on_redis (r_set (redis E) (task_key (task_id t)) payload False None))
            (if is_terminal t \<and> requirement t \<noteq> []
             then sends (n - 1)
               (py_then (on_redis (r_delete (redis E)
                   (digest_key E (project_name t) (requirement t)))) (py_return ()))
             else py_return ())))))"

text \<open>With all their commands they are the operations.\<close>

lemma save_upto_all: "3 \<le> n \<Longrightarrow> save_upto n E x = store_save E x"
  by (simp add: save_upto_def store_save_def sends_def cong: if_cong)

lemma update_upto_all: "2 \<le> n \<Longrightarrow> update_upto n E x = async_update E x"
  by (simp add: update_upto_def async_update_def sends_def cong: if_cong)

lemma redis_only_upto [redis_only_intros]:
  "redis_only (save_upto n E x)" "redis_only (update_upto n E x)"
  unfolding save_upto_def update_upto_def sends_def model_dump_json_def
  by (intro redis_only_intros)+

lemmas upto_frame [simp] =
  redis_only_frame [OF redis_only_upto(1)] redis_only_frame [OF redis_only_upto(2)]

section \<open>What is left in the store\<close>

text \<open>The record alone.\<close>

definition recorded :: "'r env \<Rightarrow> task \<Rightarrow> keyspace \<Rightarrow> keyspace" where
  "recorded E t K = ks_put (task_key (task_id t)) (RStr (enc E t)) K"

text \<open>The record and the index entry; as with an empty requirement, no digest key.\<close>

definition indexed :: "'r env \<Rightarrow> task \<Rightarrow> keyspace \<Rightarrow> keyspace" where
  "indexed E t K = snd (cmd_sadd (project_tasks_key (project_name t)) (task_id t) (recorded E t K))"

lemma recorded_keys [simp]:
  "ks_keys (recorded E t K) = (ks_keys K)(task_key (task_id t) \<mapsto> RStr (enc E t))"
  by (simp add: recorded_def)

lemma recorded_members [simp]: "members (recorded E t K) p = members K p"
  by (simp add: members_def)

lemma recorded_holds:
  "hex32 i \<Longrightarrow> deployment E view \<Longrightarrow>
    holds E (recorded E t K) i u \<longleftrightarrow> (if i = task_id t then u = t else holds E K i u)"
  by (auto simp: holds_def deployment.enc_inject)

context deployment
begin

lemma save_upto_run:
  assumes "client_ready w" "projects_inv E (view (svc w))"
    and "ks_keys (view (svc w)) (task_key (task_id (heap w x))) = None"
  shows "view (svc (snd (save_upto n E x w))) =
     (if n = 0 then view (svc w)
      else if n = 1 then recorded E (heap w x) (view (svc w))
      else if n = 2 then indexed E (heap w x) (view (svc w))
      else saved E (heap w x) (view (svc w)))"
  using assms
  by (cases rule: project_key_cases [OF assms(2), of "project_name (heap w x)"];
      auto simp: save_upto_def sends_def py_simps cmd_set_put saved_def indexed_def recorded_def
        Let_def cmd_sadd_def)

lemma update_upto_run:
  assumes "client_ready w"
  shows "view (svc (snd (update_upto n E x w))) =
     (if n = 0 then view (svc w)
      else if n = 1 then recorded E (heap w x) (view (svc w))
      else updated E (heap w x) (view (svc w)))"
  using assms
  by (auto simp: update_upto_def sends_def py_simps cmd_set_put cmd_delete_def updated_def
      recorded_def Let_def)

text \<open>A record that no project set and no digest key names changes no lookup.\<close>

lemma recorded_new:
  assumes inv: "store_inv E K" and hex: "hex32 (task_id t)"
    and fresh: "ks_keys K (task_key (task_id t)) = None"
  shows "projects_inv E (recorded E t K)" "digests_inv E (recorded E t K)"
    "queue_inv E (recorded E t K)" "\<not> store_inv E (recorded E t K)"
    "duplicate E (recorded E t K) body u \<longleftrightarrow> duplicate E K body u"
proof -
  let ?K = "recorded E t K"
  have parts: "projects_inv E K" "digests_inv E K" "queue_inv E K"
    using inv by (simp_all add: store_inv_def)
  note holds = recorded_holds [OF _ deployment_axioms, of _ t K]
  have old: "i \<noteq> task_id t" if "holds E K i u" for i u using that fresh by (auto simp: holds_def)
  have carried: "carries E K ?K"
    unfolding carries_def using holds old same_identity_refl by metis
  show "projects_inv E ?K"
    by (rule projects_carried [OF parts(1) carried]) (use parts(1) in \<open>auto simp: projects_inv_def\<close>)
  show "queue_inv E ?K" by (rule queue_carried [OF parts(3) carried]) simp
  have "live_digest E ?K h v" if "live_digest E K h v" for h v
    using that holds old unfolding live_digest_def by metis
  moreover have "ks_keys ?K (digest_entry h) = ks_keys K (digest_entry h)" for h
    using hex by simp
  ultimately show "digests_inv E ?K" using parts(2) by (simp add: digests_inv_def)
  have mem: "i \<noteq> task_id t" if "i \<in> members K p" for i p
    using projects_inv_memberD [OF parts(1) that] old by blast
  have "holds E ?K (task_id t) t" by (simp add: holds_def)
  with mem records_invD [of E ?K "task_id t" t] hex show "\<not> store_inv E ?K" by auto
  have digest: "i \<noteq> task_id t" if "ks_keys K (digest_key E p r) = Some (RStr i)" for i p r
    using that parts(2) old unfolding digests_inv_def live_digest_def digest_key_def by fastforce
  have hex_member: "hex32 i" if "i \<in> members K p" for i p
    using projects_inv_memberD [OF parts(1) that] by blast
  have same: "holds E ?K i v \<longleftrightarrow> holds E K i v" if "i \<noteq> task_id t" for i v
    using that by (simp add: holds_def)
  have dkey: "ks_keys ?K (digest_key E p r) = ks_keys K (digest_key E p r)" for p r
    using hex by (simp add: digest_key_def)
  have m: "holds E ?K i v \<longleftrightarrow> holds E K i v" if "i \<in> members K p" for i v p
    using same [OF mem [OF that]] .
  have d: "(ks_keys K (digest_key E p r) = Some (RStr i) \<and> hex32 i \<and> holds E ?K i v)
      \<longleftrightarrow> (ks_keys K (digest_key E p r) = Some (RStr i) \<and> hex32 i \<and> holds E K i v)" for p r i v
    using same digest by blast
  show "duplicate E ?K body u \<longleftrightarrow> duplicate E K body u"
    unfolding duplicate_def dkey recorded_members d by (simp add: m)
qed

lemma indexed_inv:
  assumes inv: "store_inv E K" and hex: "hex32 (task_id t)"
    and fresh: "ks_keys K (task_key (task_id t)) = None"
  shows "store_inv E (indexed E t K)" "holds E (indexed E t K) (task_id t) t"
proof -
  let ?K = "indexed E t K" and ?R = "recorded E t K"
  note parts = recorded_new(1-3) [OF assms]
  obtain xs where xs: "set xs = insert (task_id t) (members K (project_name t))"
    "ks_keys ?K = (ks_keys ?R)(project_tasks_key (project_name t) \<mapsto> RSet xs)"
    using parts(1)
  proof (cases rule: project_key_cases [where p = "project_name t"])
    case absent
    with that [of "[task_id t]"] show thesis by (simp add: indexed_def cmd_sadd_def)
  next
    case (present ys)
    with that [of "List.insert (task_id t) ys"] show thesis by (simp add: indexed_def cmd_sadd_def)
  qed
  have same: "holds E ?K i u \<longleftrightarrow> holds E ?R i u" for i u using xs by (simp add: holds_def)
  then have carried: "carries E ?R ?K"
    unfolding carries_def using same_identity_refl by blast
  have mem: "members ?K p = (if p = project_name t then insert (task_id t) (members K p) else members K p)" for p
    using xs by (simp add: members_def)
  show new: "holds E ?K (task_id t) t" unfolding same by (simp add: holds_def)
  have "projects_inv E ?K"
    by (rule projects_carried [OF parts(1) carried])
      (use xs parts(1) mem new hex in \<open>auto simp: projects_inv_def split: if_splits\<close>)
  moreover have "queue_inv E ?K" by (rule queue_carried [OF parts(3) carried]) (simp add: xs)
  moreover have "digests_inv E ?K"
    using parts(2) unfolding digests_inv_def live_digest_def same by (simp add: xs)
  moreover have "records_inv E ?K"
    unfolding records_inv_def
  proof (intro allI impI)
    fix i assume i: "hex32 i" "ks_keys ?K (task_key i) \<noteq> None"
    show "\<exists>u. holds E ?K i u \<and> task_id u = i \<and> i \<in> members ?K (project_name u)"
    proof (cases "i = task_id t")
      case True
      with new mem show ?thesis by auto
    next
      case False
      with i inv xs obtain u where "holds E K i u" "task_id u = i" "i \<in> members K (project_name u)"
        by (auto simp: store_inv_def records_inv_def)
      with False mem show ?thesis unfolding same by (intro exI [of _ u]) (auto simp: holds_def)
    qed
  qed
  ultimately show "store_inv E ?K" by (simp add: store_inv_def)
qed

text \<open>A finished task written over its old state, before its digest key is deleted.\<close>

lemma recorded_finished:
  assumes w: "client_ready w" "view (svc w) = recorded E t K"
    and inv: "store_inv E K" and hex: "hex32 (task_id t)"
    and prev: "holds E K (task_id t) t'" and same: "same_identity t t'"
    and fin: "is_terminal t"
    and key: "ks_keys K (digest_key E (req_project_name body) (req_requirement body))
      = Some (RStr (task_id t))"
    and alone: "\<forall>i \<in> members K (req_project_name body). \<forall>u. holds E K i u \<longrightarrow>
      i \<noteq> task_id t \<longrightarrow> \<not> is_incomplete u"
  shows "fst (create_task E body w) = Inr (from_task t)"
    and "view (svc (snd (create_task E body w))) = view (svc w)"
    and "\<not> store_inv E (recorded E t K)"
proof -
  let ?K = "recorded E t K" and ?p = "req_project_name body" and ?r = "req_requirement body"
  let ?w1 = "snd (find_incomplete E ?p w)"
  let ?w2 = "?w1\<lparr>svc := snd (r_get (redis E) (digest_key E ?p ?r) (svc ?w1))\<rparr>"
  have proj: "projects_inv E K" using inv by (simp add: store_inv_def)
  note holds = recorded_holds [OF _ deployment_axioms, of _ t K]
  have is_prev: "u = t'" if "holds E K (task_id t) u" for u
    using that prev by (simp add: holds_def)
  have carried: "carries E K ?K"
    unfolding carries_def using holds is_prev same_identity_refl same_identity_sym [OF same] by metis
  have projK: "projects_inv E ?K"
    by (rule projects_carried [OF proj carried]) (use proj in \<open>auto simp: projects_inv_def\<close>)
  have hex_member: "hex32 i" if "i \<in> members K p" for i p
    using projects_inv_memberD [OF proj that] by blast
  have none: "\<not> is_incomplete u" if "i \<in> members ?K ?p" "holds E ?K i u" for i u
    using that fin alone holds [OF hex_member] by (auto simp: is_terminal_def is_incomplete_def split: if_splits)
  obtain f where f: "fst (find_incomplete E ?p w) = Inr f" "extends view w ?w1"
    and fr: "case f of
         None \<Rightarrow> \<forall>i \<in> members ?K ?p. \<forall>u. holds E ?K i u \<longrightarrow> \<not> is_incomplete u
       | Some x \<Rightarrow> next_obj w \<le> x \<and> is_incomplete (heap ?w1 x)
           \<and> (\<exists>i \<in> members ?K ?p. holds E ?K i (heap ?w1 x))"
    using find_incomplete_sets [OF w(1), of ?p] projK unfolding w(2) by blast
  have f_none: "f = None" using fr none by (cases f) auto
  have w2: "client_ready ?w2" "view (svc ?w2) = ?K"
    using extendsD(1,2) [OF f(2)] w by simp_all
  have h: "holds E (view (svc ?w2)) (task_id t) t" unfolding w2(2) by (simp add: holds_def)
  note got = store_get_run(1) [OF w2(1) h]
  have "ks_keys (view (svc ?w1)) (digest_key E ?p ?r) = Some (RStr (task_id t))"
    using key hex extendsD(1) [OF f(2)] w(2) by (simp add: digest_key_def)
  then have "find_by_digest E ?p ?r ?w1 = store_get E (task_id t) ?w2"
    using extendsD(2) [OF f(2)] w(1) by (simp add: find_by_digest_def py_simps cmd_get_def)
  then have run: "create_task E body w = (Inr (from_task t), snd (store_get E (task_id t) ?w2))"
    using f(1) f_none got by (simp add: create_task_def respond_def py_simps prod_eq_iff)
  then show "fst (create_task E body w) = Inr (from_task t)"
    "view (svc (snd (create_task E body w))) = view (svc w)"
    using got w(2) w2(2) by simp_all
  have "ks_keys ?K (digest_key E ?p ?r) = Some (RStr (task_id t))"
    using key hex by (simp add: digest_key_def)
  then have "\<not> digests_inv E ?K"
    using fin holds [OF hex] unfolding digests_inv_def live_digest_def digest_key_def by fastforce
  then show "\<not> store_inv E ?K" by (simp add: store_inv_def)
qed

text \<open>What recovery makes of the record: a pending task is queued, and stays out of its project's set; a
  finished one is skipped, and its digest key stays.\<close>

lemma recover_pending:
  assumes w: "client_ready w" and queue: "queue_inv E (view (svc w))"
    and t: "holds E (view (svc w)) i t" "status t = PENDING"
  shows "fst (recover_key E (task_key i) w) = Inr True"
    and "ks_keys (view (svc (snd (recover_key E (task_key i) w))))
      = (ks_keys (view (svc w)))(queue_key \<mapsto> RList (enc E t # queue_of (view (svc w))))"
proof -
  let ?x = "next_obj w"
  let ?w1 = "w\<lparr>svc := snd (r_get (redis E) (task_key i) (svc w)), heap := (heap w)(?x := t), next_obj := Suc ?x\<rparr>"
  have run: "recover_key E (task_key i) w = py_then (enqueue E ?x) (py_return True) ?w1"
    using t by (simp add: recover_key_def py_simps cmd_get_def holds_def is_terminal_def)
  have e: "fst (enqueue E ?x ?w1) = Inr ()"
    "view (svc (snd (enqueue E ?x ?w1))) = queued E t (view (svc w))"
    using enqueue_run [of ?w1 ?x] w queue by simp_all
  show "fst (recover_key E (task_key i) w) = Inr True"
    "ks_keys (view (svc (snd (recover_key E (task_key i) w))))
      = (ks_keys (view (svc w)))(queue_key \<mapsto> RList (enc E t # queue_of (view (svc w))))"
    using e by (simp_all add: run py_simps queued_keys)
qed

lemma recover_finished:
  assumes "client_ready w" "holds E (view (svc w)) i t" "is_terminal t"
  shows "fst (recover_key E (task_key i) w) = Inr False"
    and "view (svc (snd (recover_key E (task_key i) w))) = view (svc w)"
  using assms by (simp_all add: recover_key_def py_simps cmd_get_def holds_def)

end

section \<open>Properties\<close>

text \<open>C21: a save that is cut off. A process that dies in \<open>TaskStore.save\<close> of a new unfinished task leaves
  a consistent store, with the task unless not even its record was written, except between the first
  and the second command: then the task is stored and in no project set, no lookup of \<open>POST /tasks\<close>
  finds it, and a request for the same project and requirement is answered with a second task. Recovery
  queues the task and does not put it in the set.\<close>

theorem save_cut_off:
  assumes "deployment E view" "client_ready w" "store_inv E (view (svc w))"
    and "hex32 (task_id (heap w x))" "is_incomplete (heap w x)"
    and "ks_keys (view (svc w)) (task_key (task_id (heap w x))) = None"
    and "w' = snd (save_upto n E x w)"
  shows "(store_inv E (view (svc w')) \<longleftrightarrow> n \<noteq> 1)
    \<and> (holds E (view (svc w')) (task_id (heap w x)) (heap w x) \<longleftrightarrow> n \<noteq> 0)
    \<and> (\<forall>v body. n = 1 \<longrightarrow> client_ready v \<longrightarrow> view (svc v) = view (svc w') \<longrightarrow>
          ks_keys (view (svc v)) (task_key (uuid_at E (ticks v))) = None \<longrightarrow>
          (\<forall>u. \<not> duplicate E (view (svc w)) body u) \<longrightarrow>
          fst (create_task E body v) = Inr (from_task (created_task E (ticks v) body))
          \<and> holds E (view (svc (snd (create_task E body v)))) (task_id (heap w x)) (heap w x)
          \<and> holds E (view (svc (snd (create_task E body v)))) (uuid_at E (ticks v))
              (created_task E (ticks v) body))
    \<and> (\<forall>v. n = 1 \<longrightarrow> client_ready v \<longrightarrow> view (svc v) = view (svc w') \<longrightarrow> status (heap w x) = PENDING \<longrightarrow>
          fst (recover_key E (task_key (task_id (heap w x))) v) = Inr True
          \<and> (\<forall>p. members (view (svc (snd (recover_key E (task_key (task_id (heap w x))) v)))) p
                = members (view (svc w)) p))"
proof -
  let ?t = "heap w x" and ?K = "view (svc w)"
  note dep = deployment.recorded_new [OF assms(1,3,4,6)] deployment.indexed_inv [OF assms(1,3,4,6)]
  have proj: "projects_inv E ?K" using assms(3) by (simp add: store_inv_def)
  have live: "\<not> is_terminal ?t" using assms(5) by (auto simp: is_terminal_def is_incomplete_def)
  note left = deployment.save_upto_run [OF assms(1,2) proj assms(6), of n, folded assms(7)]
  have new: "holds E (saved E ?t ?K) (task_id ?t) ?t"
    using deployment.saved_holds(1) [OF assms(1) proj assms(4) assms(4)] by simp
  have "store_inv E (view (svc w')) \<longleftrightarrow> n \<noteq> 1"
    using left assms(3) dep(4,6) deployment.saved_inv [OF assms(1,3,4,6) live] by auto
  moreover have "holds E (view (svc w')) (task_id ?t) ?t \<longleftrightarrow> n \<noteq> 0"
    using left assms(6) dep(7) new by (auto simp: holds_def)
  moreover have "fst (create_task E body v) = Inr (from_task u)
      \<and> holds E (view (svc (snd (create_task E body v)))) (task_id ?t) ?t
      \<and> holds E (view (svc (snd (create_task E body v)))) (task_id u) u"
    if v: "n = 1" "client_ready v" "view (svc v) = view (svc w')"
      "ks_keys (view (svc v)) (task_key (uuid_at E (ticks v))) = None"
      "\<forall>u. \<not> duplicate E ?K body u" "u = created_task E (ticks v) body" for v body u
  proof -
    let ?R = "recorded E ?t ?K"
    have K: "view (svc v) = ?R" using left v(1,3) by simp
    have parts: "projects_inv E (view (svc v))" "digests_inv E (view (svc v))" "queue_inv E (view (svc v))"
      using dep(1-3) by (simp_all add: K)
    have hex: "hex32 (task_id u)" using v(6) deployment.uuid_hex [OF assms(1)] by simp
    have ne: "task_id u \<noteq> task_id ?t" using v(4,6) unfolding K by auto
    have both: "holds E (queued E u (saved E u ?R)) (task_id ?t) ?t"
      "holds E (queued E u (saved E u ?R)) (task_id u) u"
      using deployment.saved_holds(1) [OF assms(1) dep(1) hex] hex assms(4) ne
      by (simp_all add: deployment.queued_holds [OF assms(1)]) (simp add: holds_def)
    from deployment.create_task_paths [OF assms(1) v(2) parts v(4), of body] show ?thesis
      by cases (use v(5,6) dep(5) both K in auto)
  qed
  moreover have "fst (recover_key E (task_key (task_id ?t)) v) = Inr True
      \<and> members (view (svc (snd (recover_key E (task_key (task_id ?t)) v)))) p = members ?K p"
    if v: "n = 1" "client_ready v" "view (svc v) = view (svc w')" "status ?t = PENDING" for v p
  proof -
    have K: "view (svc v) = recorded E ?t ?K" using left v(1,3) by simp
    have "queue_inv E (view (svc v))" "holds E (view (svc v)) (task_id ?t) ?t"
      using dep(3) by (simp_all add: K holds_def)
    from deployment.recover_pending [OF assms(1) v(2) this v(4)] show ?thesis
      by (simp add: members_def K)
  qed
  ultimately show ?thesis by simp
qed

theorem save_cut_off_witness:
  "\<not> store_inv mem_env (mem_view (svc (snd (save_upto 1 mem_env 0 start_world))))
    \<and> fst (create_task mem_env demo_request (snd (save_upto 1 mem_env 0 start_world)\<lparr>ticks := 1\<rparr>))
        = Inr (from_task (created_task mem_env 1 demo_request))"
proof -
  let ?w = "snd (save_upto 1 mem_env 0 start_world)"
  have new: "hex_of 32 1 \<noteq> hex_of 32 0" by code_simp
  have "mem_view (svc ?w) = recorded mem_env no_task (mem_view (svc start_world))"
    using memory.save_upto_run [of start_world 0 1] by (simp add: projects_inv_def members_def)
  then have "ks_keys (mem_view (svc ?w)) (task_key (uuid_at mem_env 1)) = None"
    using new by (simp add: mem_env_def no_task_def)
  moreover have "is_incomplete no_task" by (simp add: is_incomplete_def)
  ultimately show ?thesis
    using save_cut_off [OF memory.deployment_axioms start_world_simps(1) start_world_inv,
        of 0 ?w 1] start_world_no_duplicate
    by simp
qed

text \<open>C22: an update that is cut off. A process that dies in \<open>TaskStore.async_update\<close> of a task that it
  finishes leaves a consistent store, except between the two commands: then the digest key names the
  finished task, and as long as the store stays so every request for its digest, in a project with no
  other unfinished task, is answered with the finished task and changes nothing; recovery skips it.\<close>

theorem update_cut_off:
  assumes "deployment E view" "client_ready w" "store_inv E (view (svc w))"
    and "hex32 (task_id (heap w x))" "holds E (view (svc w)) (task_id (heap w x)) t"
    and "same_identity (heap w x) t" "is_terminal (heap w x)"
    and "ks_keys (view (svc w)) (digest_key E (req_project_name body) (req_requirement body))
      = Some (RStr (task_id (heap w x)))"
    and "\<forall>i \<in> members (view (svc w)) (req_project_name body). \<forall>u. holds E (view (svc w)) i u \<longrightarrow>
      i \<noteq> task_id (heap w x) \<longrightarrow> \<not> is_incomplete u"
    and "w' = snd (update_upto n E x w)"
  shows "(store_inv E (view (svc w')) \<longleftrightarrow> n \<noteq> 1)
    \<and> (\<forall>v. n = 1 \<longrightarrow> client_ready v \<longrightarrow> view (svc v) = view (svc w') \<longrightarrow>
         fst (create_task E body v) = Inr (from_task (heap w x))
         \<and> view (svc (snd (create_task E body v))) = view (svc v)
         \<and> fst (recover_key E (task_key (task_id (heap w x))) v) = Inr False
         \<and> view (svc (snd (recover_key E (task_key (task_id (heap w x))) v))) = view (svc v))"
proof -
  note left = deployment.update_upto_run [OF assms(1,2), of n x, folded assms(10)]
  note finished = deployment.recorded_finished [OF assms(1) _ _ assms(3-9)]
  have "store_inv E (view (svc w')) \<longleftrightarrow> n \<noteq> 1"
  proof (cases "n = 1")
    case True
    with left finished(3) [of "w'"] assms(2,10) show ?thesis by simp
  next
    case False
    with left assms(3) deployment.updated_inv [OF assms(1,3-6)] show ?thesis by auto
  qed
  moreover have "fst (recover_key E (task_key (task_id (heap w x))) v) = Inr False
      \<and> view (svc (snd (recover_key E (task_key (task_id (heap w x))) v))) = view (svc v)"
    if "n = 1" "client_ready v" "view (svc v) = view (svc w')" for v
    using deployment.recover_finished [OF assms(1) that(2) _ assms(7)] left that
    by (simp add: holds_def)
  ultimately show ?thesis using left finished(1,2) by auto
qed

theorem update_cut_off_witness:
  "\<exists>t v. is_terminal t
    \<and> v = snd (update_upto 1 mem_env 0 (saved_world\<lparr>heap := (\<lambda>_. t)\<rparr>))
    \<and> \<not> store_inv mem_env (mem_view (svc v))
    \<and> fst (create_task mem_env demo_request v) = Inr (from_task t)"
proof -
  let ?t = "no_task\<lparr>status := SUCCESS\<rparr>"
  let ?w = "saved_world\<lparr>heap := (\<lambda>_. ?t)\<rparr>"
  have fin: "is_terminal ?t" by (simp add: is_terminal_def)
  have same: "same_identity ?t no_task" by (simp add: same_identity_def)
  have mem: "members (mem_view (svc saved_world)) ''demo'' = {task_id no_task}"
    by (simp add: members_def saved_world_keys)
  have key: "ks_keys (mem_view (svc saved_world)) (digest_key mem_env ''demo'' ''build'')
      = Some (RStr (task_id no_task))"
    by (simp add: saved_world_keys)
  let ?v = "snd (update_upto 1 mem_env 0 ?w)"
  have ready: "client_ready ?v" by simp
  have "\<not> store_inv mem_env (mem_view (svc ?v))
      \<and> fst (create_task mem_env demo_request ?v) = Inr (from_task ?t)"
    using update_cut_off [OF memory.deployment_axioms, of ?w 0 no_task demo_request ?v 1]
      saved_world_inv saved_world_holds fin same mem key ready
    by (simp add: demo_request_def)
  with fin show ?thesis by blast
qed

end
