(* ===== verification/Commands.thy ===== *)
theory Commands
  imports Crash_Points
begin

text \<open>
  The operations of the store and the queue (\<open>src/task_queue/store.py\<close>, \<open>queue.py\<close>) as the commands they
  send to Redis, and any number of clients whose commands interleave one by one: requests that post
  tasks, workers that update and queue them, scheduled updates, and recovery. Theory \<open>Settling\<close> has what
  every interleaving keeps.
\<close>

section \<open>Operations as commands\<close>

datatype command =
    NewRecord task
  | AddMember task
  | PutDigest task
  | PutRecord task
  | DropDigest task
  | Push task

fun send :: "'r env \<Rightarrow> command \<Rightarrow> ('r, unit) py" where
  "send E (NewRecord t) =
     py_bind (r_set (redis E) (task_key (task_id t)) (enc E t) True None) (\<lambda>set_result.
       if set_result then py_return () else py_raise (task_exists (task_id t)))"
| "send E (AddMember t) =
     py_then (r_sadd (redis E) (project_tasks_key (project_name t)) (task_id t)) (py_return ())"
| "send E (PutDigest t) =
     py_then (r_set (redis E) (digest_key E (project_name t) (requirement t)) (task_id t) False None)
       (py_return ())"
| "send E (PutRecord t) =
     py_then (r_set (redis E) (task_key (task_id t)) (enc E t) False None) (py_return ())"
| "send E (DropDigest t) =
     py_then (r_delete (redis E) (digest_key E (project_name t) (requirement t))) (py_return ())"
| "send E (Push t) = py_then (r_lpush (redis E) queue_key (enc E t)) (py_return ())"

definition save_commands :: "task \<Rightarrow> command list" where
  "save_commands t =
     NewRecord t # AddMember t # (if requirement t \<noteq> [] then [PutDigest t] else [])"

definition update_commands :: "task \<Rightarrow> command list" where
  "update_commands t =
     PutRecord t # (if is_terminal t \<and> requirement t \<noteq> [] then [DropDigest t] else [])"

text \<open>The commands are what the operations send, all of them or the first \<open>n\<close>.\<close>

definition sending :: "'r env \<Rightarrow> command list \<Rightarrow> ('r, unit) prog" where
  "sending E ks = py_then get_redis (on_redis (py_for (send E) ks))"

lemma on_redis_stmts:
  "on_redis (py_bind m f) = py_bind (on_redis m) (\<lambda>a. on_redis (f a))"
  "on_redis (py_then m k) = py_then (on_redis m) (on_redis k)"
  "on_redis (py_return a) = py_return a" "on_redis (py_raise e) = py_raise e"
  "on_redis (if b then m else k) = (if b then on_redis m else on_redis k)"
  by (rule ext; simp add: py_simps split: sum.split)+

context deployment
begin

lemma save_upto_commands:
  "save_upto n E x w = sending E (take n (save_commands (heap w x))) w"
proof -
  consider "n = 0" | "n = Suc 0" | "n = Suc (Suc 0)" | m where "n = Suc (Suc (Suc m))"
    by (metis not0_implies_Suc)
  then show ?thesis
    by cases (cases "requirement (heap w x) \<noteq> []"; simp add: save_upto_def sends_def sending_def save_commands_def on_redis_stmts
        py_simps split: sum.split)+
qed

lemma update_upto_commands:
  "update_upto n E x w = sending E (take n (update_commands (heap w x))) w"
proof -
  consider "n = 0" | "n = Suc 0" | m where "n = Suc (Suc m)"
    by (metis not0_implies_Suc)
  then show ?thesis
    by cases (cases "is_terminal (heap w x) \<and> requirement (heap w x) \<noteq> []";
        simp add: update_upto_def sends_def sending_def update_commands_def on_redis_stmts
          py_simps split: sum.split; auto)+
qed

lemma operation_commands:
  "store_save E x w = sending E (save_commands (heap w x)) w"
  "async_update E x w = sending E (update_commands (heap w x)) w"
  "enqueue E x w = sending E [Push (heap w x)] w"
proof -
  have "length (save_commands t) \<le> 3" "length (update_commands t) \<le> 2" for t
    by (simp_all add: save_commands_def update_commands_def)
  then show "store_save E x w = sending E (save_commands (heap w x)) w"
    "async_update E x w = sending E (update_commands (heap w x)) w"
    using save_upto_commands [of 3 x w] update_upto_commands [of 2 x w]
      save_upto_all [of 3 E x] update_upto_all [of 2 E x]
    by simp_all
  show "enqueue E x w = sending E [Push (heap w x)] w"
    by (simp add: enqueue_def sending_def on_redis_stmts py_simps split: sum.split)
qed

end

section \<open>The effect of a command\<close>

fun effect :: "'r env \<Rightarrow> command \<Rightarrow> keyspace \<Rightarrow> keyspace" where
  "effect E (NewRecord t) K =
     (if ks_keys K (task_key (task_id t)) = None then recorded E t K else K)"
| "effect E (AddMember t) K = snd (cmd_sadd (project_tasks_key (project_name t)) (task_id t) K)"
| "effect E (PutDigest t) K =
     ks_put (digest_key E (project_name t) (requirement t)) (RStr (task_id t)) K"
| "effect E (PutRecord t) K = recorded E t K"
| "effect E (DropDigest t) K = ks_remove (digest_key E (project_name t) (requirement t)) K"
| "effect E (Push t) K = snd (cmd_lpush queue_key (enc E t) K)"

context deployment
begin

lemma send_view [simp]: "view (snd (send E k r)) = effect E k (view r)"
  by (cases k) (simp_all add: py_stmts cmd_set_put cmd_delete_def recorded_def split: sum.split)

lemma send_new [simp]:
  "fst (send E (NewRecord t) r) =
     (if ks_keys (view r) (task_key (task_id t)) = None then Inr () else Inl (task_exists (task_id t)))"
  by (simp add: py_stmts cmd_set_put)

lemma send_answers:
  assumes "projects_inv E (view r)" "queue_inv E (view r)" "\<And>t. k \<noteq> NewRecord t"
  shows "fst (send E k r) = Inr ()"
proof (cases k)
  case (AddMember t)
  show ?thesis
    using assms(1)
    by (cases rule: project_key_cases [where p = "project_name t"])
      (simp_all add: AddMember py_stmts cmd_sadd_def)
next
  case (Push t)
  show ?thesis
    using assms(2) by (cases rule: queue_key_cases) (simp_all add: Push py_stmts cmd_lpush_def)
qed (use assms(3) in \<open>simp_all add: py_stmts cmd_set_put cmd_delete_def\<close>)

end

lemma member_keys:
  assumes "projects_inv E K"
  obtains xs where "set xs = insert (task_id t) (members K (project_name t))"
    "ks_keys (effect E (AddMember t) K) = (ks_keys K)(project_tasks_key (project_name t) \<mapsto> RSet xs)"
  using assms
proof (cases rule: project_key_cases [where p = "project_name t"])
  case absent
  with that [of "[task_id t]"] show thesis by (simp add: cmd_sadd_def)
next
  case (present ys)
  with that [of "List.insert (task_id t) ys"] show thesis by (simp add: cmd_sadd_def)
qed

lemma push_keys:
  assumes "queue_inv E K"
  shows "ks_keys (effect E (Push t) K) = (ks_keys K)(queue_key \<mapsto> RList (enc E t # queue_of K))"
  using assms by (cases rule: queue_key_cases) (simp_all add: cmd_lpush_def)

declare effect.simps(2,6) [simp del]
declare send.simps [simp del]

section \<open>Clients\<close>

text \<open>A client is free, posts a new task (its commands are those of \<open>save\<close> and then of \<open>enqueue\<close>), or
  has a task that it took off the queue or found stored. What it still has to send of its present
  operation is a list of commands.\<close>

datatype client =
    Free
  | Posts task "command list"
  | Runs task "command list"

definition post_commands :: "task \<Rightarrow> command list" where
  "post_commands t = save_commands t @ [Push t]"

fun todo :: "client \<Rightarrow> command list" where
  "todo Free = []"
| "todo (Posts t ks) = ks"
| "todo (Runs t ks) = ks"

fun with_todo :: "command list \<Rightarrow> client \<Rightarrow> client" where
  "with_todo ks Free = Free"
| "with_todo ks (Posts t ks') = Posts t ks"
| "with_todo ks (Runs t ks') = Runs t ks"

text \<open>An operation on a task at hand, in a state \<open>t\<close> of it. While an update writes the record, the worker
  may finish the object, which \<open>async_update\<close> asks for only then.\<close>

definition operations :: "task \<Rightarrow> command list set" where
  "operations t =
     {update_commands t, [Push t]}
     \<union> (if requirement t \<noteq> [] then {[PutRecord t, DropDigest t]} else {})"

record 'r wire =
  wr_server :: 'r
  wr_client :: "nat \<Rightarrow> client"

inductive wire_step :: "'r env \<Rightarrow> 'r wire \<Rightarrow> 'r wire \<Rightarrow> bool" for E :: "'r env" where
  post: "wr_client s c = Free \<Longrightarrow> hex32 (task_id t) \<Longrightarrow> is_incomplete t \<Longrightarrow>
     wire_step E s (s\<lparr>wr_client := (wr_client s)(c := Posts t (post_commands t))\<rparr>)"
| command: "todo (wr_client s c) = k # ks \<Longrightarrow> send E k (wr_server s) = (r, v) \<Longrightarrow>
     wire_step E s
       (s\<lparr>wr_server := v,
         wr_client := (wr_client s)(c := (case r of
           Inl e \<Rightarrow> Free | Inr u \<Rightarrow> with_todo ks (wr_client s c)))\<rparr>)"
| finish: "todo (wr_client s c) = [] \<Longrightarrow>
     wire_step E s (s\<lparr>wr_client := (wr_client s)(c := Free)\<rparr>)"
| take: "wr_client s c = Free \<Longrightarrow>
     r_brpop (redis E) queue_key n (wr_server s) = (Inr (Some (k, enc E t)), v) \<Longrightarrow>
     wire_step E s (s\<lparr>wr_server := v, wr_client := (wr_client s)(c := Runs t [])\<rparr>)"
| operate: "wr_client s c = Runs t [] \<Longrightarrow> same_identity t t' \<Longrightarrow> ks \<in> operations t' \<Longrightarrow>
     wire_step E s (s\<lparr>wr_client := (wr_client s)(c := Runs t' ks)\<rparr>)"
| schedule: "wr_client s c = Runs t ks \<Longrightarrow> same_identity t t' \<Longrightarrow> wr_client s d = Free \<Longrightarrow>
     wire_step E s (s\<lparr>wr_client := (wr_client s)(d := Runs t' [])\<rparr>)"
| recover: "wr_client s c = Free \<Longrightarrow> (\<forall>d t ks. wr_client s d \<noteq> Posts t ks) \<Longrightarrow> hex32 i \<Longrightarrow>
     r_get (redis E) (task_key i) (wr_server s) = (Inr (Some (enc E t)), v) \<Longrightarrow>
     wire_step E s (s\<lparr>wr_server := v, wr_client := (wr_client s)(c := Runs t [])\<rparr>)"

inductive wire_run :: "'r env \<Rightarrow> 'r wire \<Rightarrow> 'r wire \<Rightarrow> bool" for E :: "'r env" where
  here: "wire_run E s s"
| more: "wire_run E s t \<Longrightarrow> wire_step E t u \<Longrightarrow> wire_run E s u"

end
