(* ===== verification/Settling.thy ===== *)
theory Settling
  imports Commands
begin

text \<open>
  What every interleaving of the commands of theory \<open>Commands\<close> keeps: an invariant that is weaker than
  that of theory \<open>Store_Invariant\<close> by what clients are about to send, and equal to it when no client is
  inside an operation; that nothing stored is lost; and that lookups answer at every moment.
\<close>

section \<open>The invariant between commands\<close>

text \<open>The task a client has made a record for and still works on.\<close>

fun owned :: "client \<Rightarrow> task option" where
  "owned (Posts t ks) = (if ks = [] \<or> NewRecord t \<in> set ks then None else Some t)"
| "owned _ = None"

text \<open>An id that is in the queue, or that a client other than \<open>c\<close> has.\<close>

definition busy :: "'r env \<Rightarrow> keyspace \<Rightarrow> (nat \<Rightarrow> client) \<Rightarrow> nat \<Rightarrow> string \<Rightarrow> bool" where
  "busy E K f c i =
     ((\<exists>t. enc E t \<in> set (queue_of K) \<and> task_id t = i)
      \<or> (\<exists>d t ks. f d = Runs t ks \<and> task_id t = i)
      \<or> (\<exists>d t. d \<noteq> c \<and> owned (f d) = Some t \<and> task_id t = i))"

text \<open>What a client may still have to send.\<close>

definition left_of :: "client \<Rightarrow> bool" where
  "left_of cl =
     (case cl of
        Free \<Rightarrow> True
      | Posts t ks \<Rightarrow> hex32 (task_id t) \<and> is_incomplete t \<and> (\<exists>n. ks = drop n (post_commands t))
      | Runs t ks \<Rightarrow> hex32 (task_id t) \<and> (\<exists>n. \<exists>op \<in> operations t. ks = drop n op))"

definition client_ok :: "'r env \<Rightarrow> keyspace \<Rightarrow> (nat \<Rightarrow> client) \<Rightarrow> nat \<Rightarrow> bool" where
  "client_ok E K f c =
     (left_of (f c)
      \<and> (\<forall>t. owned (f c) = Some t \<longrightarrow> holds E K (task_id t) t \<and> \<not> busy E K f c (task_id t))
      \<and> (\<forall>t ks. f c = Runs t ks \<longrightarrow> (\<exists>u. holds E K (task_id t) u \<and> same_identity u t)))"

text \<open>A record may not be in its project's set yet, and a digest key may still name a finished task; then
  a client is about to add or to delete it.\<close>

definition adds :: "(nat \<Rightarrow> client) \<Rightarrow> string \<Rightarrow> string \<Rightarrow> bool" where
  "adds f i p =
     (\<exists>c t. owned (f c) = Some t \<and> AddMember t \<in> set (todo (f c)) \<and> task_id t = i \<and> project_name t = p)"

definition wire_records :: "'r env \<Rightarrow> keyspace \<Rightarrow> (nat \<Rightarrow> client) \<Rightarrow> bool" where
  "wire_records E K f =
     (\<forall>i. hex32 i \<longrightarrow> ks_keys K (task_key i) \<noteq> None \<longrightarrow>
        (\<exists>t. holds E K i t \<and> task_id t = i
           \<and> (i \<in> members K (project_name t) \<or> adds f i (project_name t))))"

definition drops :: "'r env \<Rightarrow> (nat \<Rightarrow> client) \<Rightarrow> string \<Rightarrow> bool" where
  "drops E f h =
     (\<exists>c t. DropDigest t \<in> set (todo (f c)) \<and> h = digest_of E (project_name t) (requirement t))"

definition named :: "'r env \<Rightarrow> keyspace \<Rightarrow> (nat \<Rightarrow> client) \<Rightarrow> string \<Rightarrow> rval \<Rightarrow> bool" where
  "named E K f h v =
     (\<exists>i t. v = RStr i \<and> hex32 i \<and> holds E K i t \<and> requirement t \<noteq> []
        \<and> h = digest_of E (project_name t) (requirement t) \<and> (is_terminal t \<longrightarrow> drops E f h))"

definition wire_digests :: "'r env \<Rightarrow> keyspace \<Rightarrow> (nat \<Rightarrow> client) \<Rightarrow> bool" where
  "wire_digests E K f = (\<forall>h v. ks_keys K (digest_entry h) = Some v \<longrightarrow> named E K f h v)"

definition wire_inv :: "'r env \<Rightarrow> keyspace \<Rightarrow> (nat \<Rightarrow> client) \<Rightarrow> bool" where
  "wire_inv E K f =
     (wire_records E K f \<and> projects_inv E K \<and> wire_digests E K f \<and> queue_inv E K
      \<and> (\<forall>c. client_ok E K f c))"

text \<open>Nothing stored is lost, at most written again in a later state, and no member leaves its set.\<close>

definition outlasts :: "'r env \<Rightarrow> keyspace \<Rightarrow> keyspace \<Rightarrow> bool" where
  "outlasts E K K' = (carries E K K' \<and> (\<forall>p. members K p \<subseteq> members K' p))"

lemma wire_invD:
  assumes "wire_inv E K f"
  shows "wire_records E K f" "projects_inv E K" "wire_digests E K f" "queue_inv E K" "client_ok E K f c"
  using assms by (simp_all add: wire_inv_def)

lemma client_okD:
  assumes "client_ok E K f c"
  shows "left_of (f c)"
    and "owned (f c) = Some t \<Longrightarrow> holds E K (task_id t) t \<and> \<not> busy E K f c (task_id t)"
    and "f c = Runs t ks \<Longrightarrow> \<exists>u. holds E K (task_id t) u \<and> same_identity u t"
  using assms unfolding client_ok_def by blast+

lemma owned_hex: "left_of cl \<Longrightarrow> owned cl = Some t \<Longrightarrow> hex32 (task_id t)"
  by (cases cl) (auto simp: left_of_def split: if_splits)

text \<open>Nobody else has what a client owns.\<close>

lemma owned_apart:
  assumes "wire_inv E K f" "owned (f d) = Some t" "d \<noteq> c"
  shows "f c = Runs u ks \<Longrightarrow> task_id u \<noteq> task_id t" "owned (f c) = Some u \<Longrightarrow> task_id u \<noteq> task_id t"
  using client_okD(2) [OF wire_invD(5) [OF assms(1)] assms(2)] assms(3) unfolding busy_def by metis+

section \<open>What a step has to show\<close>

lemma carries_same:
  "(\<And>i. hex32 i \<Longrightarrow> ks_keys K' (task_key i) = ks_keys K (task_key i)) \<Longrightarrow> carries E K K'"
  unfolding carries_def holds_def using same_identity_refl by metis

lemma drops_upd:
  assumes "drops E f h"
    and "\<And>t. DropDigest t \<in> set (todo (f c)) \<Longrightarrow> h = digest_of E (project_name t) (requirement t) \<Longrightarrow>
      DropDigest t \<in> set (todo cl)"
  shows "drops E (f(c := cl)) h"
proof -
  obtain d t where d: "DropDigest t \<in> set (todo (f d))" "h = digest_of E (project_name t) (requirement t)"
    using assms(1) unfolding drops_def by blast
  then have "DropDigest t \<in> set (todo ((f(c := cl)) d))" using assms(2) by auto
  with d(2) show ?thesis unfolding drops_def by blast
qed

lemma named_mono:
  assumes "named E K f h v" "\<And>i t. hex32 i \<Longrightarrow> holds E K i t \<Longrightarrow> holds E K' i t"
    and "drops E f h \<Longrightarrow> drops E f' h"
  shows "named E K' f' h v"
  using assms unfolding named_def by blast

lemma wire_records_upd:
  assumes "wire_records E K f" "carries E K K'" "\<And>p. members K p \<subseteq> members K' p"
    and new: "\<And>i. hex32 i \<Longrightarrow> ks_keys K' (task_key i) \<noteq> None \<Longrightarrow> ks_keys K (task_key i) = None \<Longrightarrow>
      \<exists>t. holds E K' i t \<and> task_id t = i \<and> adds (f(c := cl)) i (project_name t)"
    and adds: "\<And>t. owned (f c) = Some t \<Longrightarrow> AddMember t \<in> set (todo (f c)) \<Longrightarrow>
      task_id t \<in> members K' (project_name t)
      \<or> owned cl = Some t \<and> AddMember t \<in> set (todo cl)"
  shows "wire_records E K' (f(c := cl))"
  unfolding wire_records_def
proof (intro allI impI)
  fix i assume i: "hex32 i" "ks_keys K' (task_key i) \<noteq> None"
  show "\<exists>t. holds E K' i t \<and> task_id t = i
      \<and> (i \<in> members K' (project_name t) \<or> adds (f(c := cl)) i (project_name t))"
  proof (cases "ks_keys K (task_key i)")
    case None
    with new i show ?thesis by blast
  next
    case (Some v)
    with assms(1) i(1) obtain t where t: "holds E K i t" "task_id t = i"
      "i \<in> members K (project_name t) \<or> adds f i (project_name t)"
      by (auto simp: wire_records_def)
    obtain t' where t': "holds E K' i t'" "same_identity t t'"
      using carriesD [OF assms(2) i(1) t(1)] by blast
    then have same: "task_id t' = i" "project_name t' = project_name t"
      using t(2) by (auto simp: same_identity_def)
    have "i \<in> members K' (project_name t) \<or> adds (f(c := cl)) i (project_name t)"
      using t(3)
    proof
      assume "adds f i (project_name t)"
      then obtain d u where d: "owned (f d) = Some u" "AddMember u \<in> set (todo (f d))"
        "task_id u = i" "project_name u = project_name t"
        unfolding adds_def by blast
      show ?thesis
      proof (cases "d = c")
        case True
        with d adds [of u] show ?thesis unfolding adds_def by (metis fun_upd_same)
      next
        case False
        with d have "owned ((f(c := cl)) d) = Some u" "AddMember u \<in> set (todo ((f(c := cl)) d))"
          by simp_all
        with d(3,4) show ?thesis unfolding adds_def by blast
      qed
    qed (use assms(3) in blast)
    with t'(1) same show ?thesis by (intro exI [of _ t']) simp
  qed
qed

lemma wire_inv_upd:
  assumes inv: "wire_inv E K f" and carried: "carries E K K'"
    and parts: "wire_records E K' (f(c := cl))" "projects_inv E K'" "wire_digests E K' (f(c := cl))"
      "queue_inv E K'" "client_ok E K' (f(c := cl)) c"
    and own: "\<And>d t. d \<noteq> c \<Longrightarrow> owned (f d) = Some t \<Longrightarrow> holds E K (task_id t) t \<Longrightarrow>
      holds E K' (task_id t) t"
    and queue: "\<And>d t u. d \<noteq> c \<Longrightarrow> owned (f d) = Some t \<Longrightarrow> enc E u \<in> set (queue_of K') \<Longrightarrow>
      enc E u \<in> set (queue_of K) \<or> task_id u \<noteq> task_id t"
    and apart: "\<And>d t u ks. d \<noteq> c \<Longrightarrow> owned (f d) = Some t \<Longrightarrow>
      cl = Runs u ks \<or> owned cl = Some u \<Longrightarrow> task_id u \<noteq> task_id t"
  shows "wire_inv E K' (f(c := cl))"
proof -
  have "client_ok E K' (f(c := cl)) d" if d: "d \<noteq> c" for d
  proof -
    note ok = wire_invD(5) [OF inv, of d]
    have "holds E K' (task_id t) t \<and> \<not> busy E K' (f(c := cl)) d (task_id t)"
      if t: "owned (f d) = Some t" for t
    proof -
      have old: "holds E K (task_id t) t" "\<not> busy E K f d (task_id t)"
        using client_okD(2) [OF ok t] by blast+
      have "\<not> busy E K' (f(c := cl)) d (task_id t)"
        using old(2) queue [OF d t] apart [OF d t] unfolding busy_def by (auto split: if_splits)
      with own [OF d t old(1)] show ?thesis by blast
    qed
    moreover have "\<exists>u. holds E K' (task_id t) u \<and> same_identity u t" if t: "f d = Runs t ks" for t ks
    proof -
      have "hex32 (task_id t)" using client_okD(1) [OF ok] t by (simp add: left_of_def)
      then show ?thesis
        using client_okD(3) [OF ok t] carriesD [OF carried] same_identity_sym same_identity_trans
        by blast
    qed
    ultimately show ?thesis using d client_okD(1) [OF ok] by (simp add: client_ok_def)
  qed
  with parts show ?thesis unfolding wire_inv_def by metis
qed

lemma drop_tail: "k # ks = drop n xs \<Longrightarrow> ks = drop (Suc n) xs"
  by (metis drop_Suc list.sel(3) tl_drop)

lemma posts_cases:
  assumes "left_of (Posts t (k # ks))"
  obtains (new) "k = NewRecord t" "ks = tl (post_commands t)"
  | (member) "k = AddMember t" "ks = (if requirement t \<noteq> [] then [PutDigest t] else []) @ [Push t]"
  | (digest) "k = PutDigest t" "ks = [Push t]" "requirement t \<noteq> []"
  | (push) "k = Push t" "ks = []"
proof -
  obtain n where n: "k # ks = drop n (post_commands t)" using assms by (auto simp: left_of_def)
  consider "n = 0" | "n = Suc 0" | "n = Suc (Suc 0)" | "n = Suc (Suc (Suc 0))"
    | m where "n = Suc (Suc (Suc (Suc m)))"
    by (metis not0_implies_Suc)
  then show thesis
    by cases (use n that in \<open>auto simp: post_commands_def save_commands_def split: if_splits\<close>)
qed

lemma runs_cases:
  assumes "left_of (Runs t (k # ks))"
  obtains (put) "k = PutRecord t" "ks = [] \<or> ks = [DropDigest t]"
      "is_terminal t \<Longrightarrow> requirement t \<noteq> [] \<Longrightarrow> ks = [DropDigest t]"
  | (drop) "k = DropDigest t" "ks = []"
  | (push) "k = Push t" "ks = []"
proof -
  obtain n ops where n: "k # ks = drop n ops" "ops \<in> operations t" using assms by (auto simp: left_of_def)
  consider "n = 0" | "n = Suc 0" | m where "n = Suc (Suc m)" by (metis not0_implies_Suc)
  then show thesis
    by cases (use n that in \<open>auto simp: operations_def update_commands_def split: if_splits\<close>)
qed

text \<open>The rest of an operation is one.\<close>

lemma left_of_rest: "left_of cl \<Longrightarrow> todo cl = k # ks \<Longrightarrow> left_of (with_todo ks cl)"
  by (cases cl) (auto simp: left_of_def dest: drop_tail)

section \<open>Every step keeps the invariant\<close>

text \<open>A client begins or ends an operation.\<close>

lemma wire_inv_turn:
  assumes inv: "wire_inv E K f" and before: "owned (f c) = None" "\<And>t. DropDigest t \<notin> set (todo (f c))"
    and after: "left_of cl" "owned cl = None"
    and runs: "\<And>t ks. cl = Runs t ks \<Longrightarrow> (\<exists>u. holds E K (task_id t) u \<and> same_identity u t)
      \<and> (\<forall>d u. d \<noteq> c \<longrightarrow> owned (f d) = Some u \<longrightarrow> task_id t \<noteq> task_id u)"
  shows "wire_inv E K (f(c := cl))"
proof (rule wire_inv_upd [OF inv])
  note parts = wire_invD [OF inv]
  show carried: "carries E K K" by (rule carries_same) simp
  show "wire_records E K (f(c := cl))"
    by (rule wire_records_upd [OF parts(1) carried]) (simp_all add: before)
  have "named E K (f(c := cl)) h v" if "named E K f h v" for h v
    using that by (rule named_mono) (use before drops_upd in blast)+
  then show "wire_digests E K (f(c := cl))" using parts(3) by (simp add: wire_digests_def)
  show "client_ok E K (f(c := cl)) c" using after runs unfolding client_ok_def by auto
  show "projects_inv E K" "queue_inv E K" by (rule parts(2), rule parts(4))
qed (use runs after in auto)

text \<open>The commands of a post.\<close>

lemma queued_held: "queue_inv E K \<Longrightarrow> deployment E view \<Longrightarrow> enc E t \<in> set (queue_of K) \<Longrightarrow>
    hex32 (task_id t) \<and> (\<exists>u. holds E K (task_id t) u \<and> same_identity t u)"
  unfolding queue_inv_def snapshot_def using deployment.enc_inject by metis

context deployment
begin

lemma wire_new:
  assumes inv: "wire_inv E K f" and c: "f c = Posts t (NewRecord t # ks)"
    and ks: "left_of (f c)" "ks = tl (post_commands t)" and fresh: "ks_keys K (task_key (task_id t)) = None"
  shows "wire_inv E (recorded E t K) (f(c := Posts t ks))"
proof (rule wire_inv_upd [OF inv])
  let ?K = "recorded E t K" and ?f = "f(c := Posts t ks)"
  note parts = wire_invD [OF inv]
  have hex: "hex32 (task_id t)" "is_incomplete t" using ks(1) c by (simp_all add: left_of_def)
  have keep: "holds E ?K i u" if "holds E K i u" for i u
    using that fresh by (auto simp: holds_def)
  show carried: "carries E K ?K" unfolding carries_def using keep same_identity_refl by blast
  have new: "holds E ?K (task_id t) t" by (simp add: holds_def)
  have absent: "task_id u \<noteq> task_id t" if "holds E K (task_id u) v" for u v
    using that fresh by (auto simp: holds_def)
  have todo: "AddMember t \<in> set ks" "NewRecord t \<notin> set ks" "ks \<noteq> []" "DropDigest u \<notin> set ks" for u
    using ks(2) by (simp_all add: post_commands_def save_commands_def)
  have "adds ?f (task_id t) (project_name t)"
    unfolding adds_def by (intro exI [of _ c] exI [of _ t]) (simp add: todo)
  then show "wire_records E ?K ?f"
    by (intro wire_records_upd [OF parts(1) carried]) (use new c in \<open>auto split: if_splits\<close>)
  show "projects_inv E ?K"
    by (rule projects_carried [OF parts(2) carried]) (use parts(2) in \<open>auto simp: projects_inv_def\<close>)
  show queue: "queue_inv E ?K" by (rule queue_carried [OF parts(4) carried]) simp
  have "named E ?K ?f h v" if "named E K f h v" for h v
    using that by (rule named_mono) (use keep drops_upd [of E f h c] c in auto)
  then show "wire_digests E ?K ?f" using parts(3) hex by (simp add: wire_digests_def)
  have "task_id u \<noteq> task_id t" if "enc E u \<in> set (queue_of K)" for u
    using queued_held [OF parts(4) deployment_axioms that] absent by blast
  moreover have "task_id u \<noteq> task_id t" if "f d = Runs u us" for d u us
    using client_okD(3) [OF parts(5) that] absent by blast
  moreover have "task_id u \<noteq> task_id t" if "owned (f d) = Some u" for d u
    using client_okD(2) [OF parts(5) that] absent by blast
  moreover have "queue_of ?K = queue_of K" by (simp add: queue_of_def)
  ultimately have "\<not> busy E ?K ?f c (task_id t)"
    unfolding busy_def by (auto split: if_splits)
  then show "client_ok E ?K ?f c"
    using new left_of_rest [OF ks(1), of "NewRecord t" ks] c by (auto simp: client_ok_def)
  show "holds E ?K (task_id u) u" if "holds E K (task_id u) u" for u using keep that .
  show "enc E u \<in> set (queue_of K) \<or> task_id u \<noteq> task_id v" if "enc E u \<in> set (queue_of ?K)" for u v
    using that by (simp add: queue_of_def)
  show "task_id u \<noteq> task_id v" if "owned (f d) = Some v" "Posts t ks = Runs u us \<or> owned (Posts t ks) = Some u" for d u v us
    using that(2) absent [of v v] client_okD(2) [OF parts(5) that(1)] by (auto split: if_splits)
qed

lemma wire_member:
  assumes inv: "wire_inv E K f" and c: "f c = Posts t (AddMember t # ks)"
    and ks: "left_of (f c)" "ks = (if requirement t \<noteq> [] then [PutDigest t] else []) @ [Push t]"
  shows "wire_inv E (effect E (AddMember t) K) (f(c := Posts t ks))"
proof (rule wire_inv_upd [OF inv])
  let ?K = "effect E (AddMember t) K" and ?f = "f(c := Posts t ks)"
  note parts = wire_invD [OF inv]
  have hex: "hex32 (task_id t)" using ks(1) c by (simp add: left_of_def)
  have owned: "owned (f c) = Some t" "owned (Posts t ks) = Some t" using c ks(2) by auto
  have own: "holds E K (task_id t) t" "\<not> busy E K f c (task_id t)"
    using client_okD(2) [OF parts(5) owned(1)] by blast+
  obtain xs where xs: "set xs = insert (task_id t) (members K (project_name t))"
    "ks_keys ?K = (ks_keys K)(project_tasks_key (project_name t) \<mapsto> RSet xs)"
    using member_keys [OF parts(2)] by blast
  have same: "holds E ?K i u \<longleftrightarrow> holds E K i u" for i u using xs(2) by (simp add: holds_def)
  have mem: "members ?K p = (if p = project_name t then insert (task_id t) (members K p) else members K p)" for p
    using xs by (simp add: members_def)
  have q: "queue_of ?K = queue_of K" using xs(2) by (simp add: queue_of_def)
  show carried: "carries E K ?K" by (rule carries_same) (simp add: xs(2))
  show "wire_records E ?K ?f"
    by (rule wire_records_upd [OF parts(1) carried]) (use c mem xs(2) in \<open>auto split: if_splits\<close>)
  show "projects_inv E ?K"
    by (rule projects_carried [OF parts(2) carried])
      (use parts(2) xs(2) mem hex own(1) same in \<open>auto simp: projects_inv_def split: if_splits\<close>)
  show "queue_inv E ?K" by (rule queue_carried [OF parts(4) carried]) (simp add: xs(2))
  have "named E ?K ?f h v" if "named E K f h v" for h v
    using that by (rule named_mono) (use same drops_upd [of E f h c] c in auto)
  then show "wire_digests E ?K ?f" using parts(3) xs(2) by (simp add: wire_digests_def)
  have "\<not> busy E ?K ?f c (task_id t)"
    using own(2) q unfolding busy_def by (auto split: if_splits)
  then show "client_ok E ?K ?f c"
    using same own(1) left_of_rest [OF ks(1), of "AddMember t" ks] c owned(2)
    by (simp add: client_ok_def)
  show "task_id u \<noteq> task_id v"
    if "d \<noteq> c" "owned (f d) = Some v" "Posts t ks = Runs u us \<or> owned (Posts t ks) = Some u" for d u v us
    using that(3) owned owned_apart(2) [OF inv that(2,1) owned(1)] by auto
  show "holds E ?K (task_id u) u" if "holds E K (task_id u) u" for u using that same by blast
  show "enc E u \<in> set (queue_of K) \<or> task_id u \<noteq> task_id v" if "enc E u \<in> set (queue_of ?K)" for u v
    using that q by simp
qed

lemma wire_digest:
  assumes inv: "wire_inv E K f" and c: "f c = Posts t (PutDigest t # [Push t])"
    and ks: "left_of (f c)" "requirement t \<noteq> []"
  shows "wire_inv E (effect E (PutDigest t) K) (f(c := Posts t [Push t]))"
proof (rule wire_inv_upd [OF inv])
  let ?K = "effect E (PutDigest t) K" and ?f = "f(c := Posts t [Push t])"
  note parts = wire_invD [OF inv]
  have hex: "hex32 (task_id t)" "\<not> is_terminal t"
    using ks(1) c by (auto simp: left_of_def is_incomplete_def is_terminal_def)
  have owned: "owned (f c) = Some t" using c by simp
  have own: "holds E K (task_id t) t" "\<not> busy E K f c (task_id t)"
    using client_okD(2) [OF parts(5) owned] by blast+
  have same: "holds E ?K i u \<longleftrightarrow> holds E K i u" if "hex32 i" for i u
    using that by (simp add: holds_def)
  have mem: "members ?K p = members K p" for p by (simp add: members_def)
  have q: "queue_of ?K = queue_of K" by (simp add: queue_of_def)
  show carried: "carries E K ?K" by (rule carries_same) simp
  show "wire_records E ?K ?f"
    by (rule wire_records_upd [OF parts(1) carried]) (use c mem in auto)
  show "projects_inv E ?K"
    by (rule projects_carried [OF parts(2) carried])
      (use parts(2) mem in \<open>auto simp: projects_inv_def\<close>)
  show "queue_inv E ?K" by (rule queue_carried [OF parts(4) carried]) simp
  have old: "named E ?K ?f h v" if "named E K f h v" for h v
    using that by (rule named_mono) (use same drops_upd [of E f h c] c in auto)
  have new: "named E ?K ?f (digest_of E (project_name t) (requirement t)) (RStr (task_id t))"
    using hex own(1) ks(2) same unfolding named_def by blast
  show "wire_digests E ?K ?f"
    using parts(3) old new by (auto simp: wire_digests_def digest_key_def)
  have "\<not> busy E ?K ?f c (task_id t)"
    using own(2) q unfolding busy_def by (auto split: if_splits)
  then show "client_ok E ?K ?f c"
    using same hex(1) own(1) left_of_rest [OF ks(1), of "PutDigest t" "[Push t]"] c
    by (simp add: client_ok_def)
  show "holds E ?K (task_id u) u" if "d \<noteq> c" "owned (f d) = Some u" "holds E K (task_id u) u" for d u
    using same [OF owned_hex [OF client_okD(1) [OF parts(5)] that(2)]] that(3) by blast
  show "task_id u \<noteq> task_id v"
    if "d \<noteq> c" "owned (f d) = Some v" "Posts t [Push t] = Runs u us \<or> owned (Posts t [Push t]) = Some u"
    for d u v us
    using that(3) owned_apart(2) [OF inv that(2,1) owned] by auto
  show "enc E u \<in> set (queue_of K) \<or> task_id u \<noteq> task_id v" if "enc E u \<in> set (queue_of ?K)" for u v
    using that q by simp
qed

text \<open>A push, by whoever has the task. For a post it is the last command.\<close>

lemma wire_push:
  assumes inv: "wire_inv E K f" and c: "f c = Posts t [Push t] \<or> f c = Runs t [Push t]"
  shows "wire_inv E (effect E (Push t) K) (f(c := with_todo [] (f c)))"
proof (rule wire_inv_upd [OF inv])
  let ?K = "effect E (Push t) K" and ?f = "f(c := with_todo [] (f c))"
  note parts = wire_invD [OF inv]
  have hex: "hex32 (task_id t)" using client_okD(1) [OF parts(5), of c] c by (auto simp: left_of_def)
  obtain u where u: "holds E K (task_id t) u" "same_identity t u"
    using c client_okD(2,3) [OF parts(5), of c t] same_identity_sym by fastforce
  have keys: "ks_keys ?K = (ks_keys K)(queue_key \<mapsto> RList (enc E t # queue_of K))"
    by (rule push_keys [OF parts(4)])
  have q: "queue_of ?K = enc E t # queue_of K" by (simp add: queue_of_def keys)
  have same: "holds E ?K i v \<longleftrightarrow> holds E K i v" for i v by (simp add: holds_def keys)
  have mem: "members ?K p = members K p" for p by (simp add: members_def keys)
  show carried: "carries E K ?K" by (rule carries_same) (simp add: keys)
  show "wire_records E ?K ?f"
    by (rule wire_records_upd [OF parts(1) carried]) (use c in \<open>auto simp: keys mem\<close>)
  show "projects_inv E ?K"
    by (rule projects_carried [OF parts(2) carried])
      (use parts(2) mem in \<open>auto simp: projects_inv_def keys\<close>)
  have "snapshot E ?K s" if "s \<in> set (queue_of ?K)" for s
  proof -
    have "snapshot E K s" if "s \<in> set (queue_of K)" using parts(4) that by (simp add: queue_inv_def)
    moreover have "snapshot E K (enc E t)" using hex u unfolding snapshot_def by blast
    ultimately show ?thesis using that q unfolding snapshot_def same by auto
  qed
  then show "queue_inv E ?K" by (simp add: queue_inv_def keys q)
  have "named E ?K ?f h v" if "named E K f h v" for h v
    using that by (rule named_mono) (use same drops_upd [of E f h c] c in auto)
  then show "wire_digests E ?K ?f" using parts(3) by (simp add: wire_digests_def keys)
  have "left_of (with_todo [] (f c))"
    using left_of_rest [OF client_okD(1) [OF parts(5)], of c "Push t" "[]"] c by auto
  then show "client_ok E ?K ?f c"
    using c u same same_identity_sym [OF u(2)] by (auto simp: client_ok_def)
  have busy: "task_id t \<noteq> task_id v" if "d \<noteq> c" "owned (f d) = Some v" for d v
    using c owned_apart [OF inv that(2,1)] by auto
  show "enc E w \<in> set (queue_of K) \<or> task_id w \<noteq> task_id v"
    if "d \<noteq> c" "owned (f d) = Some v" "enc E w \<in> set (queue_of ?K)" for d v w
    using that(3) busy [OF that(1,2)] q by auto
  show "task_id w \<noteq> task_id v"
    if "d \<noteq> c" "owned (f d) = Some v" "with_todo [] (f c) = Runs w us \<or> owned (with_todo [] (f c)) = Some w"
    for d v w us
    using that(3) busy [OF that(1,2)] c by auto
  show "holds E ?K (task_id v) v" if "holds E K (task_id v) v" for v using that same by blast
qed

text \<open>The commands of an update.\<close>

lemma wire_put:
  assumes inv: "wire_inv E K f" and c: "f c = Runs t (PutRecord t # ks)"
    and ks: "ks = [] \<or> ks = [DropDigest t]" "is_terminal t \<Longrightarrow> requirement t \<noteq> [] \<Longrightarrow> ks = [DropDigest t]"
  shows "wire_inv E (recorded E t K) (f(c := Runs t ks))"
proof (rule wire_inv_upd [OF inv])
  let ?K = "recorded E t K" and ?f = "f(c := Runs t ks)"
  note parts = wire_invD [OF inv]
  have ok: "left_of (f c)" by (rule client_okD(1) [OF parts(5)])
  have hex: "hex32 (task_id t)" using ok c by (simp add: left_of_def)
  obtain u where u: "holds E K (task_id t) u" "same_identity u t"
    using client_okD(3) [OF parts(5) c] by blast
  have is_u: "v = u" if "holds E K (task_id t) v" for v using that u(1) by (simp add: holds_def)
  have new: "holds E ?K (task_id t) t" by (simp add: holds_def)
  have keep: "holds E ?K i v" if "holds E K i v" "i \<noteq> task_id t" for i v
    using that by (simp add: holds_def)
  have q: "queue_of ?K = queue_of K" by (simp add: queue_of_def)
  show carried: "carries E K ?K"
    unfolding carries_def using keep new is_u u(2) same_identity_refl by metis
  show "wire_records E ?K ?f"
    by (rule wire_records_upd [OF parts(1) carried]) (use c u(1) in \<open>auto simp: holds_def split: if_splits\<close>)
  show "projects_inv E ?K"
    by (rule projects_carried [OF parts(2) carried]) (use parts(2) in \<open>auto simp: projects_inv_def\<close>)
  show "queue_inv E ?K" by (rule queue_carried [OF parts(4) carried]) simp
  have "named E ?K ?f h v" if n: "named E K f h v" for h v
  proof -
    have d: "drops E ?f h" if "drops E f h"
      using that by (rule drops_upd) (use c ks in auto)
    obtain i w where w: "v = RStr i" "hex32 i" "holds E K i w" "requirement w \<noteq> []"
      "h = digest_of E (project_name w) (requirement w)" "is_terminal w \<longrightarrow> drops E f h"
      using n unfolding named_def by blast
    show ?thesis
    proof (cases "i = task_id t")
      case True
      with w(3) is_u u(2) w(4,5) have t: "requirement t \<noteq> []"
        "h = digest_of E (project_name t) (requirement t)"
        by (auto simp: same_identity_def)
      have "drops E ?f h" if "is_terminal t"
      proof -
        have "DropDigest t \<in> set (todo (?f c))" using ks(2) [OF that t(1)] by simp
        with t(2) show ?thesis unfolding drops_def by blast
      qed
      with t True w(1) hex new show ?thesis unfolding named_def by blast
    next
      case False
      with w keep d show ?thesis unfolding named_def by blast
    qed
  qed
  then show "wire_digests E ?K ?f" using parts(3) hex by (simp add: wire_digests_def)
  show "client_ok E ?K ?f c"
    using left_of_rest [OF ok, of "PutRecord t" ks] c new by (auto simp: client_ok_def)
  have busy: "task_id t \<noteq> task_id v" if "d \<noteq> c" "owned (f d) = Some v" for d v
    using owned_apart(1) [OF inv that(2,1) c] .
  show "task_id w \<noteq> task_id v"
    if "d \<noteq> c" "owned (f d) = Some v" "Runs t ks = Runs w us \<or> owned (Runs t ks) = Some w" for d v w us
    using that(3) busy [OF that(1,2)] by auto
  show "holds E ?K (task_id v) v" if "d \<noteq> c" "owned (f d) = Some v" "holds E K (task_id v) v" for d v
    using keep [OF that(3)] busy [OF that(1,2)] by simp
  show "enc E w \<in> set (queue_of K) \<or> task_id w \<noteq> task_id v" if "enc E w \<in> set (queue_of ?K)" for w v
    using that q by simp
qed

lemma wire_drop:
  assumes inv: "wire_inv E K f" and c: "f c = Runs t [DropDigest t]"
  shows "wire_inv E (effect E (DropDigest t) K) (f(c := Runs t []))"
proof (rule wire_inv_upd [OF inv])
  let ?K = "effect E (DropDigest t) K" and ?f = "f(c := Runs t [])"
  note parts = wire_invD [OF inv]
  have ok: "left_of (f c)" by (rule client_okD(1) [OF parts(5)])
  have hex: "hex32 (task_id t)" using ok c by (simp add: left_of_def)
  obtain u where u: "holds E K (task_id t) u" "same_identity u t"
    using client_okD(3) [OF parts(5) c] by blast
  have same: "holds E ?K i v \<longleftrightarrow> holds E K i v" if "hex32 i" for i v
    using that by (simp add: holds_def)
  have mem: "members ?K p = members K p" for p by (simp add: members_def)
  have q: "queue_of ?K = queue_of K" by (simp add: queue_of_def)
  show carried: "carries E K ?K" by (rule carries_same) simp
  show "wire_records E ?K ?f"
    by (rule wire_records_upd [OF parts(1) carried]) (use c mem in auto)
  show "projects_inv E ?K"
    by (rule projects_carried [OF parts(2) carried]) (use parts(2) mem in \<open>auto simp: projects_inv_def\<close>)
  show "queue_inv E ?K" by (rule queue_carried [OF parts(4) carried]) simp
  have "named E ?K ?f h v" if "named E K f h v" "h \<noteq> digest_of E (project_name t) (requirement t)" for h v
    using that(1) by (rule named_mono) (use that(2) same drops_upd [of E f h c] c in auto)
  then show "wire_digests E ?K ?f" using parts(3) by (auto simp: wire_digests_def digest_key_def)
  show "client_ok E ?K ?f c"
    using left_of_rest [OF ok, of "DropDigest t" "[]"] c u same [OF hex] by (auto simp: client_ok_def)
  have busy: "task_id t \<noteq> task_id v" if "d \<noteq> c" "owned (f d) = Some v" for d v
    using owned_apart(1) [OF inv that(2,1) c] .
  show "task_id w \<noteq> task_id v"
    if "d \<noteq> c" "owned (f d) = Some v" "Runs t [] = Runs w us \<or> owned (Runs t []) = Some w" for d v w us
    using that(3) busy [OF that(1,2)] by auto
  show "holds E ?K (task_id v) v" if "d \<noteq> c" "owned (f d) = Some v" "holds E K (task_id v) v" for d v
    using same [OF owned_hex [OF client_okD(1) [OF parts(5)] that(2)]] that(3) by blast
  show "enc E w \<in> set (queue_of K) \<or> task_id w \<noteq> task_id v" if "enc E w \<in> set (queue_of ?K)" for w v
    using that q by simp
qed

lemma wire_command:
  assumes inv: "wire_inv E (view (wr_server s)) (wr_client s)"
    and todo: "todo (wr_client s c) = k # ks" and sent: "send E k (wr_server s) = (r, v)"
    and cl: "cl = (case r of Inl e \<Rightarrow> Free | Inr u \<Rightarrow> with_todo ks (wr_client s c))"
  shows "wire_inv E (view v) ((wr_client s)(c := cl))"
proof -
  let ?f = "wr_client s" and ?K = "view (wr_server s)"
  note parts = wire_invD [OF inv]
  have left: "left_of (?f c)" by (rule client_okD(1) [OF parts(5)])
  have v: "view v = effect E k ?K" and r: "r = fst (send E k (wr_server s))"
    using send_view [of k "wr_server s"] sent by simp_all
  have fine: "cl = with_todo ks (?f c)" if "\<And>t. k \<noteq> NewRecord t"
    using send_answers [OF parts(2,4) that] cl r by simp
  show ?thesis
  proof (cases "?f c")
    case Free
    with todo show ?thesis by simp
  next
    case (Posts t ls)
    with todo have c: "?f c = Posts t (k # ks)" by simp
    from left have "left_of (Posts t (k # ks))" by (simp add: c)
    then show ?thesis
    proof (cases rule: posts_cases)
      case new
      show ?thesis
      proof (cases "ks_keys ?K (task_key (task_id t)) = None")
        case True
        then have "cl = Posts t ks" using cl r new(1) c by simp
        with wire_new [OF inv _ left new(2) True] c v new(1) True show ?thesis by simp
      next
        case False
        then have cl: "cl = Free" using cl r new(1) by auto
        have "wire_inv E ?K (?f(c := cl))"
          by (rule wire_inv_turn [OF inv])
            (use c new in \<open>auto simp: cl left_of_def post_commands_def save_commands_def\<close>)
        with v new(1) False show ?thesis by simp
      qed
    next
      case member
      then show ?thesis using wire_member [OF inv _ left, of t ks] fine c v by simp
    next
      case digest
      then show ?thesis using wire_digest [OF inv _ left, of t] fine c v by simp
    next
      case push
      then show ?thesis using wire_push [OF inv, of c t] fine c v by simp
    qed
  next
    case (Runs t ls)
    with todo have c: "?f c = Runs t (k # ks)" by simp
    from left have "left_of (Runs t (k # ks))" by (simp add: c)
    then show ?thesis
    proof (cases rule: runs_cases)
      case put
      then show ?thesis using wire_put [OF inv, of c t ks] fine c v by simp
    next
      case drop
      then show ?thesis using wire_drop [OF inv, of c t] fine c v by simp
    next
      case push
      then show ?thesis using wire_push [OF inv, of c t] fine c v by simp
    qed
  qed
qed

text \<open>A worker takes a snapshot off the queue.\<close>

lemma popped_queue:
  assumes queue: "queue_inv E K" and pop: "cmd_brpop queue_key n K = (Inr (Some (k, x)), K')"
  shows "x \<in> set (queue_of K)" "set (queue_of K') \<subseteq> set (queue_of K)"
    "\<And>k. k \<noteq> queue_key \<Longrightarrow> ks_keys K' k = ks_keys K k" "queue_inv E K'"
proof -
  from queue pop obtain xs where xs: "ks_keys K queue_key = Some (RList xs)" "queue_of K = xs"
    by (cases rule: queue_key_cases) (auto simp: cmd_brpop_def)
  with pop have ne: "xs \<noteq> []" by (auto simp: cmd_brpop_def)
  have K': "K' = (if butlast xs = [] then ks_remove queue_key K
      else K\<lparr>ks_keys := (ks_keys K)(queue_key \<mapsto> RList (butlast xs))\<rparr>)" and x: "x = last xs"
    using pop xs ne by (auto simp: cmd_brpop_def split: if_splits)
  have q: "queue_of K' = butlast xs" by (simp add: K' queue_of_def)
  show "x \<in> set (queue_of K)" using x ne xs(2) by simp
  show sub: "set (queue_of K') \<subseteq> set (queue_of K)" using q xs(2) by (auto dest: in_set_butlastD)
  show keys: "ks_keys K' k = ks_keys K k" if "k \<noteq> queue_key" for k using that by (simp add: K')
  have "carries E K K'" by (rule carries_same) (simp add: keys)
  then have "snapshot E K' s" if "s \<in> set (queue_of K')" for s
    using queue that sub snapshot_carried unfolding queue_inv_def by blast
  then show "queue_inv E K'" unfolding queue_inv_def q by (auto simp: K')
qed

lemma wire_take:
  assumes inv: "wire_inv E K f" and c: "f c = Free"
    and pop: "cmd_brpop queue_key n K = (Inr (Some (k, enc E t)), K')"
  shows "wire_inv E K' (f(c := Runs t []))"
proof -
  note parts = wire_invD [OF inv]
  note pop = popped_queue [OF parts(4) pop]
  obtain u where hex: "hex32 (task_id t)" and u: "holds E K (task_id t) u" "same_identity t u"
    using queued_held [OF parts(4) deployment_axioms pop(1)] by blast
  have apart: "task_id t \<noteq> task_id v" if "owned (f d) = Some v" for d v
    using client_okD(2) [OF parts(5) that] pop(1) unfolding busy_def by blast
  have inv1: "wire_inv E K (f(c := Runs t []))"
  proof (rule wire_inv_turn [OF inv])
    show "left_of (Runs t [])"
      using hex by (auto simp: left_of_def operations_def intro!: exI [of _ 1])
  qed (use c u same_identity_sym apart in auto)
  have carried: "carries E K K'" by (rule carries_same) (simp add: pop(3))
  have same: "holds E K' i v \<longleftrightarrow> holds E K i v" for i v by (simp add: holds_def pop(3))
  have mem: "members K' p = members K p" for p by (simp add: members_def pop(3))
  let ?f = "f(c := Runs t [])"
  note parts = wire_invD [OF inv1]
  have "client_ok E K' ?f d" for d
  proof -
    have "\<not> busy E K' ?f d i" if "\<not> busy E K ?f d i" for i
      using that pop(2) unfolding busy_def by blast
    then show ?thesis using parts(5) [of d] unfolding client_ok_def same by blast
  qed
  moreover have "wire_records E K' ?f"
    using parts(1) unfolding wire_records_def same mem by (simp add: pop(3))
  moreover have "projects_inv E K'"
    using parts(2) unfolding projects_inv_def same mem by (simp add: pop(3))
  moreover have "wire_digests E K' ?f"
    using parts(3) unfolding wire_digests_def named_def same by (simp add: pop(3))
  ultimately show ?thesis using pop(4) by (simp add: wire_inv_def)
qed

lemma wire_step_inv:
  assumes "wire_step E s s'" "wire_inv E (view (wr_server s)) (wr_client s)"
  shows "wire_inv E (view (wr_server s')) (wr_client s')"
  using assms
proof (cases rule: wire_step.cases)
  case (post c t)
  have "left_of (Posts t (post_commands t))"
    using post by (auto simp: left_of_def intro!: exI [of _ 0])
  then show ?thesis
    using wire_inv_turn [OF assms(2), of c "Posts t (post_commands t)"] post
    by (simp add: post_commands_def save_commands_def)
next
  case (command c k ks r v)
  then show ?thesis using wire_command [OF assms(2)] by simp
next
  case (finish c)
  then have "owned (wr_client s c) = None" by (cases "wr_client s c") auto
  with finish show ?thesis
    using wire_inv_turn [OF assms(2), of c Free] by (simp add: left_of_def)
next
  case (take c n k t v)
  then have "cmd_brpop queue_key n (view (wr_server s)) = (Inr (Some (k, enc E t)), view v)"
    using brpop_fst [of queue_key n "wr_server s"] brpop_view [of queue_key n "wr_server s"]
    by (simp add: prod_eq_iff)
  then show ?thesis using wire_take [OF assms(2) take(2)] take(1) by simp
next
  case (operate c t t' ks)
  note ok = wire_invD(5) [OF assms(2), of c]
  have id: "task_id t' = task_id t" using operate(3) by (simp add: same_identity_def)
  have "left_of (Runs t' ks)"
    using client_okD(1) [OF ok] operate id by (auto simp: left_of_def intro!: exI [of _ 0])
  moreover have "\<exists>u. holds E (view (wr_server s)) (task_id t') u \<and> same_identity u t'"
    using client_okD(3) [OF ok operate(2)] same_identity_trans [OF _ operate(3)] id by metis
  moreover have "task_id t \<noteq> task_id u" if "d \<noteq> c" "owned (wr_client s d) = Some u" for d u
    using owned_apart(1) [OF assms(2) that(2,1) operate(2)] .
  ultimately show ?thesis
    using wire_inv_turn [OF assms(2), of c "Runs t' ks"] operate id by auto
next
  case (schedule c t ks t' d)
  note ok = wire_invD(5) [OF assms(2), of c]
  have id: "task_id t' = task_id t" using schedule(3) by (simp add: same_identity_def)
  have "left_of (Runs t' [])"
    using client_okD(1) [OF ok] schedule(2) id
    by (auto simp: left_of_def operations_def intro!: exI [of _ 1])
  moreover have "\<exists>u. holds E (view (wr_server s)) (task_id t') u \<and> same_identity u t'"
    using client_okD(3) [OF ok schedule(2)] same_identity_trans [OF _ schedule(3)] id by metis
  moreover have "task_id t \<noteq> task_id u" if "owned (wr_client s e) = Some u" for e u
    using owned_apart(1) [OF assms(2) that _ schedule(2)] that schedule(2) by fastforce
  ultimately show ?thesis
    using wire_inv_turn [OF assms(2), of d "Runs t' []"] schedule id by auto
next
  case (recover c i t v)
  have i: "hex32 i" "ks_keys (view (wr_server s)) (task_key i) = Some (RStr (enc E t))"
    using recover get_fst [of "task_key i" "wr_server s"]
    by (auto simp: cmd_get_def split: option.splits rval.splits)
  with wire_invD(1) [OF assms(2)] have h: "holds E (view (wr_server s)) i t" "task_id t = i"
    by (auto simp: wire_records_def holds_def)
  have "left_of (Runs t [])"
    using i(1) h(2) by (auto simp: left_of_def operations_def intro!: exI [of _ 1])
  moreover have "owned (wr_client s d) = None" for d
    using recover(3) by (cases "wr_client s d") auto
  moreover have "view v = view (wr_server s)"
    using recover(5) get_view [of "task_key i" "wr_server s"] by simp
  moreover have "\<exists>u. holds E (view (wr_server s)) (task_id t) u \<and> same_identity u t"
    using h same_identity_refl by blast
  ultimately show ?thesis
    using wire_inv_turn [OF assms(2), of c "Runs t []"] recover(1,2) by auto
qed

lemma wire_run_inv:
  "wire_run E s s' \<Longrightarrow> wire_inv E (view (wr_server s)) (wr_client s) \<Longrightarrow>
    wire_inv E (view (wr_server s')) (wr_client s')"
  by (induction rule: wire_run.induct) (auto intro: wire_step_inv)

text \<open>When nobody is inside an operation the two invariants are the same.\<close>

lemma wire_inv_settled:
  assumes "\<And>c. todo (f c) = []"
  shows "wire_inv E K f \<Longrightarrow> store_inv E K"
    and "store_inv E K \<Longrightarrow> (\<And>c. f c = Free) \<Longrightarrow> wire_inv E K f"
proof -
  have none: "\<not> adds f i p" "\<not> drops E f h" for i p h
    using assms by (simp_all add: adds_def drops_def)
  then show "wire_inv E K f \<Longrightarrow> store_inv E K"
    unfolding wire_inv_def store_inv_def wire_records_def records_inv_def wire_digests_def
      digests_inv_def named_def live_digest_def by blast
  assume inv: "store_inv E K" and free: "\<And>c. f c = Free"
  then have "client_ok E K f c" for c by (simp add: client_ok_def left_of_def)
  moreover have "named E K f h v" if "live_digest E K h v" for h v
    using that unfolding named_def live_digest_def by blast
  ultimately show "wire_inv E K f"
    using inv unfolding wire_inv_def store_inv_def wire_records_def records_inv_def wire_digests_def
      digests_inv_def by blast
qed

lemma outlasts_refl: "outlasts E K K"
  unfolding outlasts_def by (auto intro: carries_same)

lemma outlasts_trans: "outlasts E K K' \<Longrightarrow> outlasts E K' K'' \<Longrightarrow> outlasts E K K''"
  unfolding outlasts_def carries_def by (meson same_identity_trans subset_trans)

lemma effect_outlasts:
  assumes inv: "wire_inv E K f" and todo: "todo (f c) = k # ks"
  shows "outlasts E K (effect E k K)"
proof (cases k)
  case (NewRecord t)
  have "holds E (effect E k K) i u" if "holds E K i u" for i u
    using that by (auto simp: NewRecord holds_def)
  moreover have "members (effect E k K) p = members K p" for p by (simp add: NewRecord)
  ultimately show ?thesis unfolding outlasts_def carries_def using same_identity_refl by blast
next
  case (PutRecord t)
  have "f c = Runs t (k # ks)"
  proof (cases "f c")
    case (Posts u ls)
    then have "left_of (Posts u (k # ks))" using client_okD(1) [OF wire_invD(5) [OF inv], of c] todo by simp
    then show ?thesis by (cases rule: posts_cases) (simp_all add: PutRecord)
  next
    case (Runs u ls)
    then have r: "f c = Runs u (k # ks)" using todo by simp
    then have "left_of (Runs u (k # ks))" using client_okD(1) [OF wire_invD(5) [OF inv], of c] by simp
    then show ?thesis by (cases rule: runs_cases) (use r in \<open>simp_all add: PutRecord\<close>)
  qed (use todo in simp)
  then obtain u where u: "holds E K (task_id t) u" "same_identity u t"
    using client_okD(3) [OF wire_invD(5) [OF inv]] by blast
  have "\<exists>v'. holds E (effect E k K) i v' \<and> same_identity v v'" if "holds E K i v" for i v
    using that u same_identity_refl by (cases "i = task_id t") (auto simp: PutRecord holds_def)
  then show ?thesis unfolding outlasts_def carries_def by (auto simp: PutRecord)
next
  case (AddMember t)
  obtain xs where xs: "set xs = insert (task_id t) (members K (project_name t))"
    "ks_keys (effect E k K) = (ks_keys K)(project_tasks_key (project_name t) \<mapsto> RSet xs)"
    using member_keys [OF wire_invD(2) [OF inv]] unfolding AddMember by blast
  then show ?thesis
    unfolding outlasts_def by (auto simp: members_def intro: carries_same)
next
  case (Push t)
  show ?thesis
    unfolding outlasts_def Push
    using push_keys [OF wire_invD(4) [OF inv], of t] by (auto simp: members_def intro: carries_same)
qed (auto simp: outlasts_def members_def intro: carries_same)

lemma wire_step_outlasts:
  assumes "wire_step E s s'" "wire_inv E (view (wr_server s)) (wr_client s)"
  shows "outlasts E (view (wr_server s)) (view (wr_server s'))"
  using assms
proof (cases rule: wire_step.cases)
  case (command c k ks r v)
  then have "view v = effect E k (view (wr_server s))"
    using send_view [of k "wr_server s"] by simp
  with effect_outlasts [OF assms(2) command(2)] command(1) show ?thesis by simp
next
  case (take c n k t v)
  then have "cmd_brpop queue_key n (view (wr_server s)) = (Inr (Some (k, enc E t)), view v)"
    using brpop_fst [of queue_key n "wr_server s"] brpop_view [of queue_key n "wr_server s"]
    by (simp add: prod_eq_iff)
  from popped_queue(3) [OF wire_invD(4) [OF assms(2)] this] show ?thesis
    unfolding outlasts_def using take(1) by (auto simp: members_def intro: carries_same)
next
  case (recover c i t v)
  then have "view v = view (wr_server s)"
    using get_view [of "task_key i" "wr_server s"] by simp
  with recover(1) show ?thesis by (simp add: outlasts_refl)
qed (simp_all add: outlasts_refl)

lemma wire_run_outlasts:
  "wire_run E s s' \<Longrightarrow> wire_inv E (view (wr_server s)) (wr_client s) \<Longrightarrow>
    outlasts E (view (wr_server s)) (view (wr_server s'))"
proof (induction rule: wire_run.induct)
  case (more s t u)
  then show ?case
    using wire_step_outlasts [OF more.hyps(2) wire_run_inv [OF more.hyps(1) more.prems]]
    by (blast intro: outlasts_trans)
qed (rule outlasts_refl)

lemma digest_names:
  assumes "wire_inv E K f" "ks_keys K (digest_key E p r) = Some v"
  obtains i t where "v = RStr i" "hex32 i" "holds E K i t" "requirement t \<noteq> []"
    "digest_of E (project_name t) (requirement t) = digest_of E p r" "is_terminal t \<Longrightarrow> drops E f (digest_of E p r)"
  using wire_invD(3) [OF assms(1)] assms(2) unfolding wire_digests_def named_def digest_key_def
  by metis

lemma digest_lookup:
  assumes w: "client_ready w" and inv: "wire_inv E (view (svc w)) f"
  shows "\<exists>res. fst (find_by_digest E p r w) = Inr res
    \<and> (\<forall>x. res = Some x \<longrightarrow>
         is_terminal (heap (snd (find_by_digest E p r w)) x) \<longrightarrow> drops E f (digest_of E p r))"
proof (cases "ks_keys (view (svc w)) (digest_key E p r)")
  case None
  with w show ?thesis by (simp add: find_by_digest_def py_simps cmd_get_def)
next
  case (Some v)
  from digest_names [OF inv Some] obtain i t where it: "v = RStr i" "hex32 i" "holds E (view (svc w)) i t"
    "is_terminal t \<Longrightarrow> drops E f (digest_of E p r)"
    by metis
  let ?w = "w\<lparr>svc := snd (r_get (redis E) (digest_key E p r) (svc w))\<rparr>"
  have "find_by_digest E p r w = store_get E i ?w"
    using Some it(1) w by (simp add: find_by_digest_def py_simps cmd_get_def)
  with store_get_run(1) [of ?w i t] it(3,4) w show ?thesis by auto
qed

end

text \<open>An operation that nobody interrupts is the one of theory \<open>Store\<close>.\<close>

lemma wire_run_trans: "wire_run E t u \<Longrightarrow> wire_run E s t \<Longrightarrow> wire_run E s u"
  by (induction rule: wire_run.induct) (auto intro: wire_run.more)

lemma wire_alone:
  assumes "py_for (send E) ks (wr_server s) = (Inr (), v)" "todo (wr_client s c) = ks"
  shows "wire_run E s
    (s\<lparr>wr_server := v, wr_client := (wr_client s)(c := with_todo [] (wr_client s c))\<rparr>)"
  using assms
proof (induction ks arbitrary: s)
  case Nil
  then have "with_todo [] (wr_client s c) = wr_client s c" by (cases "wr_client s c") simp_all
  moreover have "s\<lparr>wr_server := v\<rparr> = s" using Nil(1) by (cases s) (simp add: py_return_def)
  ultimately show ?case by (simp add: wire_run.here)
next
  case (Cons k ks)
  obtain v1 where k: "send E k (wr_server s) = (Inr (), v1)" "py_for (send E) ks v1 = (Inr (), v)"
    using Cons.prems(1) by (auto simp: py_then_def py_bind_def prod_eq_iff split: sum.splits)
  let ?s = "s\<lparr>wr_server := v1, wr_client := (wr_client s)(c := with_todo ks (wr_client s c))\<rparr>"
  have "wire_step E s ?s" using wire_step.command [OF Cons.prems(2) k(1)] by simp
  then have "wire_run E s ?s" by (rule wire_run.more [OF wire_run.here])
  moreover have t: "todo (wr_client ?s c) = ks" "with_todo [] (with_todo ks (wr_client s c)) = with_todo [] (wr_client s c)"
    using Cons.prems(2) by (cases "wr_client s c"; simp)+
  then have "wire_run E ?s
      (s\<lparr>wr_server := v, wr_client := (wr_client s)(c := with_todo [] (wr_client s c))\<rparr>)"
    using Cons.IH [of ?s] k(2) by (simp add: fun_upd_def cong: if_cong)
  ultimately show ?case by (rule wire_run_trans [rotated])
qed

section \<open>Properties\<close>

text \<open>Nobody has anything to do.\<close>

definition all_free :: "'r wire \<Rightarrow> bool" where
  "all_free s = (\<forall>c. wr_client s c = Free)"

text \<open>C23: the operations settle. Let the commands of any number of posts, workers, scheduled updates and
  recoveries interleave one by one, from a consistent store on. Whenever no client is inside an
  operation the store is consistent, and every task that was stored is stored, in the same or a later
  state.\<close>

theorem commands_settle:
  assumes "deployment E view" "store_inv E (view (wr_server s))" "all_free s" "wire_run E s s'"
  shows "((\<forall>c. todo (wr_client s' c) = []) \<longrightarrow> store_inv E (view (wr_server s')))
    \<and> (\<forall>i t. hex32 i \<longrightarrow> holds E (view (wr_server s)) i t \<longrightarrow>
         (\<exists>t'. holds E (view (wr_server s')) i t' \<and> same_identity t t'))"
proof -
  have "wire_inv E (view (wr_server s)) (wr_client s)"
    using deployment.wire_inv_settled(2) [OF assms(1)] assms(2,3) by (simp add: all_free_def)
  note run = deployment.wire_run_inv [OF assms(1,4) this] deployment.wire_run_outlasts [OF assms(1,4) this]
  have "carries E (view (wr_server s)) (view (wr_server s'))"
    using run(2) by (simp add: outlasts_def)
  with deployment.wire_inv_settled(1) [OF assms(1) _ run(1)] show ?thesis
    unfolding carries_def by blast
qed

definition start_wire :: "mem wire" where
  "start_wire = \<lparr>wr_server = svc start_world, wr_client = (\<lambda>_. Free)\<rparr>"

text \<open>A post, sent without interruption.\<close>

lemma posted_wire:
  "\<exists>s. wire_run mem_env start_wire s \<and> (\<forall>c. todo (wr_client s c) = [])
    \<and> holds mem_env (mem_view (wr_server s)) (task_id no_task) no_task
    \<and> task_id no_task \<in> members (mem_view (wr_server s)) ''demo''"
proof -
  let ?s = "start_wire\<lparr>wr_client := (wr_client start_wire)(0 := Posts no_task (post_commands no_task))\<rparr>"
  let ?p = "py_for (send mem_env) (post_commands no_task) (svc start_world)"
  have "wire_step mem_env start_wire ?s"
    by (rule wire_step.post) (simp_all add: start_wire_def is_incomplete_def)
  then have one: "wire_run mem_env start_wire ?s" by (rule wire_run.more [OF wire_run.here])
  have queued: "queued_world = snd (sending mem_env [Push no_task] saved_world)"
    by (simp add: queued_world_def memory.operation_commands(3))
  have saved: "fst (sending mem_env (save_commands no_task) start_world) = Inr ()"
    using memory.store_save_run(1) [of start_world 0] memory.operation_commands(1) [of 0 start_world]
    by (simp add: projects_inv_def members_def)
  have pushed: "fst (sending mem_env [Push no_task] saved_world) = Inr ()"
    using memory.enqueue_run(1) [of saved_world 0] saved_world_inv
      memory.operation_commands(3) [of 0 saved_world]
    by (simp add: store_inv_def)
  have saved_world: "saved_world = snd (sending mem_env (save_commands no_task) start_world)"
    by (simp add: saved_world_def memory.operation_commands(1))
  have p: "?p = (Inr (), svc queued_world)"
    using saved pushed unfolding queued saved_world post_commands_def py_for_append
    by (auto simp: sending_def py_simps prod_eq_iff split: sum.splits)
  let ?t = "?s\<lparr>wr_server := svc queued_world, wr_client := (wr_client ?s)(0 := with_todo [] (wr_client ?s 0))\<rparr>"
  have "wire_run mem_env ?s ?t"
    by (rule wire_alone [where ks = "post_commands no_task"])
      (use p in \<open>simp_all add: start_wire_def\<close>)
  then have "wire_run mem_env start_wire ?t" using one by (rule wire_run_trans)
  moreover have "todo (wr_client ?t c) = []" for c by (simp add: start_wire_def)
  moreover have "holds mem_env (mem_view (wr_server ?t)) (task_id no_task) no_task"
    using queued_world_holds by simp
  moreover have "task_id no_task \<in> members (mem_view (wr_server ?t)) ''demo''"
    by (simp add: queued_world_view members_def queued_keys saved_world_keys)
  ultimately show ?thesis by blast
qed

lemma start_wire_facts:
  "all_free start_wire" "store_inv mem_env (mem_view (wr_server start_wire))"
  using start_world_inv by (simp_all add: all_free_def start_wire_def)

theorem commands_settle_witness:
  "\<exists>s. wire_run mem_env start_wire s \<and> store_inv mem_env (mem_view (wr_server s))
    \<and> holds mem_env (mem_view (wr_server s)) (task_id no_task) no_task"
proof -
  obtain s where s: "wire_run mem_env start_wire s" "\<forall>c. todo (wr_client s c) = []"
    "holds mem_env (mem_view (wr_server s)) (task_id no_task) no_task"
    using posted_wire by blast
  with commands_settle [OF memory.deployment_axioms start_wire_facts(2,1) s(1)] show ?thesis by blast
qed

text \<open>C24: lookups answer at every moment. Whatever commands are under way, \<open>get\<close> of an id, \<open>find_incomplete\<close>
  and \<open>find_by_digest\<close> return. What the first command of a lookup read is there for the second, whatever
  was sent in between: an id from a project's set is the id of a stored task of the project, and one
  from a digest key that of a stored task with a requirement and this digest. A task that
  \<open>find_by_digest\<close> returns is unfinished, or its digest key is about to be deleted.\<close>

theorem lookups_in_flight:
  assumes "deployment E view" "store_inv E (view (wr_server s))" "all_free s"
    and "wire_run E s s1" "wire_run E s1 s2" "client_ready w" "svc w = wr_server s2"
  shows "(\<exists>res. fst (find_incomplete E p w) = Inr res)
    \<and> (\<exists>res. fst (find_by_digest E p r w) = Inr res
        \<and> (\<forall>x. res = Some x \<longrightarrow>
             is_terminal (heap (snd (find_by_digest E p r w)) x) \<longrightarrow> drops E (wr_client s2) (digest_of E p r)))
    \<and> (hex32 i \<longrightarrow> (\<exists>res. fst (store_get E i w) = Inr res))
    \<and> (i \<in> members (view (wr_server s1)) p \<longrightarrow>
        (\<exists>x. fst (store_get E i w) = Inr (Some x)
           \<and> project_name (heap (snd (store_get E i w)) x) = p))
    \<and> (ks_keys (view (wr_server s1)) (digest_key E p r) = Some (RStr i) \<longrightarrow>
        (\<exists>x. fst (store_get E i w) = Inr (Some x)
           \<and> requirement (heap (snd (store_get E i w)) x) \<noteq> []
           \<and> digest_of E (project_name (heap (snd (store_get E i w)) x))
                (requirement (heap (snd (store_get E i w)) x)) = digest_of E p r))"
proof -
  let ?K1 = "view (wr_server s1)" and ?K2 = "view (wr_server s2)"
  have start: "wire_inv E (view (wr_server s)) (wr_client s)"
    using deployment.wire_inv_settled(2) [OF assms(1)] assms(2,3) by (simp add: all_free_def)
  note inv1 = deployment.wire_run_inv [OF assms(1,4) start]
  note inv2 = deployment.wire_run_inv [OF assms(1,5) inv1]
  have lasts: "carries E ?K1 ?K2"
    using deployment.wire_run_outlasts [OF assms(1,5) inv1] by (simp add: outlasts_def)
  have K2: "view (svc w) = ?K2" by (simp add: assms(7))
  have get: "fst (store_get E j w) = Inr (Some (next_obj w))
      \<and> heap (snd (store_get E j w)) (next_obj w) = t" if "holds E ?K2 j t" for j t
    using deployment.store_get_run(1) [OF assms(1,6), of j t] that unfolding K2 by simp
  have get_later: "\<exists>t'. fst (store_get E j w) = Inr (Some (next_obj w))
      \<and> heap (snd (store_get E j w)) (next_obj w) = t' \<and> same_identity t t'"
    if "hex32 j" "holds E ?K1 j t" for j t
    using carriesD [OF lasts that] get by blast
  have "\<exists>res. fst (find_incomplete E p w) = Inr res"
    using deployment.find_incomplete_sets [OF assms(1,6)] wire_invD(2) [OF inv2] unfolding K2 by blast
  moreover have "\<exists>res. fst (find_by_digest E p r w) = Inr res
      \<and> (\<forall>x. res = Some x \<longrightarrow>
           is_terminal (heap (snd (find_by_digest E p r w)) x) \<longrightarrow> drops E (wr_client s2) (digest_of E p r))"
    using deployment.digest_lookup [OF assms(1,6), of "wr_client s2" p r] inv2 unfolding K2 by blast
  moreover have "\<exists>res. fst (store_get E i w) = Inr res" if "hex32 i"
  proof (cases "ks_keys ?K2 (task_key i)")
    case None
    with deployment.store_get_run(2) [OF assms(1,6)] show ?thesis unfolding K2 by blast
  next
    case (Some v)
    with that wire_invD(1) [OF inv2] get show ?thesis unfolding wire_records_def by blast
  qed
  moreover have "\<exists>x. fst (store_get E i w) = Inr (Some x) \<and> project_name (heap (snd (store_get E i w)) x) = p"
    if m: "i \<in> members ?K1 p"
  proof -
    obtain t where t: "hex32 i" "holds E ?K1 i t" "project_name t = p"
      using projects_inv_memberD [OF wire_invD(2) [OF inv1] m] by blast
    from get_later [OF t(1,2)] obtain t' where "fst (store_get E i w) = Inr (Some (next_obj w))"
      "heap (snd (store_get E i w)) (next_obj w) = t'" "same_identity t t'" by blast
    with t(3) show ?thesis by (intro exI [of _ "next_obj w"]) (simp add: same_identity_def)
  qed
  moreover have "\<exists>x. fst (store_get E i w) = Inr (Some x)
      \<and> requirement (heap (snd (store_get E i w)) x) \<noteq> []
      \<and> digest_of E (project_name (heap (snd (store_get E i w)) x))
           (requirement (heap (snd (store_get E i w)) x)) = digest_of E p r"
    if d: "ks_keys ?K1 (digest_key E p r) = Some (RStr i)"
  proof -
    obtain t where t: "hex32 i" "holds E ?K1 i t" "requirement t \<noteq> []"
      "digest_of E (project_name t) (requirement t) = digest_of E p r"
      using deployment.digest_names [OF assms(1) inv1 d] by auto
    from get_later [OF t(1,2)] obtain t' where "fst (store_get E i w) = Inr (Some (next_obj w))"
      "heap (snd (store_get E i w)) (next_obj w) = t'" "same_identity t t'" by blast
    with t(3,4) show ?thesis by (intro exI [of _ "next_obj w"]) (simp add: same_identity_def)
  qed
  ultimately show ?thesis by blast
qed

theorem lookups_in_flight_witness:
  "\<exists>s x. wire_run mem_env start_wire s
    \<and> fst (store_get mem_env (task_id no_task) (start_world\<lparr>svc := wr_server s\<rparr>)) = Inr (Some x)
    \<and> project_name (heap (snd (store_get mem_env (task_id no_task) (start_world\<lparr>svc := wr_server s\<rparr>))) x)
        = ''demo''"
proof -
  obtain s where s: "wire_run mem_env start_wire s"
    "task_id no_task \<in> members (mem_view (wr_server s)) ''demo''"
    using posted_wire by blast
  have "\<exists>x. fst (store_get mem_env (task_id no_task) (start_world\<lparr>svc := wr_server s\<rparr>)) = Inr (Some x)
    \<and> project_name (heap (snd (store_get mem_env (task_id no_task) (start_world\<lparr>svc := wr_server s\<rparr>))) x)
        = ''demo''"
    using lookups_in_flight [OF memory.deployment_axioms start_wire_facts(2,1) s(1) wire_run.here,
        of "start_world\<lparr>svc := wr_server s\<rparr>" "''demo''" _ "task_id no_task"] s(2)
    by simp
  with s(1) show ?thesis by blast
qed

end
