(* ===== verification/Spec2Isabelle.thy ===== *)
theory Spec2Isabelle
  imports Lock_Protocol Config Concurrent_Creates Http Phase1_Models Phases Retries Application
    Lifecycle System Settling
begin

text \<open>
  A model of the CIO Run Auto Orchestrator: a service that takes tasks over HTTP, keeps them in Redis,
  and has a pool of workers run them through the CIO-Agent package.

  \<^bold>\<open>The parts and how they interact.\<close> \<open>POST /tasks\<close> (\<open>src/api.py\<close>) looks for a duplicate, stores a new
  task in the store (\<open>src/task_queue/store.py\<close>) and puts it on the queue (\<open>src/task_queue/queue.py\<close>). A
  worker (\<open>src/worker.py\<close>) takes it off, locks its project (\<open>src/worker_locks.py\<close>), gets an engine and a
  scheduler for its configuration (\<open>src/engine_factory.py\<close>), asks the scheduler for the mode
  (\<open>src/scheduler.py\<close>), consumes the engine's events in a thread and publishes them
  (\<open>src/event_bus.py\<close>); \<open>GET /tasks/{id}/stream\<close> subscribes to them and renders them
  (\<open>src/sse_utils.py\<close>, \<open>src/models/api_schemas.py\<close>). At startup \<open>src/main.py\<close> recovers unfinished tasks
  (\<open>src/recovery.py\<close>). \<open>src/task_queue.py\<close> and \<open>src/models.py\<close> are the store, queue and models of an
  earlier phase.

  \<^bold>\<open>State and errors.\<close> A block of Python is a function from the state to a result (a value or an
  exception) and a state: type \<open>py\<close> in theory \<open>Prelude\<close>, with \<open>py_bind\<close>, \<open>py_try\<close> and \<open>py_finally\<close>. The
  state (\<open>world\<close> in theory \<open>Runtime\<close>) has the Redis server, the flag of the shared client
  (\<open>src/redis_client.py\<close>), the heap of \<open>Task\<close> objects, the coroutines scheduled on the loop, the
  dictionary and queue of Phase 1, the engine cache, and a count of readings of clock and id
  generator. Task objects have addresses because workers mutate them in place.

  \<^bold>\<open>Third-party code\<close> is a parameter: the record \<open>env\<close> holds the Redis operations, the JSON printers and
  parser, pydantic's scalar validators, SHA-256, the readings of clock and \<open>uuid4\<close>, and the CIO-Agent
  package. The locale \<open>deployment\<close> names what is relied on: the Redis commands do what their
  documentation says on a keyspace (\<open>redis_service\<close>), JSON texts are parsed back (\<open>json_codec\<close>), pydantic
  accepts values of a field's own type (\<open>pydantic_scalars\<close>), \<open>uuid4().hex\<close> is 32 hexadecimal digits, and
  \<open>__DONE__\<close> is no JSON text. FastAPI is the record
  \<open>framework\<close> of theory \<open>Http\<close>, its documented choice of routes and statuses the locale
  \<open>documented_framework\<close>. The interpretation \<open>memory\<close> discharges the laws of \<open>deployment\<close> for an in-memory server and
  a JSON printer and parser written out in theory \<open>Json\<close>; the witnesses run there. SHA-256 is not
  assumed injective; the theorem that needs it says so.

  \<^bold>\<open>Theories.\<close>
  \<^item> \<open>Prelude\<close>, \<open>Json\<close>, \<open>Cio\<close>, \<open>Redis\<close>, \<open>Runtime\<close>: exceptions and statements, strings, JSON values, printer
    and parser; the CIO-Agent and Redis interfaces; state, settings and the shared client.
  \<^item> \<open>Models\<close>, \<open>Tasks\<close>: \<open>src/models/enums.py\<close>, \<open>src/models/task.py\<close>; serialisation round trip.
  \<^item> \<open>Config\<close>: \<open>src/config.py\<close>; \<open>float()\<close> with the rounding of doubles; which environments load, and that
    the default heartbeat interval is shorter than the lock's time to live.
  \<^item> \<open>Locks\<close>, \<open>Lock_Protocol\<close>: \<open>src/worker_locks.py\<close>; executions that take, refresh and release locks while
    time passes, as a step relation; mutual exclusion of live leases.
  \<^item> \<open>Store\<close>, \<open>Store_Invariant\<close>: \<open>src/task_queue/store.py\<close> and \<open>queue.py\<close>; the invariant of the key
    layout, what each operation returns and writes, FIFO order.
  \<^item> \<open>Crash_Points\<close>: \<open>save\<close> and \<open>async_update\<close> of the store cut off after each of their Redis commands; what
    the next process then answers, and what recovery makes of it.
  \<^item> \<open>Commands\<close>, \<open>Settling\<close>: the calls of store and queue as lists of Redis commands, any number of clients
    that interleave them, the invariant that holds between two commands, and that lookups answer at
    every moment.
  \<^item> \<open>Inproc\<close>, \<open>Phases\<close>: \<open>src/task_queue.py\<close>; the Redis store and queue refine the in-process
    ones operation by operation, but for \<open>update\<close>, which raises on Redis; its scheduled write brings the
    stores together again.
  \<^item> \<open>Phase1_Models\<close>: \<open>src/models.py\<close> with its own enumerations; its records are read by the models in use and the other way round.
  \<^item> \<open>Scheduler\<close>: \<open>src/scheduler.py\<close>; \<open>decide\<close> follows its decision table.
  \<^item> \<open>Engine_Factory\<close>: \<open>src/engine_factory.py\<close>; precedence of configuration sources (with the
    defaults of the code), cache, correlation ids.
  \<^item> \<open>Event_Bus\<close>: \<open>src/event_bus.py\<close>, \<open>src/sse_utils.py\<close> and \<open>SSEPayload\<close>; what is published is what is
    shown, order, and the polls at which keepalives are yielded.
  \<^item> \<open>Config_Schema\<close>: \<open>src/models/config_schema.py\<close>; the validator accepts exactly the documents of
    a table of the fields by path (\<open>documented_fields\<close>), which follows \<open>api_contract.md\<close> but for two lower
    bounds that the code does not check.
  \<^item> \<open>Api\<close>, \<open>Http\<close>, \<open>Concurrent_Creates\<close>: \<open>src/api.py\<close> and the request and response schemas; the outcome of
    each endpoint, the routes, what handlers take from \<open>app.state\<close>, the status of every answer
    to every body and id, deduplication, idempotence, and interleaved requests.
  \<^item> \<open>Event_Loop\<close>, \<open>Worker\<close>, \<open>Retries\<close>: the loop and its threads, \<open>TaskStore.update\<close>, \<open>src/worker.py\<close>; what
    an execution makes of a task and of the locks with either queue; that retries end on the in-process
    queue, and that there are none on the Redis queue. A worker gets its queue as a
    record of operations (locales \<open>task_queue\<close> and \<open>lock_safe_queue\<close>), interpreted for the Redis queue and
    the in-process queue.
  \<^item> \<open>Recovery\<close>, \<open>Application\<close>: \<open>src/recovery.py\<close> and \<open>src/main.py\<close>; the import of the module with
    its logging configuration, recovery, startup, the worker pool, the signal handlers and the
    configuration of the server.
  \<^item> \<open>Frames\<close>, \<open>System\<close>: what every operation of every component leaves alone, and the whole program as
    one transition system: requests, workers, heartbeats, the event loop, time, cancellation, and
    crashes with restart and recovery, in every interleaving of their operations on Redis. The store's
    invariant, mutual exclusion of the workers, and that no accepted task is lost are proved for all its
    reachable states; a worker that is not interrupted goes through its phases as \<open>worker_run\<close> does.
  \<^item> \<open>Lifecycle\<close>: lemmas for the properties below, which span components: a posted task up to its
    last answer, a finished task whose old snapshot is taken off the queue, the default heartbeat
    against the lock's time to live, and what becomes of a \<open>LockStolenError\<close>.

  \<^bold>\<open>Fuel and bounds.\<close> The scan of recovery asks the server until it answers with cursor 0; its model
  counts the calls with fuel, and the laws of \<open>redis_service\<close> say that every iteration ends, so the
  theorems state that enough fuel exists. A worker, a subscription and a stream are functions of the
  turns they are given (what the engine, the wait or the poll did in each), because the loops themselves
  do not end. The JSON parser has one unit of fuel more than the text has characters; a level of nesting
  takes two units and has two brackets, an element takes one and has a character and a separator, so
  the fuel does not end before a well-formed text does.

  \<^bold>\<open>What the theorems show about the program.\<close> Most of it does what it means to: storing, finding,
  queueing, deduplicating, deciding, configuring, publishing, locking and recovering are proved correct.
  The proofs also show defects of \<open>src/worker.py\<close> and its use of the store: \<open>TaskStore.update\<close> blocks the
  loop it waits for and raises, so with the Redis store a started task stays \<open>RUNNING\<close> and its worker
  ends, and a pool starts at most as many tasks as it has workers; \<open>_consume_sync\<close> asks for the running
  loop of a thread that has none, so no task becomes \<open>SUCCESS\<close>; a stolen lock stops no
  execution; a pending task that is still queued is queued again by recovery, and a worker that takes the
  second entry runs the task again even when it is finished; two requests served
  together can both create a task; and a crash inside \<open>save\<close> or \<open>async_update\<close> can leave a task that no
  lookup finds, or a digest key that answers with a finished task.

  \<^bold>\<open>Granularity.\<close> In theory \<open>System\<close> one call of the store, the queue or the locks is one step, also
  where it sends several commands to Redis; a crash falls between calls. What single commands add is
  in three theories: in \<open>Commands\<close> the calls of store and queue are lists of commands, in \<open>Settling\<close> these
  interleave one by one and the store is consistent whenever no client is inside a call, and
  \<open>Crash_Points\<close> has the crashes inside the two calls that write more than one key. The locks send one
  command or one script in each call. The listing of a project reads its set with one command and its
  records with a pipeline; \<open>Settling\<close> shows that what the first read is there for the second.

  \<^bold>\<open>Not modelled.\<close> Log messages; the title and descriptions of the OpenAPI document and HTTP framing
  (FastAPI, sse-starlette); the server itself (\<open>uvicorn\<close>); the order in which the event loop runs
  coroutines, except where a step relation makes it arbitrary; non-ASCII digits and the length limit
  of \<open>int()\<close>; the text of a JSON parser's error messages; \<open>conftest.py\<close>, which stubs packages for tests.
\<close>

section \<open>Properties that span components\<close>

text \<open>C14: the life of a posted task with the Redis store. On an empty queue, for a project that is not
  locked and has no task yet, whose engine is in the cache and whose mode is decided: \<open>POST\<close> answers with
  the new task, the worker's next turn takes it and ends with the \<open>TimeoutError\<close> of its first write, the
  queue is empty again, and \<open>GET\<close> answers that the task is \<open>RUNNING\<close>: after that turn, and in every state
  whose record of the task is the one the turn left, so until somebody writes the record. The worker has
  ended and the task is in no queue; recovery at the next start writes it (\<open>INTERRUPTED\<close>).\<close>

theorem posted_task_lifecycle:
  assumes "deployment E view" "client_ready w" "pending w = []" "store_inv E (view (svc w))"
    and "queue_of (view (svc w)) = []" "\<forall>u. \<not> duplicate E (view (svc w)) body u"
    and "ks_keys (view (svc w)) (task_key (uuid_at E (ticks w))) = None"
    and "0 < lock_ttl (settings E)" "w_queue W = redis_queue E"
    and "ks_keys (view (svc w)) (lock_key (req_project_name body)) = None"
    and "map_of (engine_cache w) (cache_key E (or_none (or_empty (req_work_dir body)))
      (or_none (or_empty (req_config_json body)))) = Some (eng, sched)"
    and "sync_checks sched"
    and "decision_table (req_requirement body = []) (has_project sched (req_project_name body))
      (has_checkpoint sched (req_project_name body)) = Some md"
    and "t = created_task E (ticks w) body"
    and "w1 = snd (create_task E body w)" "w2 = snd (worker_run E W (turn # turns) w1)"
  shows "fst (create_task E body w) = Inr (from_task t)
    \<and> fst (worker_run E W (turn # turns) w1) = Inl TimeoutError
    \<and> queue_of (view (svc w2)) = []
    \<and> (\<exists>n. fst (get_task E (task_id t) w2) = Inr (from_task (running_task E n md t))
        \<and> (\<forall>v. client_ready v \<longrightarrow>
             ks_keys (view (svc v)) (task_key (task_id t)) = ks_keys (view (svc w2)) (task_key (task_id t)) \<longrightarrow>
             fst (get_task E (task_id t) v) = Inr (from_task (running_task E n md t))))"
proof -
  note run = deployment.posted_task_run [OF assms]
  then obtain n where n: "holds E (view (svc w2)) (task_id t) (running_task E n md t)"
    "fst (get_task E (task_id t) w2) = Inr (from_task (running_task E n md t))"
    by blast
  from n(1) have "fst (get_task E (task_id t) v) = Inr (from_task (running_task E n md t))"
    if "client_ready v"
      "ks_keys (view (svc v)) (task_key (task_id t)) = ks_keys (view (svc w2)) (task_key (task_id t))" for v
    using deployment.get_task_run(1) [OF assms(1) that(1)] that(2) by (simp add: holds_def)
  with run n(2) show ?thesis by blast
qed

theorem posted_task_lifecycle_witness:
  "\<exists>r. fst (get_task mem_env (hex_of 32 0)
      (snd (worker_run mem_env (app_worker mem_env) [(Completes, 0)]
        (snd (create_task mem_env demo_request (with_engine (Inr ([], None)) start_world)))))) = Inr r
    \<and> resp_status r = RUNNING"
proof -
  have request: "req_project_name demo_request = ''demo''" "req_requirement demo_request = ''build''"
    "req_work_dir demo_request = None" "req_config_json demo_request = None"
    by (simp_all add: demo_request_def)
  have "w_queue (app_worker mem_env) = redis_queue mem_env" by (simp add: app_worker_def)
  then have "\<exists>n. fst (get_task mem_env (task_id (created_task mem_env 0 demo_request))
      (snd (worker_run mem_env (app_worker mem_env) [(Completes, 0)]
        (snd (create_task mem_env demo_request (with_engine (Inr ([], None)) start_world))))))
    = Inr (from_task (running_task mem_env n NEW (created_task mem_env 0 demo_request)))"
    using posted_task_lifecycle [OF memory.deployment_axioms, of "with_engine (Inr ([], None)) start_world"
        demo_request "app_worker mem_env" "demo_engine (Inr ([], None))" "demo_scheduler False False" NEW
        "created_task mem_env 0 demo_request"
        "snd (create_task mem_env demo_request (with_engine (Inr ([], None)) start_world))"
        _ "(Completes, 0)" "[]"]
      start_world_inv start_world_no_duplicate
    by (auto simp: request queue_of_def simp del: worker_run.simps)
  then show ?thesis by (auto simp: from_task_def running_task_def)
qed

text \<open>C26: with the default interval a heartbeat always finds its lock. When the settings are loaded
  from an environment without \<open>LOCK_HEARTBEAT_INTERVAL\<close>, then in every state that executions with
  distinct tokens reach, an execution that last refreshed its lock at most two intervals ago still
  holds it, and the next refresh succeeds.\<close>

theorem heartbeat_keeps_lock:
  assumes "deployment E view" "fst (load_settings env) = Inr cfg"
    and "env ''LOCK_HEARTBEAT_INTERVAL'' = None" "0 < lock_ttl cfg"
    and "lock_ttl (settings E) = lock_ttl cfg" "inj tok" "lock_start view s0" "lock_run E tok s0 s"
    and "lk_at s c = Some p" "lock_heartbeat_interval cfg = Finite h"
    and "of_int (lock_ttl cfg - lk_lease s c) \<le> 2 * h"
  shows "fst (refresh_lock E p (tok c) (lock_ttl (settings E)) (lk_world s)) = Inr True"
proof -
  have "2 * h < of_int (lock_ttl cfg)"
    using default_heartbeat_bound [OF assms(2-4)] assms(10) by auto
  with assms(11) have "lock_ttl cfg - lk_lease s c < lock_ttl cfg" by linarith
  then show ?thesis
    using deployment.beat_in_time [OF assms(1) _ assms(6-9)] assms(4,5) by simp
qed

theorem heartbeat_keeps_lock_witness:
  "fst (refresh_lock mem_env ''demo'' (demo_token 0) 3600
     (pass_time mem_env 2000 (lk_world demo_locked))) = Inr True"
proof -
  let ?s = "demo_locked\<lparr>lk_world := pass_time mem_env 2000 (lk_world demo_locked),
      lk_lease := (\<lambda>c. lk_lease demo_locked c - int 2000)\<rparr>"
  have "lock_run mem_env demo_token demo_start ?s"
    by (rule lock_run.more [OF demo_facts(3) lock_step.elapse])
  from heartbeat_keeps_lock [OF memory.deployment_axioms settings_defaults _ _ _ demo_facts(1,2) this,
      of 0 "''demo''" 1200]
  show ?thesis by (simp add: default_settings_def demo_locked_def demo_start_def)
qed

text \<open>C28: nobody acts on a stolen lock. When the lock of a running task is no longer its own, the next
  beat raises \<open>LockStolenError\<close>; but that ends only the heartbeat's own coroutine, and \<open>_run_locked\<close>,
  around which \<open>_execute\<close> catches \<open>LockStolenError\<close>, never raises one: the handler is dead code.\<close>

theorem stolen_lock_unnoticed:
  assumes "deployment E view" "client_ready w" "0 < lock_ttl (settings E)" "locks_wf (view (svc w))"
    and "lock_of (view (svc w)) (project_name (heap w x)) \<noteq> Some token"
    and "w_queue W \<in> {redis_queue E, inproc_queue}"
    and "\<And>eng sched. fst (factory_get E (or_none (work_dir (heap w x)))
      (or_none (config_json (heap w x))) w) = Inr (eng, sched) \<Longrightarrow> engine_never_stolen eng"
  shows "fst (heartbeat E (project_name (heap w x)) token (Suc n) w)
      = Inl (LockStolenError (''lock stolen for project '' @ py_repr (project_name (heap w x))))
    \<and> (\<forall>s. fst (run_locked E W ft x w) \<noteq> Inl (LockStolenError s))"
proof -
  have "queue_never_stolen (w_queue W)"
    using assms(6) deployment.redis_queue_never_stolen [OF assms(1)] inproc_queue_never_stolen by auto
  then have "fst (run_locked E W ft x w) \<noteq> Inl (LockStolenError s)" for s
    by (rule deployment.run_locked_not_stolen [OF assms(1)]) (rule assms(7))
  with deployment.heartbeat_stolen [OF assms(1-5)] show ?thesis by blast
qed

theorem stolen_lock_unnoticed_witness:
  "\<exists>w. fst (heartbeat mem_env ''demo'' ''mine'' (Suc 0) w)
      = Inl (LockStolenError (''lock stolen for project '' @ py_repr ''demo''))
    \<and> (\<forall>s. fst (run_locked mem_env (demo_worker inproc_queue) Completes 0 w) \<noteq> Inl (LockStolenError s))"
proof -
  let ?w = "with_engine (Inr ([], None)) (lk_world demo_locked)"
  have w: "client_ready ?w" "locks_wf (mem_view (svc ?w))" "heap ?w 0 = no_task"
    "lock_of (mem_view (svc ?w)) ''demo'' \<noteq> Some ''mine''"
    using memory.acquire_lock_result(2,3) [of start_world 3600 "''demo''" "demo_token 0"]
      memory.acquire_lock_ttl(2) [of start_world 3600 "''demo''" "demo_token 0"]
      redis_only_frame(2) [OF redis_only_locks(1), of mem_env "''demo''" "demo_token 0" 3600 start_world]
    by (simp_all add: demo_locked_def locks_wf_def lock_of_def demo_token_def)
  have "engine_never_stolen eng"
    if "fst (factory_get mem_env (or_none []) (or_none []) ?w) = Inr (eng, sched)" for eng sched
    using that
    by (cases rule: factory_get_cases [of ?w mem_env "or_none []" "or_none []"])
      (auto simp: engine_never_stolen_def iter_events_def demo_engine_def)
  then show ?thesis
    using stolen_lock_unnoticed [OF memory.deployment_axioms w(1) _ w(2), of 0 "''mine''"
        "demo_worker inproc_queue" 0 Completes] w(3,4)
    by (intro exI [of _ ?w]) (simp del: heartbeat.simps)
qed

end
